(* ===== verification/Prelude.thy ===== *)
theory Prelude
  imports Main "HOL-Library.AList" "HOL-Library.Char_ord" "HOL-Library.List_Lexorder"
begin

text \<open>
  Shared vocabulary of the development: Go maps as association lists, the sequencing of fallible
  stateful calls, loops over slices, \<^verbatim>\<open>sort.Strings\<close>, and the lemmas about them that the
  component theories use. Nothing in this theory is specific to the sync engine.

  A Go function that can fail and that changes state is a function
  \<open>'s \<Rightarrow> ('e + 'a) \<times> 's\<close>. The state is returned on the error branch as well: an early
  \<^verbatim>\<open>return err\<close> does not undo the writes that were made before it.
\<close>

named_theorems st_simps \<open>evaluation of sequenced stateful calls\<close>

section \<open>Fallible stateful calls\<close>

type_synonym ('s, 'e, 'a) st = "'s \<Rightarrow> ('e + 'a) \<times> 's"

definition ret :: "'a \<Rightarrow> ('s, 'e, 'a) st" where
  "ret x = (\<lambda>s. (Inr x, s))"

definition throw :: "'e \<Rightarrow> ('s, 'e, 'a) st" where
  "throw e = (\<lambda>s. (Inl e, s))"

definition andThen :: "('s, 'e, 'a) st \<Rightarrow> ('a \<Rightarrow> ('s, 'e, 'b) st) \<Rightarrow> ('s, 'e, 'b) st" where
  "andThen m f = (\<lambda>s. case m s of (Inl e, s') \<Rightarrow> (Inl e, s') | (Inr x, s') \<Rightarrow> f x s')"

text \<open>A \<^verbatim>\<open>for _, x := range xs\<close> loop whose body may return an error.\<close>

fun for_each :: "('a \<Rightarrow> ('s, 'e, unit) st) \<Rightarrow> 'a list \<Rightarrow> ('s, 'e, unit) st" where
  "for_each f [] = ret ()"
| "for_each f (x # xs) = andThen (f x) (\<lambda>_. for_each f xs)"

lemma ret_apply [simp, st_simps]: "ret x s = (Inr x, s)"
  by (simp add: ret_def)

lemma throw_apply [simp, st_simps]: "throw e s = (Inl e, s)"
  by (simp add: throw_def)

lemma andThen_Inr [st_simps]: "m s = (Inr x, s') \<Longrightarrow> andThen m f s = f x s'"
  by (simp add: andThen_def)

lemma andThen_Inl [st_simps]: "m s = (Inl e, s') \<Longrightarrow> andThen m f s = (Inl e, s')"
  by (simp add: andThen_def)

lemma andThen_ret [simp]: "andThen (ret x) f = f x"
  by (simp add: andThen_def fun_eq_iff)

lemma andThen_throw [simp]: "andThen (throw e) f = throw e"
  by (simp add: andThen_def fun_eq_iff)

lemma andThen_Pair [simp]:
  "andThen (Pair (Inr x)) f = f x" "andThen (Pair (Inl e)) f = Pair (Inl e)"
  by (simp_all add: andThen_def fun_eq_iff)

lemma andThen_assoc: "andThen (andThen m f) g = andThen m (\<lambda>x. andThen (f x) g)"
  by (auto simp: andThen_def fun_eq_iff split: prod.splits sum.splits)

lemma andThen_eq_Inr:
  "andThen m f s = (Inr y, t) \<longleftrightarrow> (\<exists>x s'. m s = (Inr x, s') \<and> f x s' = (Inr y, t))"
  by (auto simp: andThen_def split: prod.splits sum.splits)

lemma andThen_eq_Inl:
  "andThen m f s = (Inl e, t) \<longleftrightarrow>
     m s = (Inl e, t) \<or> (\<exists>x s'. m s = (Inr x, s') \<and> f x s' = (Inl e, t))"
  by (auto simp: andThen_def split: prod.splits sum.splits)

lemma andThen_cong [fundef_cong]:
  assumes "m = m'" and "s = s'" and "\<And>x t. m' s' = (Inr x, t) \<Longrightarrow> f x t = f' x t"
  shows "andThen m f s = andThen m' f' s'"
  using assms by (auto simp: andThen_def split: prod.splits sum.splits)

text \<open>
  Whatever every call of a sequence keeps, the sequence keeps, on success and on failure.
\<close>

definition keeps :: "('s \<Rightarrow> bool) \<Rightarrow> ('s, 'e, 'a) st \<Rightarrow> bool" where
  "keeps P m \<longleftrightarrow> (\<forall>s. P s \<longrightarrow> P (snd (m s)))"

lemma keepsI: "(\<And>s. P s \<Longrightarrow> P (snd (m s))) \<Longrightarrow> keeps P m"
  by (simp add: keeps_def)

lemma keepsD: "keeps P m \<Longrightarrow> P s \<Longrightarrow> P (snd (m s))"
  by (simp add: keeps_def)

lemma keeps_ret [intro!, simp]: "keeps P (ret x)"
  by (simp add: keeps_def)

lemma keeps_throw [intro!, simp]: "keeps P (throw e)"
  by (simp add: keeps_def)

lemma keeps_andThen [intro]:
  assumes m: "keeps P m" and f: "\<And>x. keeps P (f x)"
  shows "keeps P (andThen m f)"
proof (rule keepsI)
  fix s assume "P s"
  with m have "P (snd (m s))" by (rule keepsD)
  with f show "P (snd (andThen m f s))"
    by (auto simp: andThen_def keeps_def split: prod.splits sum.splits)
qed

lemma keeps_for_each [intro]: "(\<And>x. x \<in> set xs \<Longrightarrow> keeps P (f x)) \<Longrightarrow> keeps P (for_each f xs)"
  by (induction xs) auto

lemma for_each_append:
  "for_each f (xs @ ys) = andThen (for_each f xs) (\<lambda>_. for_each f ys)"
  by (induction xs) (simp_all add: andThen_assoc)

text \<open>A call on one half of a pair of states, and an update of the other half that cannot fail.\<close>

definition on_fst :: "('s, 'e, 'a) st \<Rightarrow> ('s \<times> 't, 'e, 'a) st" where
  "on_fst m = (\<lambda>(s, t). case m s of (r, s') \<Rightarrow> (r, (s', t)))"

definition count :: "('t \<Rightarrow> 't) \<Rightarrow> ('s \<times> 't, 'e, unit) st" where
  "count f = (\<lambda>(s, t). (Inr (), (s, f t)))"

lemma on_fst_apply [simp]: "on_fst m (s, t) = (fst (m s), (snd (m s), t))"
  by (simp add: on_fst_def case_prod_beta)

lemma count_apply [simp]: "count f (s, t) = (Inr (), (s, f t))"
  by (simp add: count_def)

section \<open>Go maps as association lists\<close>

text \<open>
  A Go map is an association list whose keys are distinct. \<^const>\<open>AList.update\<close> is
  \<^verbatim>\<open>m[k] = v\<close>, \<^const>\<open>AList.delete\<close> is \<^verbatim>\<open>delete(m, k)\<close>, \<^const>\<open>map_of\<close> is
  \<^verbatim>\<open>v, ok := m[k]\<close> and \<^const>\<open>length\<close> is \<^verbatim>\<open>len(m)\<close>.
\<close>

type_synonym ('k, 'v) gomap = "('k \<times> 'v) list"

definition wf_map :: "('k, 'v) gomap \<Rightarrow> bool" where
  "wf_map m \<longleftrightarrow> distinct (map fst m)"

lemma map_of_upd [simp]: "map_of (AList.update k v m) = (map_of m)(k \<mapsto> v)"
  by (rule AList.update_conv')

lemma map_of_del [simp]: "map_of (AList.delete k m) = (map_of m)(k := None)"
  by (rule AList.delete_conv')

lemma wf_map_Nil [simp]: "wf_map []"
  by (simp add: wf_map_def)

lemma wf_map_update [simp]: "wf_map m \<Longrightarrow> wf_map (AList.update k v m)"
  by (simp add: wf_map_def AList.distinct_update)

lemma wf_map_delete [simp]: "wf_map m \<Longrightarrow> wf_map (AList.delete k m)"
  by (simp add: wf_map_def AList.distinct_delete)

lemma wf_map_filter [simp]: "wf_map m \<Longrightarrow> wf_map (filter P m)"
  unfolding wf_map_def by (rule distinct_map_filter)

lemma wf_map_lookup: "wf_map m \<Longrightarrow> map_of m k = Some v \<longleftrightarrow> (k, v) \<in> set m"
  by (simp add: wf_map_def)

lemma map_of_rev: "wf_map m \<Longrightarrow> map_of (rev m) = map_of m"
  by (rule map_of_inject_set [THEN iffD2]) (simp_all add: wf_map_def rev_map [symmetric])

lemma map_of_snoc: "map_of xs k = None \<Longrightarrow> map_of (xs @ [(k, v)]) = (map_of xs)(k \<mapsto> v)"
  by (auto simp: fun_eq_iff map_add_def split: option.splits)

lemma map_of_filter_wf:
  assumes "wf_map m"
  shows "map_of (filter P m) k =
    (case map_of m k of None \<Rightarrow> None | Some v \<Rightarrow> if P (k, v) then Some v else None)"
proof (cases "map_of m k")
  case None
  then have "k \<notin> fst ` set m" by (simp add: map_of_eq_None_iff)
  then have "map_of (filter P m) k = None" by (auto simp: map_of_eq_None_iff)
  with None show ?thesis by simp
next
  case (Some v)
  with assms have kv: "(k, v) \<in> set m" by (simp add: wf_map_lookup)
  show ?thesis
  proof (cases "P (k, v)")
    case True
    with kv assms have "map_of (filter P m) k = Some v"
      by (simp add: wf_map_lookup)
    with True Some show ?thesis by simp
  next
    case False
    have "map_of (filter P m) k = None"
    proof (rule ccontr)
      assume "map_of (filter P m) k \<noteq> None"
      then obtain w where "map_of (filter P m) k = Some w" by auto
      then have "(k, w) \<in> set m" and "P (k, w)" by (auto dest: map_of_SomeD)
      with kv assms False show False by (auto simp: wf_map_lookup [symmetric])
    qed
    with False Some show ?thesis by simp
  qed
qed

lemma keyed_list_eq:
  assumes "distinct (map fst xs)" and "map fst xs = map fst ys" and "set xs = set ys"
  shows "xs = ys"
proof (rule nth_equalityI)
  show len: "length xs = length ys" using assms(2) by (rule map_eq_imp_length_eq)
  fix i assume i: "i < length xs"
  have "fst (xs ! i) = fst (ys ! i)" using assms(2) i len by (metis nth_map)
  moreover have "xs ! i \<in> set xs" using i by (rule nth_mem)
  moreover have "ys ! i \<in> set xs" unfolding assms(3) using i len by (intro nth_mem) simp
  ultimately show "xs ! i = ys ! i" using assms(1)
    by (auto simp: distinct_map dest: inj_onD)
qed

text \<open>Folding single assignments into a map, the shape of every \<^verbatim>\<open>out[k] = v\<close> loop.\<close>

fun assign_all :: "('k, 'v) gomap \<Rightarrow> ('k \<times> 'v) list \<Rightarrow> ('k, 'v) gomap" where
  "assign_all m [] = m"
| "assign_all m ((k, v) # kvs) = assign_all (AList.update k v m) kvs"

lemma wf_map_assign_all [simp]: "wf_map m \<Longrightarrow> wf_map (assign_all m kvs)"
  by (induction m kvs rule: assign_all.induct) auto

lemma map_of_assign_all: "map_of (assign_all m kvs) = map_of m ++ map_of (rev kvs)"
proof (induction m kvs rule: assign_all.induct)
  case (2 m k v kvs)
  then show ?case by (simp add: fun_eq_iff map_add_def split: option.splits)
qed simp

section \<open>Separated text\<close>

text \<open>Text before the first separator determines the split: every composite key of the program.\<close>

lemma sep_eq_iff:
  "x \<notin> set xs \<Longrightarrow> x \<notin> set ys \<Longrightarrow> xs @ x # us = ys @ x # vs \<longleftrightarrow> xs = ys \<and> us = vs"
proof (induction xs arbitrary: ys)
  case Nil
  then show ?case by (cases ys) auto
next
  case (Cons a xs)
  then show ?case by (cases ys) auto
qed

section \<open>Sorting\<close>

text \<open>
  \<^verbatim>\<open>sort.Strings\<close> orders strings bytewise: \<^const>\<open>sort\<close> over \<^typ>\<open>string\<close> with
  the lexicographic order of HOL-Library on bytes.
\<close>

abbreviation sort_strings :: "string list \<Rightarrow> string list" where
  "sort_strings \<equiv> sort"

lemma distinct_sorted_unique:
  fixes xs ys :: "'a::linorder list"
  assumes "sorted xs" "sorted ys" "distinct xs" "distinct ys" "set xs = set ys"
  shows "xs = ys"
  using assms by (simp add: sorted_distinct_set_unique)

end
