(* ===== verification/Go_Lib.thy ===== *)
theory Go_Lib
  imports Prelude
begin

text \<open>
  The parts of Go's standard library that the engine's decisions rest on: \<^verbatim>\<open>time.Time\<close>
  and \<^verbatim>\<open>time.Duration\<close> with their 64-bit arithmetic, decimal formatting
  (\<^verbatim>\<open>strconv.Itoa\<close>, \<^verbatim>\<open>%0wd\<close>), RFC 3339 formatting, and the \<^verbatim>\<open>strings\<close>
  functions of the field transforms.

  A \<^verbatim>\<open>time.Time\<close> is the number of nanoseconds since Go's zero time (1 January of year 1,
  UTC), so \<^verbatim>\<open>IsZero\<close> is equality with 0; locations and monotonic readings play no part in
  the program's decisions. A \<^verbatim>\<open>time.Duration\<close> is an \<^verbatim>\<open>int64\<close>: an \<^typ>\<open>int\<close>
  with the saturation of \<^verbatim>\<open>Time.Sub\<close> and the wrap-around of negation written out.
  A string is its list of bytes. \<open>trim_space\<close> and \<open>to_lower\<close> follow the ASCII path of
  \<^verbatim>\<open>strings.TrimSpace\<close> and \<^verbatim>\<open>strings.ToLower\<close>; a byte of 128 or more is left
  alone, so the model of the text transforms is exact for ASCII text.
\<close>

section \<open>Time and durations\<close>

type_synonym gotime = int
type_synonym duration = int

abbreviation (input) zero_time :: gotime where
  "zero_time \<equiv> 0"

abbreviation (input) nanosecond :: duration where "nanosecond \<equiv> 1"
abbreviation (input) millisecond :: duration where "millisecond \<equiv> 1000000"
abbreviation (input) second :: duration where "second \<equiv> 1000000000"
abbreviation (input) minute :: duration where "minute \<equiv> 60000000000"
abbreviation (input) hour :: duration where "hour \<equiv> 3600000000000"

definition wrap64 :: "int \<Rightarrow> int" where
  "wrap64 n = (n + 2 ^ 63) mod 2 ^ 64 - 2 ^ 63"

definition int64 :: "int \<Rightarrow> bool" where
  "int64 n \<longleftrightarrow> - (2 ^ 63) \<le> n \<and> n < 2 ^ 63"

text \<open>\<^verbatim>\<open>Time.Sub\<close> saturates at the largest and smallest duration.\<close>

definition time_sub :: "gotime \<Rightarrow> gotime \<Rightarrow> duration" where
  "time_sub t u = max (- (2 ^ 63)) (min (2 ^ 63 - 1) (t - u))"

text \<open>The idiom \<^verbatim>\<open>if gap < 0 { gap = -gap }\<close> on an \<^verbatim>\<open>int64\<close>.\<close>

definition dur_abs :: "duration \<Rightarrow> duration" where
  "dur_abs d = (if d < 0 then wrap64 (- d) else d)"

definition unix_epoch :: gotime where
  "unix_epoch = 62135596800 * 1000000000"

definition unix_nano :: "gotime \<Rightarrow> int" where
  "unix_nano t = wrap64 (t - unix_epoch)"

definition from_unix_nano :: "int \<Rightarrow> gotime" where
  "from_unix_nano n = n + unix_epoch"

lemma wrap64_id: "int64 n \<Longrightarrow> wrap64 n = n"
  by (simp add: wrap64_def int64_def)

lemma wrap64_int64: "int64 (wrap64 n)"
  using pos_mod_bound [of "2 ^ 64" "n + 2 ^ 63"] pos_mod_sign [of "2 ^ 64" "n + 2 ^ 63"]
  by (auto simp: wrap64_def int64_def)

lemma unix_nano_roundtrip: "int64 (t - unix_epoch) \<Longrightarrow> from_unix_nano (unix_nano t) = t"
  by (simp add: unix_nano_def from_unix_nano_def wrap64_id)

lemma unix_nano_from: "int64 n \<Longrightarrow> unix_nano (from_unix_nano n) = n"
  by (simp add: unix_nano_def from_unix_nano_def wrap64_id)

lemma time_sub_exact: "int64 (t - u) \<Longrightarrow> time_sub t u = t - u"
  by (simp add: time_sub_def int64_def)

lemma dur_abs_exact: "int64 d \<Longrightarrow> d \<noteq> - (2 ^ 63) \<Longrightarrow> dur_abs d = \<bar>d\<bar>"
  by (auto simp: dur_abs_def int64_def intro!: wrap64_id)

lemma dur_abs_min: "dur_abs (- (2 ^ 63)) = - (2 ^ 63)"
  by (simp add: dur_abs_def wrap64_def)

section \<open>Decimal formatting\<close>

definition digit_char :: "nat \<Rightarrow> char" where
  "digit_char d = ''0123456789'' ! d"

text \<open>The decimal digits of a non-negative integer.\<close>

function dec :: "int \<Rightarrow> string" where
  "dec n = (if n < 10 then [digit_char (nat n)] else dec (n div 10) @ [digit_char (nat (n mod 10))])"
  by pat_completeness auto
termination
  by (relation "measure nat") auto

declare dec.simps [simp del]

definition itoa :: "int \<Rightarrow> string" where
  "itoa n = (if n < 0 then CHR ''-'' # dec (- n) else dec n)"

text \<open>\<^verbatim>\<open>%0wd\<close> of a non-negative number.\<close>

definition zero_pad :: "nat \<Rightarrow> int \<Rightarrow> string" where
  "zero_pad w n = (let s = dec n in replicate (w - length s) (CHR ''0'') @ s)"

text \<open>\<^verbatim>\<open>%0wd\<close> of any number: the sign counts towards the width.\<close>

definition zero_pad_int :: "nat \<Rightarrow> int \<Rightarrow> string" where
  "zero_pad_int w n = (if n < 0 then CHR ''-'' # zero_pad (w - 1) (- n) else zero_pad w n)"

definition is_digit :: "char \<Rightarrow> bool" where
  "is_digit c \<longleftrightarrow> c \<in> set ''0123456789''"

lemma digit_char_is_digit: "d < 10 \<Longrightarrow> is_digit (digit_char d)"
  unfolding is_digit_def digit_char_def by (rule nth_mem) simp

lemma digits_distinct: "distinct ''0123456789''"
  by simp

lemma digit_char_inj: "d < 10 \<Longrightarrow> e < 10 \<Longrightarrow> digit_char d = digit_char e \<longleftrightarrow> d = e"
  unfolding digit_char_def by (subst nth_eq_iff_index_eq [OF digits_distinct]) simp_all

lemma dec_nonempty [simp]: "dec n \<noteq> []" "[] \<noteq> dec n"
  by (subst dec.simps, simp)+

lemma dec_small: "n < 10 \<Longrightarrow> dec n = [digit_char (nat n)]"
  by (simp add: dec.simps)

lemma dec_large: "10 \<le> n \<Longrightarrow> dec n = dec (n div 10) @ [digit_char (nat (n mod 10))]"
  by (simp add: dec.simps [of n])

lemma dec_digits: "0 \<le> n \<Longrightarrow> \<forall>c \<in> set (dec n). is_digit c"
proof (induction n rule: dec.induct)
  case (1 n)
  show ?case
  proof (cases "n < 10")
    case True
    with "1.prems" show ?thesis
      by (auto simp: dec.simps [of n] intro!: digit_char_is_digit)
  next
    case False
    with 1 show ?thesis
      by (auto simp: dec.simps [of n] intro!: digit_char_is_digit)
  qed
qed

lemma dec_inj: "0 \<le> m \<Longrightarrow> 0 \<le> n \<Longrightarrow> dec m = dec n \<Longrightarrow> m = n"
proof (induction m arbitrary: n rule: dec.induct)
  case (1 m)
  show ?case
  proof (cases "m < 10 \<or> n < 10")
    case True
    with "1.prems" show ?thesis
      by (auto simp: dec.simps [of m] dec.simps [of n] digit_char_inj nat_eq_iff split: if_splits)
  next
    case False
    with "1.prems" have "dec (m div 10) = dec (n div 10)" and r: "m mod 10 = n mod 10"
      by (simp_all add: dec.simps [of m] dec.simps [of n] digit_char_inj nat_eq_iff)
    moreover have "0 \<le> m div 10" and "0 \<le> n div 10" using "1.prems" by simp_all
    ultimately have "m div 10 = n div 10" using "1.IH" [of "n div 10"] False by simp
    with r show ?thesis by (metis div_mult_mod_eq)
  qed
qed

lemma not_digit: "\<not> is_digit (CHR '':'')" "\<not> is_digit (CHR ''-'')"
  by (simp_all add: is_digit_def)

lemma dec_no_colon: "0 \<le> n \<Longrightarrow> CHR '':'' \<notin> set (dec n)"
  using dec_digits [of n] not_digit(1) by blast

lemma dec_no_minus: "0 \<le> n \<Longrightarrow> CHR ''-'' \<notin> set (dec n)"
  using dec_digits [of n] not_digit(2) by blast

lemma dec_not_minus: "0 \<le> n \<Longrightarrow> dec n \<noteq> CHR ''-'' # s"
  using dec_no_minus [of n] by (metis list.set_intros(1))

lemma itoa_inj: "itoa m = itoa n \<longleftrightarrow> m = n"
proof
  assume "itoa m = itoa n"
  then show "m = n"
    using dec_not_minus [of m "dec (- n)"] dec_not_minus [of n "dec (- m)"]
      dec_inj [of m n] dec_inj [of "- m" "- n"]
    by (auto simp: itoa_def split: if_splits)
qed simp

text \<open>\<^verbatim>\<open>Duration.String\<close>: the leading digits of a decimal fraction, then the units.\<close>

definition fraction_text :: "int \<Rightarrow> nat \<Rightarrow> string" where
  "fraction_text v p =
     itoa (v div 10 ^ p) @
     (let f = v mod 10 ^ p
      in if f = 0 then []
         else CHR ''.'' # rev (dropWhile (\<lambda>c. c = CHR ''0'') (rev (zero_pad p f))))"

definition dur_string :: "duration \<Rightarrow> string" where
  "dur_string d =
     (let u = \<bar>d\<bar>; sign = (if d < 0 then ''-'' else []); secs = u div second; mins = secs div 60
      in if u = 0 then ''0s''
         else if u < 1000 then sign @ itoa u @ ''ns''
         else if u < millisecond then sign @ fraction_text u 3 @ [CHR 0xC2, CHR 0xB5, CHR ''s'']
         else if u < second then sign @ fraction_text u 6 @ ''ms''
         else sign
           @ (if mins \<ge> 60 then itoa (mins div 60) @ ''h'' else [])
           @ (if mins > 0 then itoa (mins mod 60) @ ''m'' else [])
           @ fraction_text ((secs mod 60) * second + u mod second) 9 @ ''s'')"

section \<open>Strings\<close>

abbreviation nul :: char where "nul \<equiv> CHR 0x00"

definition is_space :: "char \<Rightarrow> bool" where
  "is_space c \<longleftrightarrow> c \<in> {CHR 0x09, CHR 0x0A, CHR 0x0B, CHR 0x0C, CHR 0x0D, CHR 0x20}"

definition trim_space :: "string \<Rightarrow> string" where
  "trim_space s = rev (dropWhile is_space (rev (dropWhile is_space s)))"

definition lower_char :: "char \<Rightarrow> char" where
  "lower_char c =
     (let n = of_char c :: nat in if 65 \<le> n \<and> n \<le> 90 then char_of (n + 32) else c)"

definition to_lower :: "string \<Rightarrow> string" where
  "to_lower s = map lower_char s"

text \<open>\<^verbatim>\<open>strings.Index\<close>: the first occurrence of a substring.\<close>

fun index_sub :: "string \<Rightarrow> string \<Rightarrow> nat option" where
  "index_sub p [] = (if p = [] then Some 0 else None)"
| "index_sub p (c # cs) =
     (if take (length p) (c # cs) = p then Some 0 else map_option Suc (index_sub p cs))"

text \<open>\<^verbatim>\<open>strings.IndexAny\<close> and \<^verbatim>\<open>strings.Index\<close> of one byte.\<close>

fun index_pred :: "(char \<Rightarrow> bool) \<Rightarrow> string \<Rightarrow> nat option" where
  "index_pred P [] = None"
| "index_pred P (c # cs) = (if P c then Some 0 else map_option Suc (index_pred P cs))"

text \<open>\<^verbatim>\<open>strings.LastIndex\<close> of one byte.\<close>

definition last_index :: "char \<Rightarrow> string \<Rightarrow> nat option" where
  "last_index c s = map_option (\<lambda>i. length s - 1 - i) (index_pred (\<lambda>d. d = c) (rev s))"

definition trim_suffix :: "string \<Rightarrow> string \<Rightarrow> string" where
  "trim_suffix s suf =
     (if length suf \<le> length s \<and> drop (length s - length suf) s = suf
      then take (length s - length suf) s else s)"

definition trim_prefix :: "string \<Rightarrow> string \<Rightarrow> string" where
  "trim_prefix s p = (if take (length p) s = p then drop (length p) s else s)"

text \<open>\<^verbatim>\<open>strings.Split\<close> at one byte: never empty.\<close>

fun split_at :: "char \<Rightarrow> string \<Rightarrow> string list" where
  "split_at d [] = [[]]"
| "split_at d (c # cs) =
     (if c = d then [] # split_at d cs
      else (case split_at d cs of [] \<Rightarrow> [[c]] | w # ws \<Rightarrow> (c # w) # ws))"

text \<open>\<^verbatim>\<open>strings.Join\<close>.\<close>

fun join_strings :: "string \<Rightarrow> string list \<Rightarrow> string" where
  "join_strings sep [] = []"
| "join_strings sep [x] = x"
| "join_strings sep (x # xs) = x @ sep @ join_strings sep xs"

text \<open>\<^verbatim>\<open>%q\<close>: a quoted string with the escapes of \<^verbatim>\<open>strconv.Quote\<close>.\<close>

definition hex_digit :: "nat \<Rightarrow> char" where
  "hex_digit d = ''0123456789abcdef'' ! d"

definition quote_char :: "char \<Rightarrow> string" where
  "quote_char c =
     (let n = of_char c :: nat; bs = CHR 0x5C
      in if n = 34 \<or> n = 92 then [bs, c]
         else if n = 7 then [bs, CHR ''a'']
         else if n = 8 then [bs, CHR ''b'']
         else if n = 9 then [bs, CHR ''t'']
         else if n = 10 then [bs, CHR ''n'']
         else if n = 11 then [bs, CHR ''v'']
         else if n = 12 then [bs, CHR ''f'']
         else if n = 13 then [bs, CHR ''r'']
         else if n < 32 \<or> n = 127 then
           [bs, CHR ''x'', hex_digit (n div 16), hex_digit (n mod 16)]
         else [c])"

definition quoted :: "string \<Rightarrow> string" where
  "quoted s = [CHR 0x22] @ concat (map quote_char s) @ [CHR 0x22]"

lemma split_at_nonempty [simp]: "split_at d s \<noteq> []"
  by (cases "(d, s)" rule: split_at.cases) (auto split: list.splits)

lemma join_split [simp]: "join_strings [d] (split_at d s) = s"
proof (induction d s rule: split_at.induct)
  case (2 d c cs)
  obtain w ws where s: "split_at d cs = w # ws" by (meson list.exhaust split_at_nonempty)
  then show ?case using 2 by (cases ws) auto
qed simp

lemma split_at_no_sep: "d \<notin> set s \<Longrightarrow> split_at d s = [s]"
  by (induction d s rule: split_at.induct) auto

lemma split_at_parts: "w \<in> set (split_at d s) \<Longrightarrow> d \<notin> set w"
proof (induction d s arbitrary: w rule: split_at.induct)
  case (2 d c cs)
  then show ?case by (auto split: if_splits list.splits)
qed simp

lemma index_pred_None: "index_pred P s = None \<longleftrightarrow> (\<forall>c \<in> set s. \<not> P c)"
  by (induction P s rule: index_pred.induct) auto

lemma index_pred_take: "index_pred P s = Some i \<Longrightarrow> take i s = takeWhile (\<lambda>c. \<not> P c) s"
  by (induction P s arbitrary: i rule: index_pred.induct) (auto split: if_splits)

lemma index_pred_bound: "index_pred P s = Some i \<Longrightarrow> i < length s \<and> P (s ! i)"
  by (induction P s arbitrary: i rule: index_pred.induct) (auto split: if_splits)

lemma last_index_None [simp]: "last_index c s = None \<longleftrightarrow> c \<notin> set s"
  by (auto simp: last_index_def index_pred_None)

lemma last_index_split:
  assumes "last_index c s = Some i"
  shows "s = take i s @ c # drop (i + 1) s \<and> c \<notin> set (drop (i + 1) s)"
proof -
  from assms obtain j where j: "index_pred (\<lambda>d. d = c) (rev s) = Some j"
    and i: "i = length s - 1 - j"
    by (auto simp: last_index_def)
  from index_pred_bound [OF j] have jl: "j < length s" and at: "rev s ! j = c" by auto
  with i have "s ! i = c" and il: "i < length s" by (auto simp: rev_nth)
  then have eq: "s = take i s @ c # drop (i + 1) s" by (metis Suc_eq_plus1 id_take_nth_drop)
  have "drop (i + 1) s = rev (take j (rev s))"
    using i jl by (simp add: take_rev Suc_diff_Suc)
  moreover have "c \<notin> set (take j (rev s))"
    unfolding index_pred_take [OF j] by (auto dest: set_takeWhileD)
  ultimately show ?thesis using eq by auto
qed

lemma lower_char_idem [simp]: "lower_char (lower_char c) = lower_char c"
  by (auto simp: lower_char_def Let_def)

lemma to_lower_idem [simp]: "to_lower (to_lower s) = to_lower s"
  by (simp add: to_lower_def)

lemma to_lower_append: "to_lower (s @ t) = to_lower s @ to_lower t"
  by (simp add: to_lower_def)

lemma trim_space_fixed:
  assumes "s = [] \<or> \<not> is_space (hd s) \<and> \<not> is_space (last s)"
  shows "trim_space s = s"
proof -
  from assms have "dropWhile is_space s = s" and "dropWhile is_space (rev s) = rev s"
    by (auto simp: dropWhile_eq_self_iff hd_rev)
  then show ?thesis by (simp add: trim_space_def)
qed

lemma trim_space_ends:
  "trim_space s = [] \<or> \<not> is_space (hd (trim_space s)) \<and> \<not> is_space (last (trim_space s))"
proof (cases "trim_space s = []")
  case False
  define t where "t = dropWhile is_space s"
  define u where "u = dropWhile is_space (rev t)"
  from False have u: "u \<noteq> []" by (simp add: trim_space_def t_def u_def)
  then have t: "t \<noteq> []" by (auto simp: u_def)
  have l: "\<not> is_space (hd u)" using u unfolding u_def by (rule hd_dropWhile)
  have h: "\<not> is_space (hd t)" using t unfolding t_def by (rule hd_dropWhile)
  have "last u = hd t"
    using u t unfolding u_def by (metis dropWhile_append3 hd_rev last_appendR last_rev rev_rev_ident takeWhile_dropWhile_id)
  with l h u show ?thesis
    by (simp add: trim_space_def t_def [symmetric] u_def [symmetric] hd_rev last_rev)
qed simp

lemma trim_space_idem [simp]: "trim_space (trim_space s) = trim_space s"
  by (rule trim_space_fixed [OF trim_space_ends])

end
