(* ===== verification/Canonical.thy ===== *)
theory Canonical
  imports Go_Lib
begin

text \<open>
  Package \<^verbatim>\<open>internal/model\<close>: the record and change-event shapes, the canonical rendering
  of a field value and the snapshot digest, which conflict detection, echo suppression and the
  idempotency keys all compare.

  A field value (Go's \<^verbatim>\<open>any\<close>) is a \<open>val\<close>. A \<^verbatim>\<open>float64\<close> is represented by what
  the program can see of it: \<open>FWhole n\<close> is a float equal to its own conversion to
  \<^verbatim>\<open>int64\<close>, and \<open>FOther s\<close> is any other one, named by its shortest decimal text
  (\<^verbatim>\<open>strconv.FormatFloat(f, 'g', -1, 64)\<close>, which determines the float).
  SHA-256 followed by hex encoding is the parameter \<open>H\<close> of every digest: no theorem
  evaluates it, and a theorem that needs two digests to differ says so as a hypothesis.
\<close>

named_theorems canonical_simps \<open>rendering of field values\<close>

section \<open>Values\<close>

datatype float64 = FWhole int | FOther string

datatype val =
    VNil
  | VStr string
  | VBool bool
  | VTime gotime
  | VInt int
  | VFloat float64
  | VMap "(string \<times> val) list"
  | VList "val list"

type_synonym fields = "(string, val) gomap"

text \<open>\<^verbatim>\<open>float64(n)\<close> of an \<^verbatim>\<open>int64\<close>: 53 significant bits, ties to even.\<close>

function f64_shift :: "int \<Rightarrow> nat" where
  "f64_shift a = (if a < 2 ^ 53 then 0 else Suc (f64_shift (a div 2)))"
  by pat_completeness auto
termination
  by (relation "measure nat") auto

declare f64_shift.simps [simp del]

definition round53 :: "int \<Rightarrow> int" where
  "round53 n =
     (let a = \<bar>n\<bar>; e = f64_shift a; q = a div 2 ^ e; r = a mod 2 ^ e;
          q' = (if 2 * r > 2 ^ e \<or> 2 * r = 2 ^ e \<and> odd q then q + 1 else q)
      in sgn n * (q' * 2 ^ e))"

text \<open>
  \<^verbatim>\<open>float64(math.MaxInt64)\<close> rounds up to \<open>2 ^ 63\<close>, which no longer fits an
  \<^verbatim>\<open>int64\<close>, so it is not equal to its own conversion.
\<close>

definition float_of_int :: "int \<Rightarrow> float64" where
  "float_of_int n =
     (if round53 n = 2 ^ 63 then FOther ''9.223372036854776e+18'' else FWhole (round53 n))"

section \<open>Dates\<close>

text \<open>
  The proleptic Gregorian date of a time, as \<^verbatim>\<open>Time.Date\<close> computes it: days are counted
  from 1 March of year 0, in eras of 400 years.
\<close>

definition civil :: "int \<Rightarrow> int \<times> int \<times> int" where
  "civil days =
     (let z = days + 306; era = z div 146097; doe = z mod 146097;
          yoe = (doe - doe div 1460 + doe div 36524 - doe div 146096) div 365;
          doy = doe - (365 * yoe + yoe div 4 - yoe div 100);
          mp = (5 * doy + 2) div 153;
          d = doy - (153 * mp + 2) div 5 + 1;
          m = (if mp < 10 then mp + 3 else mp - 9);
          y = yoe + era * 400 + (if m \<le> 2 then 1 else 0)
      in (y, m, d))"

definition year_of :: "gotime \<Rightarrow> int" where
  "year_of t = fst (civil (t div (24 * hour)))"

text \<open>The fraction of \<^verbatim>\<open>RFC3339Nano\<close>: nine digits with the trailing zeros removed.\<close>

definition fraction :: "int \<Rightarrow> string" where
  "fraction ns =
     (if ns = 0 then []
      else CHR ''.'' # rev (dropWhile (\<lambda>c. c = CHR ''0'') (rev (zero_pad 9 ns))))"

definition clock_text :: "gotime \<Rightarrow> string" where
  "clock_text t =
     (let s = (t div second) mod 86400
      in zero_pad_int 2 (s div 3600) @ '':'' @ zero_pad_int 2 (s div 60 mod 60) @ '':''
         @ zero_pad_int 2 (s mod 60) @ fraction (t mod second))"

definition date_text :: "gotime \<Rightarrow> string" where
  "date_text t =
     (case civil (t div (24 * hour)) of (y, m, d) \<Rightarrow>
        zero_pad_int 4 y @ ''-'' @ zero_pad_int 2 m @ ''-'' @ zero_pad_int 2 d)"

definition rfc3339nano :: "gotime \<Rightarrow> string" where
  "rfc3339nano t = date_text t @ ''T'' @ clock_text t @ ''Z''"

text \<open>\<^verbatim>\<open>Time.String\<close> of a UTC time, which \<^verbatim>\<open>%v\<close> prints.\<close>

definition time_string :: "gotime \<Rightarrow> string" where
  "time_string t = date_text t @ '' '' @ clock_text t @ '' +0000 UTC''"

section \<open>Printing with \<^verbatim>\<open>%v\<close>\<close>

text \<open>
  \<^verbatim>\<open>%v\<close> prints a float with \<^verbatim>\<open>'g'\<close> and the shortest precision: from seven integer
  digits on in exponent form. The digits written for a whole float are exact below \<open>2 ^ 53\<close>.
\<close>

definition exponent_form :: "int \<Rightarrow> string" where
  "exponent_form n =
     (let ds = dec \<bar>n\<bar>; e = length ds - 1;
          m = rev (dropWhile (\<lambda>c. c = CHR ''0'') (rev ds))
      in (if n < 0 then ''-'' else []) @ [hd m] @ (if tl m = [] then [] else CHR ''.'' # tl m)
         @ ''e+'' @ zero_pad 2 (int e))"

definition sprint_float :: "float64 \<Rightarrow> string" where
  "sprint_float f =
     (case f of FWhole n \<Rightarrow> if \<bar>n\<bar> < 1000000 then itoa n else exponent_form n | FOther s \<Rightarrow> s)"

fun sprint :: "val \<Rightarrow> string" where
  "sprint VNil = ''<nil>''"
| "sprint (VStr s) = s"
| "sprint (VBool b) = (if b then ''true'' else ''false'')"
| "sprint (VTime t) = time_string t"
| "sprint (VInt n) = itoa n"
| "sprint (VFloat f) = sprint_float f"
| "sprint (VMap kvs) =
     ''map['' @ join_strings '' ''
        (map (\<lambda>(k, s). k @ '':'' @ s) (sort_key fst (map (\<lambda>kv. (fst kv, sprint (snd kv))) kvs)))
      @ '']''"
| "sprint (VList vs) = ''['' @ join_strings '' '' (map sprint vs) @ '']''"

section \<open>The digest\<close>

definition numeric :: "float64 \<Rightarrow> string" where
  "numeric f = (case f of FWhole n \<Rightarrow> ''n'' @ itoa n | FOther s \<Rightarrow> ''n'' @ s)"

fun canonicalValue :: "val \<Rightarrow> string" where
  "canonicalValue VNil = nul # ''null''"
| "canonicalValue (VStr s) = ''s'' @ s"
| "canonicalValue (VBool b) = ''b'' @ (if b then ''true'' else ''false'')"
| "canonicalValue (VTime t) = ''t'' @ rfc3339nano t"
| "canonicalValue (VInt n) = numeric (float_of_int n)"
| "canonicalValue (VFloat f) = numeric f"
| "canonicalValue (VMap kvs) = ''x'' @ sprint (VMap kvs)"
| "canonicalValue (VList vs) = ''x'' @ sprint (VList vs)"

definition writeChunk :: "string \<Rightarrow> string" where
  "writeChunk s = dec (int (length s)) @ '':'' @ s"

text \<open>What the digest reads of one named field: its canonical value, or the absence mark.\<close>

definition field_chunk :: "fields \<Rightarrow> string \<Rightarrow> string" where
  "field_chunk fs name =
     (case map_of fs name of None \<Rightarrow> nul # ''absent'' | Some v \<Rightarrow> canonicalValue v)"

text \<open>The bytes fed to the hash, and the digest.\<close>

definition snapshot_stream :: "fields \<Rightarrow> string list \<Rightarrow> string" where
  "snapshot_stream fs names =
     concat (map (\<lambda>name. writeChunk name @ writeChunk (field_chunk fs name)) (sort_strings names))"

definition SnapshotHash :: "(string \<Rightarrow> string) \<Rightarrow> fields \<Rightarrow> string list \<Rightarrow> string" where
  "SnapshotHash H fs names = H (snapshot_stream fs names)"

section \<open>Records and events\<close>

record crm_record =
  r_kind :: string
  r_remote_id :: string
  r_fields :: fields
  r_updated_at :: gotime
  r_version :: string

record change_event =
  ev_source :: string
  ev_kind :: string
  ev_remote_id :: string
  ev_delivery_id :: string
  ev_observed_at :: gotime
  ev_deleted :: bool
  ev_record :: "crm_record option"

definition Hydrated :: "change_event \<Rightarrow> bool" where
  "Hydrated e \<longleftrightarrow> ev_record e \<noteq> None"

section \<open>JSON round trips\<close>

text \<open>
  The value that comes back when a field value has been marshalled to JSON and unmarshalled into
  \<^verbatim>\<open>any\<close>: an integer returns as a \<^verbatim>\<open>float64\<close>, a time as its RFC 3339 text.
  Marshalling fails on a float that is not a number and on a year JSON cannot carry.
\<close>

fun json_val :: "val \<Rightarrow> val" where
  "json_val (VInt n) = VFloat (float_of_int n)"
| "json_val (VTime t) = VStr (rfc3339nano t)"
| "json_val (VMap kvs) = VMap (map (\<lambda>kv. (fst kv, json_val (snd kv))) kvs)"
| "json_val (VList vs) = VList (map json_val vs)"
| "json_val v = v"

fun json_ok :: "val \<Rightarrow> bool" where
  "json_ok (VFloat (FOther s)) = (s \<notin> {''NaN'', ''+Inf'', ''-Inf''})"
| "json_ok (VTime t) = (0 \<le> year_of t \<and> year_of t \<le> 9999)"
| "json_ok (VMap kvs) = list_all (\<lambda>kv. json_ok (snd kv)) kvs"
| "json_ok (VList vs) = list_all json_ok vs"
| "json_ok _ = True"

definition json_fields :: "fields \<Rightarrow> fields" where
  "json_fields fs = map (\<lambda>(k, v). (k, json_val v)) fs"

definition json_fields_ok :: "fields \<Rightarrow> bool" where
  "json_fields_ok fs = list_all (\<lambda>(k, v). json_ok v) fs"

section \<open>Facts about the rendering\<close>

lemma f64_shift_small: "a < 2 ^ 53 \<Longrightarrow> f64_shift a = 0"
  by (subst f64_shift.simps) simp

lemma round53_small [simp]: "\<bar>n\<bar> < 2 ^ 53 \<Longrightarrow> round53 n = n"
  unfolding round53_def by (simp only: f64_shift_small Let_def) (simp add: sgn_mult_abs)

lemma float_of_int_small [simp]: "\<bar>n\<bar> < 2 ^ 53 \<Longrightarrow> float_of_int n = FWhole n"
  unfolding float_of_int_def by (simp only: round53_small) auto

subsection \<open>The length-prefixed stream is uniquely decodable\<close>

lemma writeChunk_split:
  assumes "writeChunk s @ x = writeChunk t @ y"
  shows "s = t \<and> x = y"
proof -
  have tw: "takeWhile (\<lambda>c. c \<noteq> CHR '':'') (writeChunk u @ z) = dec (int (length u))" for u z
    using dec_no_colon [of "int (length u)"]
    by (auto simp: writeChunk_def takeWhile_append2 takeWhile_eq_all_conv takeWhile_tail)
  from arg_cong [OF assms, of "takeWhile (\<lambda>c. c \<noteq> CHR '':'')"]
  have "dec (int (length s)) = dec (int (length t))" by (simp only: tw)
  then have len: "length s = length t" by (auto dest: dec_inj [rotated 2])
  with assms show ?thesis by (simp add: writeChunk_def)
qed

lemma concat_chunks_inj:
  assumes "length ns = length ms"
    and "concat (map (\<lambda>n. writeChunk n @ writeChunk (f n)) ns) =
         concat (map (\<lambda>n. writeChunk n @ writeChunk (g n)) ms)"
  shows "ns = ms \<and> (\<forall>n \<in> set ns. f n = g n)"
  using assms
proof (induction ns ms rule: list_induct2)
  case (Cons n ns m ms)
  from Cons.prems have "n = m" and "writeChunk (f n) @ concat (map (\<lambda>n. writeChunk n @ writeChunk (f n)) ns) =
      writeChunk (g m) @ concat (map (\<lambda>n. writeChunk n @ writeChunk (g n)) ms)"
    by (auto dest!: writeChunk_split)
  then show ?case using Cons.IH by (auto dest!: writeChunk_split)
qed simp

lemma snapshot_stream_eq_iff:
  "snapshot_stream fs names = snapshot_stream gs names \<longleftrightarrow>
     (\<forall>n \<in> set names. field_chunk fs n = field_chunk gs n)"
proof
  assume "snapshot_stream fs names = snapshot_stream gs names"
  then show "\<forall>n \<in> set names. field_chunk fs n = field_chunk gs n"
    using concat_chunks_inj [of "sort names" "sort names" "field_chunk fs" "field_chunk gs"]
    by (simp add: snapshot_stream_def)
next
  assume "\<forall>n \<in> set names. field_chunk fs n = field_chunk gs n"
  then show "snapshot_stream fs names = snapshot_stream gs names"
    by (auto simp: snapshot_stream_def intro!: arg_cong [where f = concat])
qed

lemma snapshot_stream_set_cong:
  "sort names = sort names' \<Longrightarrow> snapshot_stream fs names = snapshot_stream fs names'"
  by (simp add: snapshot_stream_def)

text \<open>Absence is no value: the absence mark is the rendering of nothing.\<close>

lemma canonicalValue_not_absent: "canonicalValue v \<noteq> nul # ''absent''"
  by (cases v) (auto simp: numeric_def split: float64.splits)

lemma field_chunk_absent_iff: "field_chunk fs n = nul # ''absent'' \<longleftrightarrow> map_of fs n = None"
  using canonicalValue_not_absent by (auto simp: field_chunk_def split: option.splits)

lemma field_chunk_cong: "map_of fs n = map_of gs n \<Longrightarrow> field_chunk fs n = field_chunk gs n"
  by (simp add: field_chunk_def)

subsection \<open>What the rendering distinguishes\<close>

text \<open>
  The scalars a CRM field holds: text, booleans, numbers and null. Two of them are the same for
  the sync exactly when they are the same text, the same boolean, or numbers with the same
  \<^verbatim>\<open>float64\<close>.
\<close>

fun as_float :: "val \<Rightarrow> float64 option" where
  "as_float (VInt n) = Some (float_of_int n)"
| "as_float (VFloat f) = Some f"
| "as_float _ = None"

fun scalar :: "val \<Rightarrow> bool" where
  "scalar VNil = True"
| "scalar (VStr s) = True"
| "scalar (VBool b) = True"
| "scalar (VInt n) = True"
| "scalar (VFloat f) = True"
| "scalar _ = False"

definition same_scalar :: "val \<Rightarrow> val \<Rightarrow> bool" where
  "same_scalar v w \<longleftrightarrow>
     (case as_float v of Some f \<Rightarrow> as_float w = Some f | None \<Rightarrow> v = w)"

text \<open>
  The text of a float that is not a whole \<^verbatim>\<open>int64\<close> has a byte no integer has (a point, an
  exponent, or the letters of infinity and not-a-number).
\<close>

definition int_text :: "string \<Rightarrow> bool" where
  "int_text s \<longleftrightarrow> list_all (\<lambda>c. is_digit c \<or> c = CHR ''-'') s"

fun wf_float :: "float64 \<Rightarrow> bool" where
  "wf_float (FWhole n) = int64 n"
| "wf_float (FOther s) = (\<not> int_text s)"

fun wf_val :: "val \<Rightarrow> bool" where
  "wf_val (VInt n) = int64 n"
| "wf_val (VFloat f) = wf_float f"
| "wf_val _ = True"

lemma itoa_int_text: "int_text (itoa n)"
  using dec_digits [of n] dec_digits [of "- n"]
  by (auto simp: int_text_def itoa_def list_all_iff)

lemma numeric_inj: "wf_float f \<Longrightarrow> wf_float g \<Longrightarrow> numeric f = numeric g \<longleftrightarrow> f = g"
  using itoa_int_text by (cases f; cases g) (auto simp: numeric_def itoa_inj)

lemma max_float_text: "\<not> int_text ''9.223372036854776e+18''"
  by (simp add: int_text_def is_digit_def)

lemma numeric_head: "\<exists>s. numeric f = CHR ''n'' # s"
  by (simp add: numeric_def split: float64.splits)

lemma f64_shift_bound: "a < 2 ^ (53 + k) \<Longrightarrow> f64_shift a \<le> k"
proof (induction k arbitrary: a)
  case (Suc k)
  then have "a < 2 * 2 ^ (53 + k)" by (simp only: power_Suc add_Suc_right)
  then have "a div 2 < 2 ^ (53 + k)" by linarith
  from Suc.IH [OF this] show ?case by (subst f64_shift.simps) auto
qed (simp add: f64_shift_small)

lemma round53_bound:
  assumes "int64 n"
  shows "\<bar>round53 n\<bar> \<le> 2 ^ 63" and "n < 0 \<Longrightarrow> round53 n \<le> 0"
proof -
  define a where "a = \<bar>n\<bar>"
  define e where "e = f64_shift a"
  define q where "q = a div 2 ^ e"
  define r where "r = a mod 2 ^ e"
  define q' where "q' = (if 2 * r > 2 ^ e \<or> 2 * r = 2 ^ e \<and> odd q then q + 1 else q)"
  have eq: "round53 n = sgn n * (q' * 2 ^ e)"
    by (simp add: round53_def Let_def a_def e_def q_def r_def q'_def)
  have a: "0 \<le> a" "a \<le> 2 ^ 63" using assms by (auto simp: a_def int64_def)
  then have "e \<le> 11" unfolding e_def by (intro f64_shift_bound) simp
  then have pow: "(2::int) ^ 63 = 2 ^ (63 - e) * 2 ^ e" by (simp flip: power_add)
  have aq: "a = q * 2 ^ e + r" unfolding q_def r_def by (rule div_mult_mod_eq [symmetric])
  have q: "0 \<le> q" using a by (simp add: q_def pos_imp_zdiv_nonneg_iff)
  have "q' * 2 ^ e \<le> 2 ^ 63"
  proof (cases "q' = q")
    case True
    have "0 \<le> r" by (simp add: r_def)
    with True aq a show ?thesis by simp
  next
    case False
    then have "q' = q + 1" and "r \<noteq> 0" by (auto simp: q'_def split: if_splits)
    moreover have "0 \<le> r" by (simp add: r_def)
    ultimately have "q' = q + 1" and "0 < r" by simp_all
    with aq a have "q * 2 ^ e < 2 ^ (63 - e) * 2 ^ e" by (simp only: pow [symmetric])
    then have "q + 1 \<le> 2 ^ (63 - e)" by simp
    with \<open>q' = q + 1\<close> show ?thesis unfolding pow by (simp add: mult_right_mono)
  qed
  moreover have "0 \<le> q' * 2 ^ e" using q by (simp add: q'_def)
  ultimately show "\<bar>round53 n\<bar> \<le> 2 ^ 63" and "n < 0 \<Longrightarrow> round53 n \<le> 0"
    by (auto simp: eq abs_mult sgn_if)
qed

lemma float_of_int_wf: "int64 n \<Longrightarrow> wf_float (float_of_int n)"
  using round53_bound [of n] max_float_text by (auto simp: float_of_int_def int64_def)

lemma as_float_wf: "wf_val v \<Longrightarrow> as_float v = Some f \<Longrightarrow> wf_float f"
  by (cases v) (auto simp: float_of_int_wf)

lemma canonicalValue_number: "as_float v = Some f \<Longrightarrow> canonicalValue v = numeric f"
  by (cases v) auto

lemma canonicalValue_scalar_iff:
  assumes "scalar v" "scalar w" "wf_val v" "wf_val w"
  shows "canonicalValue v = canonicalValue w \<longleftrightarrow> same_scalar v w"
proof (cases "as_float v")
  case v: (Some f)
  show ?thesis
  proof (cases "as_float w")
    case (Some g)
    then show ?thesis
      using v numeric_inj [of f g] as_float_wf [OF assms(3) v] as_float_wf [OF assms(4) Some]
      by (auto simp: same_scalar_def canonicalValue_number)
  next
    case None
    with assms(2) numeric_head [of f] v show ?thesis
      by (cases w) (auto simp: same_scalar_def canonicalValue_number)
  qed
next
  case v: None
  show ?thesis
  proof (cases "as_float w")
    case (Some g)
    with assms(1) numeric_head [of g] v show ?thesis
      by (cases v) (auto simp: same_scalar_def canonicalValue_number)
  next
    case None
    with v assms(1,2) show ?thesis by (cases v; cases w) (auto simp: same_scalar_def)
  qed
qed

lemma json_scalar: "scalar v \<Longrightarrow> canonicalValue (json_val v) = canonicalValue v"
  by (cases v) auto

lemma map_of_json_fields: "map_of (json_fields fs) n = map_option json_val (map_of fs n)"
  by (induction fs) (auto simp: json_fields_def)

lemma field_chunk_json:
  "(\<And>v. map_of fs n = Some v \<Longrightarrow> scalar v) \<Longrightarrow> field_chunk (json_fields fs) n = field_chunk fs n"
  by (auto simp: field_chunk_def map_of_json_fields json_scalar split: option.splits)

lemma SnapshotHash_cong:
  "(\<And>n. n \<in> set names \<Longrightarrow> field_chunk fs n = field_chunk gs n) \<Longrightarrow>
     SnapshotHash H fs names = SnapshotHash H gs names"
  using snapshot_stream_eq_iff [of fs names gs] by (simp add: SnapshotHash_def)

lemma wf_json_fields [simp]: "wf_map (json_fields fs) = wf_map fs"
  by (simp add: wf_map_def json_fields_def case_prod_beta comp_def)

section \<open>Properties\<close>

text \<open>
  C27: The bytes fed to the digest determine, for every mapped field, whether the field is absent
  and otherwise its canonical value: two field maps give the same stream exactly when they agree
  on every named field. Length prefixes leave no way to move bytes between neighbouring parts.
\<close>

theorem snapshot_stream_injective:
  "snapshot_stream fs names = snapshot_stream gs names \<longleftrightarrow>
     (\<forall>n \<in> set names.
        (map_of fs n = None \<longleftrightarrow> map_of gs n = None) \<and>
        map_option canonicalValue (map_of fs n) = map_option canonicalValue (map_of gs n))"
  (is "?l \<longleftrightarrow> ?r")
proof -
  have "field_chunk fs n = field_chunk gs n \<longleftrightarrow>
      map_option canonicalValue (map_of fs n) = map_option canonicalValue (map_of gs n)" for n
    using canonicalValue_not_absent
    by (cases "map_of fs n"; cases "map_of gs n") (auto simp: field_chunk_def, metis)
  then show ?thesis by (auto simp: snapshot_stream_eq_iff)
qed

theorem snapshot_stream_injective_witness:
  "snapshot_stream [(''a'', VStr ''bc'')] [''a'', ''b''] \<noteq>
     snapshot_stream [(''a'', VStr ''b''), (''b'', VStr ''c'')] [''a'', ''b''] \<and>
   snapshot_stream [(''a'', VInt 1), (''z'', VNil)] [''a''] =
     snapshot_stream [(''a'', VFloat (FWhole 1))] [''a'']"
  using snapshot_stream_injective [of "[(''a'', VStr ''bc'')]" "[''a'', ''b'']"
      "[(''a'', VStr ''b''), (''b'', VStr ''c'')]"]
    snapshot_stream_injective [of "[(''a'', VInt 1), (''z'', VNil)]" "[''a'']"
      "[(''a'', VFloat (FWhole 1))]"]
  by simp

text \<open>
  The canonical rendering of two scalar field values is the same exactly when they are the
  same text, the same boolean, both null, or numbers with the same \<^verbatim>\<open>float64\<close> value, so
  1 and 1.0 never look like a change and no two different scalars look alike.
\<close>

theorem canonicalValue_scalars:
  assumes "scalar v" "scalar w" "wf_val v" "wf_val w"
  shows "canonicalValue v = canonicalValue w \<longleftrightarrow> same_scalar v w"
  using assms by (rule canonicalValue_scalar_iff)

theorem canonicalValue_scalars_witness:
  "canonicalValue (VInt 7) = canonicalValue (VFloat (FWhole 7)) \<and>
   canonicalValue (VStr ''7'') \<noteq> canonicalValue (VInt 7)"
proof -
  have "scalar (VInt 7)" "scalar (VFloat (FWhole 7))" "wf_val (VInt 7)"
    "wf_val (VFloat (FWhole 7))" "scalar (VStr ''7'')" "wf_val (VStr ''7'')"
    by (simp_all add: int64_def)
  then show ?thesis
    using canonicalValue_scalars [of "VInt 7" "VFloat (FWhole 7)"]
      canonicalValue_scalars [of "VStr ''7''" "VInt 7"]
    by (simp add: same_scalar_def)
qed

text \<open>
  The digest of a record whose mapped values are scalars survives the JSON round trip that
  storing a snapshot puts the values through, so a stored base compares equal to the values it
  was made from.
\<close>

theorem SnapshotHash_json_stable:
  assumes "\<And>n v. n \<in> set names \<Longrightarrow> map_of fs n = Some v \<Longrightarrow> scalar v"
  shows "SnapshotHash H (json_fields fs) names = SnapshotHash H fs names"
  using assms by (intro SnapshotHash_cong field_chunk_json) blast

theorem SnapshotHash_json_stable_witness:
  "SnapshotHash (\<lambda>s. s) (json_fields [(''n'', VInt 3), (''d'', VTime 0)]) [''n''] =
   SnapshotHash (\<lambda>s. s) [(''n'', VInt 3), (''d'', VTime 0)] [''n'']"
  by (rule SnapshotHash_json_stable) (auto split: if_splits)

text \<open>
  A time value does change its rendering when it comes back from JSON as text, whatever the
  time is: the comment on \<^verbatim>\<open>canonicalValue\<close> names this round trip, and the rendering keeps
  the two apart.
\<close>

theorem canonicalValue_time_not_json_stable:
  "canonicalValue (json_val (VTime t)) \<noteq> canonicalValue (VTime t)"
  by simp

text \<open>
  A list-valued field is rendered with \<^verbatim>\<open>%v\<close>, which does not mark where an element
  ends: a list holding one text with a space and the list of its two words have one digest, so
  an edit from one to the other is invisible to change detection.
\<close>

theorem canonicalValue_list_collision:
  "VList [VStr ''a b''] \<noteq> VList [VStr ''a'', VStr ''b''] \<and>
   SnapshotHash H [(''tags'', VList [VStr ''a b''])] [''tags''] =
   SnapshotHash H [(''tags'', VList [VStr ''a'', VStr ''b''])] [''tags'']"
  by (auto intro!: SnapshotHash_cong simp: field_chunk_def)

end
