(* ===== verification/Errors.thy ===== *)
theory Errors
  imports Go_Lib
begin

text \<open>
  Failures as values: \<^verbatim>\<open>internal/connector/errors.go\<close>, the \<^verbatim>\<open>permanentError\<close>
  wrapper and \<^verbatim>\<open>retryable\<close> of \<^verbatim>\<open>internal/engine/pipeline.go\<close>, and the store's
  \<^verbatim>\<open>ErrClosed\<close>. A Go error is a \<open>gerr\<close>; \<^verbatim>\<open>errors.As\<close> walks the tree of
  wrapped errors in pre-order, which \<open>conn_errors\<close> lists.
\<close>

section \<open>The error tree\<close>

datatype errkind =
    KindUnknown
  | KindTransient
  | KindRateLimited
  | KindPermanent
  | KindNotFound
  | KindAuth

datatype gerr =
    ErrText string
  | ErrWrap string gerr
  | ErrJoin "gerr list"
  | ErrConn string string errkind duration gerr
  | ErrPermanent gerr
  | ErrRecheck
  | ErrClosed
  | ErrCtx

definition kind_string :: "errkind \<Rightarrow> string" where
  "kind_string k =
     (case k of
        KindTransient \<Rightarrow> ''transient''
      | KindRateLimited \<Rightarrow> ''rate_limited''
      | KindPermanent \<Rightarrow> ''permanent''
      | KindNotFound \<Rightarrow> ''not_found''
      | KindAuth \<Rightarrow> ''auth''
      | KindUnknown \<Rightarrow> ''unknown'')"

fun err_text :: "gerr \<Rightarrow> string" where
  "err_text (ErrText s) = s"
| "err_text (ErrWrap s e) = s @ '': '' @ err_text e"
| "err_text (ErrJoin es) = join_strings [CHR 0x0A] (map err_text es)"
| "err_text (ErrConn c p k r e) = c @ ''.'' @ p @ '': '' @ kind_string k @ '': '' @ err_text e"
| "err_text (ErrPermanent e) = err_text e"
| "err_text ErrRecheck = ''a previous attempt may have landed; re-resolving''"
| "err_text ErrClosed = ''store: closed''"
| "err_text ErrCtx = ''context canceled''"

text \<open>\<^verbatim>\<open>errors.Join\<close> of a possibly empty list: no error when the list is empty.\<close>

definition join_errors :: "gerr list \<Rightarrow> gerr option" where
  "join_errors es = (if es = [] then None else Some (ErrJoin es))"

text \<open>The connector errors of a tree, in the order \<^verbatim>\<open>errors.As\<close> meets them.\<close>

fun conn_errors :: "gerr \<Rightarrow> (errkind \<times> duration) list" where
  "conn_errors (ErrConn c p k r e) = (k, r) # conn_errors e"
| "conn_errors (ErrWrap s e) = conn_errors e"
| "conn_errors (ErrPermanent e) = conn_errors e"
| "conn_errors (ErrJoin es) = concat (map conn_errors es)"
| "conn_errors _ = []"

fun has_permanent :: "gerr \<Rightarrow> bool" where
  "has_permanent (ErrPermanent e) = True"
| "has_permanent (ErrConn c p k r e) = has_permanent e"
| "has_permanent (ErrWrap s e) = has_permanent e"
| "has_permanent (ErrJoin es) = list_ex has_permanent es"
| "has_permanent _ = False"

fun has_recheck :: "gerr \<Rightarrow> bool" where
  "has_recheck ErrRecheck = True"
| "has_recheck (ErrConn c p k r e) = has_recheck e"
| "has_recheck (ErrWrap s e) = has_recheck e"
| "has_recheck (ErrPermanent e) = has_recheck e"
| "has_recheck (ErrJoin es) = list_ex has_recheck es"
| "has_recheck _ = False"

section \<open>Classification\<close>

definition KindOf :: "gerr option \<Rightarrow> errkind" where
  "KindOf err =
     (case err of
        None \<Rightarrow> KindUnknown
      | Some e \<Rightarrow> (case conn_errors e of (k, r) # _ \<Rightarrow> k | [] \<Rightarrow> KindTransient))"

definition RetryAfterOf :: "gerr \<Rightarrow> duration" where
  "RetryAfterOf e = (case conn_errors e of (k, r) # _ \<Rightarrow> r | [] \<Rightarrow> 0)"

definition Retryable :: "gerr option \<Rightarrow> bool" where
  "Retryable err \<longleftrightarrow> KindOf err \<in> {KindTransient, KindRateLimited, KindUnknown}"

definition IsNotFound :: "gerr option \<Rightarrow> bool" where
  "IsNotFound err \<longleftrightarrow> KindOf err = KindNotFound"

definition Answered :: "gerr \<Rightarrow> bool" where
  "Answered e \<longleftrightarrow> conn_errors e \<noteq> []"

text \<open>The engine's own rule, on top of the connector's.\<close>

definition retryable :: "gerr \<Rightarrow> bool" where
  "retryable e =
     (if has_permanent e then False
      else if has_recheck e then True
      else Retryable (Some e))"

lemmas err_defs = KindOf_def RetryAfterOf_def Retryable_def IsNotFound_def Answered_def

section \<open>Properties\<close>

text \<open>
  What another attempt could fix is retried: every failure the peer did not answer is
  retryable, an answered one is retryable exactly when it is transient, rate limited or
  unclassified, and nothing marked permanent is.
\<close>

theorem retryable_cases:
  "retryable e \<longleftrightarrow> \<not> has_permanent e \<and>
     (has_recheck e \<or> \<not> Answered e \<or>
      KindOf (Some e) \<in> {KindTransient, KindRateLimited, KindUnknown})"
  by (auto simp: retryable_def err_defs split: list.splits prod.splits)

theorem retryable_cases_witness:
  "retryable (ErrWrap ''dial'' (ErrText ''refused'')) \<and>
   retryable (ErrConn ''hs'' ''upsert'' KindRateLimited 5 (ErrText ''429'')) \<and>
   \<not> retryable (ErrConn ''hs'' ''upsert'' KindPermanent 0 (ErrText ''400'')) \<and>
   \<not> retryable (ErrPermanent ErrRecheck)"
  unfolding retryable_cases by (simp add: err_defs)

end
