(* ===== verification/Transforms.thy ===== *)
theory Transforms
  imports Canonical Errors
begin

text \<open>
  \<^verbatim>\<open>internal/mapping/transform.go\<close>: the named transforms a field map may apply to a value
  while it is read into canonical form, and the normalisation that identity matching compares.
\<close>

named_theorems transform_defs \<open>the transform identifiers\<close>

section \<open>Identifiers\<close>

definition TransformNone :: string where [transform_defs]: "TransformNone = ''''"
definition TransformEmailNormalize :: string where
  [transform_defs]: "TransformEmailNormalize = ''email_normalize''"
definition TransformEmailFoldPlus :: string where
  [transform_defs]: "TransformEmailFoldPlus = ''email_fold_plus''"
definition TransformDomainNormalize :: string where
  [transform_defs]: "TransformDomainNormalize = ''domain_normalize''"
definition TransformTrim :: string where [transform_defs]: "TransformTrim = ''trim''"
definition TransformLowercase :: string where [transform_defs]: "TransformLowercase = ''lowercase''"

definition Known :: "string list" where
  "Known =
     [TransformNone, TransformEmailNormalize, TransformEmailFoldPlus, TransformDomainNormalize,
      TransformTrim, TransformLowercase]"

definition IsKnown :: "string \<Rightarrow> bool" where
  "IsKnown name \<longleftrightarrow> list_ex (\<lambda>k. k = name) Known"

section \<open>Normalisation\<close>

definition NormalizeDomain :: "string \<Rightarrow> string" where
  "NormalizeDomain s0 =
     (let s1 = trim_space (to_lower s0);
          s2 = (case index_sub ''://'' s1 of Some i \<Rightarrow> drop (i + 3) s1 | None \<Rightarrow> s1);
          s3 = (case index_pred (\<lambda>c. c \<in> set ''/?#'') s2 of Some i \<Rightarrow> take i s2 | None \<Rightarrow> s2);
          s4 = (case last_index (CHR ''@'') s3 of Some i \<Rightarrow> drop (i + 1) s3 | None \<Rightarrow> s3);
          s5 = (case index_pred (\<lambda>c. c = CHR '':'') s4 of Some i \<Rightarrow> take i s4 | None \<Rightarrow> s4);
          s6 = trim_suffix s5 ''.''
      in trim_prefix s6 ''www.'')"

definition NormalizeEmail :: "string \<Rightarrow> string" where
  "NormalizeEmail s0 =
     (let s = trim_space s0
      in case last_index (CHR ''@'') s of
           None \<Rightarrow> to_lower s
         | Some at \<Rightarrow> to_lower (take at s) @ ''@'' @ NormalizeDomain (drop (at + 1) s))"

definition FoldPlusAddress :: "string \<Rightarrow> string" where
  "FoldPlusAddress s =
     (case last_index (CHR ''@'') s of
        None \<Rightarrow> s
      | Some at \<Rightarrow>
          (let local = take at s;
               local' = (case index_pred (\<lambda>c. c = CHR ''+'') local of
                           Some p \<Rightarrow> take p local
                         | None \<Rightarrow> local)
           in local' @ ''@'' @ drop (at + 1) s))"

definition unknown_transform :: "string \<Rightarrow> gerr" where
  "unknown_transform name = ErrText (''unknown transform '' @ quoted name)"

definition Apply :: "string \<Rightarrow> val \<Rightarrow> gerr + val" where
  "Apply name v =
     (if name = TransformNone then Inr v
      else if \<not> IsKnown name then Inl (unknown_transform name)
      else case v of
        VStr s \<Rightarrow>
          (if name = TransformTrim then Inr (VStr (trim_space s))
           else if name = TransformLowercase then Inr (VStr (to_lower (trim_space s)))
           else if name = TransformEmailNormalize then Inr (VStr (NormalizeEmail s))
           else if name = TransformEmailFoldPlus then
             Inr (VStr (FoldPlusAddress (NormalizeEmail s)))
           else if name = TransformDomainNormalize then Inr (VStr (NormalizeDomain s))
           else Inl (unknown_transform name))
      | _ \<Rightarrow> Inr v)"

section \<open>What normalisation removes\<close>

abbreviation delimiters :: "char set" where
  "delimiters \<equiv> set ''/?#@:''"

lemma set_trim_suffix: "set (trim_suffix s t) \<subseteq> set s"
  by (auto simp: trim_suffix_def dest: in_set_takeD)

lemma set_trim_prefix: "set (trim_prefix s t) \<subseteq> set s"
  by (auto simp: trim_prefix_def dest: in_set_dropD)

lemma set_trim_space: "set (trim_space s) \<subseteq> set s"
  by (auto simp: trim_space_def dest!: set_dropWhileD)

lemma cut_at:
  fixes P s
  defines "t \<equiv> (case index_pred P s of Some i \<Rightarrow> take i s | None \<Rightarrow> s)"
  shows "set t \<subseteq> set s" and "\<forall>c \<in> set t. \<not> P c"
  by (auto simp: t_def index_pred_None index_pred_take split: option.splits dest: set_takeWhileD in_set_takeD)

lemma after_last:
  fixes c s
  defines "t \<equiv> (case last_index c s of Some i \<Rightarrow> drop (i + 1) s | None \<Rightarrow> s)"
  shows "set t \<subseteq> set s" and "c \<notin> set t"
  using last_index_split [of c s] by (auto simp: t_def split: option.splits dest: in_set_dropD)

lemma NormalizeDomain_chars:
  assumes "c \<in> set (NormalizeDomain s)"
  shows "c \<notin> delimiters" and "lower_char c = c"
proof -
  define s1 where "s1 = trim_space (to_lower s)"
  define s2 where "s2 = (case index_sub ''://'' s1 of Some i \<Rightarrow> drop (i + 3) s1 | None \<Rightarrow> s1)"
  define s3 where "s3 = (case index_pred (\<lambda>c. c \<in> set ''/?#'') s2 of Some i \<Rightarrow> take i s2 | None \<Rightarrow> s2)"
  define s4 where "s4 = (case last_index (CHR ''@'') s3 of Some i \<Rightarrow> drop (i + 1) s3 | None \<Rightarrow> s3)"
  define s5 where "s5 = (case index_pred (\<lambda>c. c = CHR '':'') s4 of Some i \<Rightarrow> take i s4 | None \<Rightarrow> s4)"
  have eq: "NormalizeDomain s = trim_prefix (trim_suffix s5 ''.'') ''www.''"
    by (simp only: NormalizeDomain_def Let_def s1_def s2_def s3_def s4_def s5_def)
  have c5: "c \<in> set s5" using assms set_trim_prefix set_trim_suffix unfolding eq by blast
  have c4: "c \<in> set s4" and nc: "c \<noteq> CHR '':''" using c5 cut_at unfolding s5_def by fast+
  have c3: "c \<in> set s3" and na: "c \<noteq> CHR ''@''" using c4 after_last unfolding s4_def by fast+
  have c2: "c \<in> set s2" and np: "c \<notin> set ''/?#''" using c3 cut_at unfolding s3_def by fast+
  have c1: "c \<in> set (to_lower s)"
    using c2 set_trim_space [of "to_lower s"]
    by (auto simp: s2_def s1_def split: option.splits dest: in_set_dropD)
  show "c \<notin> delimiters" using nc na np by simp
  show "lower_char c = c" using c1 by (auto simp: to_lower_def)
qed

lemma NormalizeDomain_no_at: "CHR ''@'' \<notin> set (NormalizeDomain s)"
  using NormalizeDomain_chars(1) by fastforce

text \<open>A host name that is already normal.\<close>

definition normal_host :: "string \<Rightarrow> bool" where
  "normal_host s \<longleftrightarrow>
     list_all (\<lambda>c. lower_char c = c \<and> c \<notin> delimiters \<and> \<not> is_space c) s \<and>
     (s = [] \<or> last s \<noteq> CHR ''.'') \<and> take (length ''www.'') s \<noteq> ''www.''"

lemma index_sub_None: "set s \<inter> set p = {} \<Longrightarrow> p \<noteq> [] \<Longrightarrow> index_sub p s = None"
proof (induction p s rule: index_sub.induct)
  case (2 p c cs)
  have "take (length p) (c # cs) \<noteq> p"
  proof
    assume "take (length p) (c # cs) = p"
    with \<open>p \<noteq> []\<close> have "hd p = c" by (cases p) auto
    with 2 show False by (metis disjoint_iff hd_in_set list.set_intros(1))
  qed
  with 2 show ?case by auto
qed simp

lemma lower_fixed: "list_all (\<lambda>c. lower_char c = c) s \<Longrightarrow> to_lower s = s"
  by (simp add: to_lower_def list_all_iff map_idI)

lemma normal_host_fixed:
  assumes "normal_host s"
  shows "NormalizeDomain s = s"
proof -
  from assms have "list_all (\<lambda>c. lower_char c = c) s"
    unfolding normal_host_def list_all_iff by blast
  then have low: "to_lower s = s" by (rule lower_fixed)
  from assms have "c \<in> set s \<Longrightarrow> \<not> is_space c" for c
    unfolding normal_host_def list_all_iff by blast
  then have trim: "trim_space s = s"
    by (intro trim_space_fixed) (metis hd_in_set last_in_set)
  from assms have no: "c \<in> set s \<Longrightarrow> c \<notin> delimiters" for c
    unfolding normal_host_def list_all_iff by blast
  have colon: "CHR '':'' \<notin> set s" and at: "CHR ''@'' \<notin> set s" using no by force+
  have "index_sub ''://'' t = None" if "CHR '':'' \<notin> set t" for t
    using that by (induction t) auto
  with colon have scheme: "index_sub ''://'' s = None" by blast
  have path: "index_pred (\<lambda>c. c \<in> set ''/?#'') s = None"
    using no by (force simp: index_pred_None)
  have port: "index_pred (\<lambda>c. c = CHR '':'') s = None"
    using colon by (auto simp: index_pred_None)
  have user: "last_index (CHR ''@'') s = None" using at by simp
  have dot: "trim_suffix s ''.'' = s"
    using assms by (cases s rule: rev_cases) (auto simp: trim_suffix_def normal_host_def)
  have www: "trim_prefix s ''www.'' = s"
    using assms by (simp add: trim_prefix_def normal_host_def)
  show ?thesis
    by (simp only: NormalizeDomain_def Let_def low trim scheme path port user dot www option.case)
qed

lemma IsKnown_iff: "IsKnown name \<longleftrightarrow> name \<in> set Known"
  by (auto simp: IsKnown_def list_ex_iff)

lemma Apply_known_iff: "(\<exists>w. Apply name v = Inr w) \<longleftrightarrow> IsKnown name"
  unfolding IsKnown_iff by (cases v) (auto simp: Apply_def IsKnown_iff Known_def)

section \<open>Addresses\<close>

text \<open>An address as it is typed: one at sign, no white space at the ends.\<close>

definition plain_address :: "string \<Rightarrow> string \<Rightarrow> bool" where
  "plain_address l d \<longleftrightarrow>
     CHR ''@'' \<notin> set d \<and> trim_space (l @ ''@'' @ d) = l @ ''@'' @ d"

lemma last_index_at: "CHR ''@'' \<notin> set d \<Longrightarrow> last_index (CHR ''@'') (l @ ''@'' @ d) = Some (length l)"
proof -
  assume d: "CHR ''@'' \<notin> set d"
  have "index_pred (\<lambda>x. x = c) (xs @ c # ys) = Some (length xs)" if "c \<notin> set xs" for c xs ys
    using that by (induction xs) auto
  from this [of "CHR ''@''" "rev d" "rev l"] d show ?thesis by (simp add: last_index_def)
qed

lemma NormalizeEmail_plain:
  "plain_address l d \<Longrightarrow> NormalizeEmail (l @ ''@'' @ d) = to_lower l @ ''@'' @ NormalizeDomain d"
  using last_index_at [of d l] by (simp add: plain_address_def NormalizeEmail_def)

lemma split_at_sign:
  assumes "CHR ''@'' \<notin> set d" "CHR ''@'' \<notin> set d'" "l @ ''@'' @ d = l' @ ''@'' @ d'"
  shows "l = l' \<and> d = d'"
proof -
  from assms last_index_at [of d l] last_index_at [of d' l'] have "length l = length l'" by simp
  with assms(3) show ?thesis by simp
qed

section \<open>Properties\<close>

text \<open>
  Applying a transform fails exactly on an identifier outside the list of known ones; a
  known transform is total, leaves every value that is not text alone, and turns text into text.
\<close>

theorem Apply_total:
  "(\<exists>w. Apply name v = Inr w) \<longleftrightarrow> IsKnown name"
  "IsKnown name \<Longrightarrow> (\<forall>s. v \<noteq> VStr s) \<Longrightarrow> Apply name v = Inr v"
proof -
  show "(\<exists>w. Apply name v = Inr w) \<longleftrightarrow> IsKnown name" by (rule Apply_known_iff)
  show "IsKnown name \<Longrightarrow> (\<forall>s. v \<noteq> VStr s) \<Longrightarrow> Apply name v = Inr v"
    by (cases v) (auto simp: Apply_def)
qed

theorem Apply_total_witness:
  "Apply ''trim'' (VInt 4) = Inr (VInt 4) \<and> (\<nexists>w. Apply ''title'' (VStr ''x'') = Inr w)"
proof -
  have k: "IsKnown ''trim''" and u: "\<not> IsKnown ''title''"
    by (simp_all add: IsKnown_def Known_def transform_defs)
  show ?thesis using Apply_total(2) [OF k, of "VInt 4"] Apply_total(1) [of "''title''"] u by simp
qed

text \<open>
  A normalised domain carries no scheme, path, query, fragment, user or port delimiter and no
  upper-case letter, and a host name that is already in that form is left as it is.
\<close>

theorem NormalizeDomain_normal:
  "(\<forall>c \<in> set (NormalizeDomain s). c \<notin> set ''/?#@:'' \<and> lower_char c = c) \<and>
   (normal_host s \<longrightarrow> NormalizeDomain s = s)"
  using NormalizeDomain_chars normal_host_fixed by blast

theorem NormalizeDomain_normal_witness:
  "CHR ''e'' \<notin> set ''/?#@:'' \<and> NormalizeDomain ''example.com'' = ''example.com''"
proof -
  have "CHR ''e'' \<in> set (NormalizeDomain ''HTTPS://www.Example.com/a'')" by code_simp
  moreover have "normal_host ''example.com''" by code_simp
  ultimately show ?thesis using NormalizeDomain_normal by blast
qed

text \<open>
  Email normalisation never merges two mailboxes: two addresses normalise to the same text
  exactly when their local parts differ in letter case only and their domains normalise to the
  same host. In particular a plus tag keeps its address apart.
\<close>

theorem NormalizeEmail_merges_only:
  assumes "plain_address l d" "plain_address l' d'"
  shows "NormalizeEmail (l @ ''@'' @ d) = NormalizeEmail (l' @ ''@'' @ d') \<longleftrightarrow>
    to_lower l = to_lower l' \<and> NormalizeDomain d = NormalizeDomain d'"
  using split_at_sign [OF NormalizeDomain_no_at NormalizeDomain_no_at, of "to_lower l" d "to_lower l'" d']
  unfolding NormalizeEmail_plain [OF assms(1)] NormalizeEmail_plain [OF assms(2)] by auto

theorem NormalizeEmail_merges_only_witness:
  "NormalizeEmail (''ann+crm'' @ ''@'' @ ''example.com'') \<noteq>
     NormalizeEmail (''ann'' @ ''@'' @ ''example.com'') \<and>
   NormalizeEmail (''Ann'' @ ''@'' @ ''Example.com.'') =
     NormalizeEmail (''ann'' @ ''@'' @ ''example.com'')"
proof -
  have p: "plain_address ''ann+crm'' ''example.com''" "plain_address ''ann'' ''example.com''"
    "plain_address ''Ann'' ''Example.com.''" by code_simp+
  have d: "NormalizeDomain ''Example.com.'' = NormalizeDomain ''example.com''" by code_simp
  have l: "to_lower ''ann+crm'' \<noteq> to_lower ''ann''" "to_lower ''Ann'' = to_lower ''ann''" by code_simp+
  show ?thesis
    using NormalizeEmail_merges_only [OF p(1,2)] NormalizeEmail_merges_only [OF p(3,2)] d l
    by (simp only: simp_thms)
qed

text \<open>
  Domain normalisation is not idempotent: it strips one \<^verbatim>\<open>www.\<close>, one trailing dot and
  the white space around the whole text only, so a value it produced can change when the peer
  returns it and it is normalised again.
\<close>

theorem NormalizeDomain_not_idempotent:
  "NormalizeDomain ''www.www.example.com'' = ''www.example.com'' \<and>
   NormalizeDomain ''www.example.com'' = ''example.com'' \<and>
   NormalizeDomain ''example.com..'' = ''example.com.'' \<and>
   NormalizeDomain ''example.com.'' = ''example.com'' \<and>
   NormalizeDomain ''example.com :80'' = ''example.com '' \<and>
   NormalizeDomain ''example.com '' = ''example.com''"
  by code_simp

end
