(* ===== verification/Field_Map.thy ===== *)
theory Field_Map
  imports Transforms
begin

text \<open>
  \<^verbatim>\<open>internal/mapping/mapping.go\<close> and the schema part of
  \<^verbatim>\<open>internal/connector/connector.go\<close>: the executable field map between two peers and the
  canonical fields. Directions are intersected as bit sets, dotted paths are read and written
  through nested maps, and a mapping is validated against both peers' schemas.
\<close>

unbundle bit_operations_syntax

named_theorems direction_defs \<open>the direction vocabulary\<close>

section \<open>Sides and directions\<close>

datatype side = Left | Right

definition side_string :: "side \<Rightarrow> string" where
  "side_string s = (if s = Left then ''left'' else ''right'')"

definition Other :: "side \<Rightarrow> side" where
  "Other s = (if s = Left then Right else Left)"

definition LeftToRight :: string where [direction_defs]: "LeftToRight = ''left_to_right''"
definition RightToLeft :: string where [direction_defs]: "RightToLeft = ''right_to_left''"
definition Bidirectional :: string where [direction_defs]: "Bidirectional = ''bidirectional''"

definition bitToRight :: int where [direction_defs]: "bitToRight = 1"
definition bitToLeft :: int where [direction_defs]: "bitToLeft = 2"

definition directionBits :: "(string, int) gomap" where [direction_defs]:
  "directionBits =
     [(LeftToRight, bitToRight), (RightToLeft, bitToLeft), (Bidirectional, bitToRight OR bitToLeft)]"

definition Directions :: "string list" where
  "Directions = [LeftToRight, RightToLeft, Bidirectional]"

definition IsValidDirection :: "string \<Rightarrow> bool" where
  "IsValidDirection d \<longleftrightarrow> map_of directionBits d \<noteq> None"

definition Narrow :: "string \<Rightarrow> string \<Rightarrow> string option" where
  "Narrow syncDirection fieldDirection =
     (case map_of directionBits syncDirection of
        None \<Rightarrow> None
      | Some base \<Rightarrow>
          if fieldDirection = '''' then Some syncDirection
          else case map_of directionBits fieldDirection of
                 None \<Rightarrow> None
               | Some over \<Rightarrow>
                   if base AND over = bitToRight then Some LeftToRight
                   else if base AND over = bitToLeft then Some RightToLeft
                   else if base AND over = bitToRight OR bitToLeft then Some Bidirectional
                   else None)"

definition WritesTo :: "string \<Rightarrow> side \<Rightarrow> bool" where
  "WritesTo direction side =
     (let bit = (if side = Left then bitToLeft else bitToRight);
          bits = (case map_of directionBits direction of Some b \<Rightarrow> b | None \<Rightarrow> 0)
      in bits AND bit \<noteq> 0)"

section \<open>Mappers\<close>

record field_spec =
  fs_canonical :: string
  fs_left :: string
  fs_right :: string
  fs_transform :: string
  fs_direction :: string

record mapping_spec =
  sp_kind :: string
  sp_direction :: string
  sp_fields :: "field_spec list"

record mfield =
  f_canonical :: string
  f_left :: string
  f_right :: string
  f_transform :: string
  f_direction :: string

definition Path :: "mfield \<Rightarrow> side \<Rightarrow> string" where
  "Path f side = (if side = Left then f_left f else f_right f)"

record mapper =
  m_kind :: string
  m_direction :: string
  m_fields :: "mfield list"
  m_byName :: "(string, mfield) gomap"

definition field_where :: "nat \<Rightarrow> field_spec \<Rightarrow> string" where
  "field_where i f = ''fields['' @ itoa (int i) @ ''] ('' @ fs_canonical f @ '')''"

text \<open>
  One iteration of the loop in \<^verbatim>\<open>New\<close>: the mapper so far, the errors so far, the index and
  the configured field. Every rejected field is reported and none is dropped silently.
\<close>

definition new_field :: "nat \<Rightarrow> field_spec \<Rightarrow> mapper \<times> gerr list \<Rightarrow> mapper \<times> gerr list" where
  "new_field i f acc =
     (let (m, errs) = acc; at = field_where i f
      in if fs_canonical f = '''' then (m, errs @ [ErrText (at @ '': canonical name is empty'')])
         else if map_of (m_byName m) (fs_canonical f) \<noteq> None then
           (m, errs @ [ErrText (at @ '': '' @ quoted (fs_canonical f) @ '' is mapped twice'')])
         else if fs_left f = '''' \<or> fs_right f = '''' then
           (m, errs @ [ErrText (at @ '': both sides must name a field'')])
         else if \<not> IsKnown (fs_transform f) then
           (m, errs @ [ErrText (at @ '': unknown transform '' @ quoted (fs_transform f))])
         else case Narrow (m_direction m) (fs_direction f) of
                None \<Rightarrow> (m, errs @ [ErrText (at @ '': direction '' @ quoted (fs_direction f)
                    @ '' cannot be combined with the sync's '' @ quoted (m_direction m)
                    @ '', so this field would never sync'')])
              | Some d \<Rightarrow>
                  (let fld = \<lparr>f_canonical = fs_canonical f, f_left = fs_left f,
                              f_right = fs_right f, f_transform = fs_transform f,
                              f_direction = d\<rparr>
                   in (m\<lparr>m_fields := m_fields m @ [fld],
                         m_byName := AList.update (fs_canonical f) fld (m_byName m)\<rparr>, errs)))"

fun new_fields :: "nat \<Rightarrow> field_spec list \<Rightarrow> mapper \<times> gerr list \<Rightarrow> mapper \<times> gerr list" where
  "new_fields i [] acc = acc"
| "new_fields i (f # fs) acc = new_fields (Suc i) fs (new_field i f acc)"

definition New :: "mapping_spec \<Rightarrow> gerr + mapper" where
  "New s =
     (if \<not> IsValidDirection (sp_direction s) then
        Inl (ErrText (''mapping: unknown direction '' @ quoted (sp_direction s)))
      else
        let m0 = \<lparr>m_kind = sp_kind s, m_direction = sp_direction s, m_fields = [], m_byName = []\<rparr>;
            (m, errs) = new_fields 0 (sp_fields s) (m0, []);
            errs' = (if m_fields m = [] \<and> errs = [] then
                       [ErrText ''mapping: the sync maps no fields, so it would write nothing'']
                     else errs)
        in if errs' \<noteq> [] then Inl (ErrJoin errs') else Inr m)"

definition CanonicalNames :: "mapper \<Rightarrow> string list" where
  "CanonicalNames m = sort_strings (map f_canonical (m_fields m))"

section \<open>Dotted paths\<close>

fun walk :: "val \<Rightarrow> string list \<Rightarrow> val option" where
  "walk cur [] = Some cur"
| "walk cur (p # ps) =
     (case cur of
        VMap kvs \<Rightarrow> (case map_of kvs p of None \<Rightarrow> None | Some v \<Rightarrow> walk v ps)
      | _ \<Rightarrow> None)"

definition getPath :: "fields \<Rightarrow> string \<Rightarrow> val option" where
  "getPath fs path =
     (case map_of fs path of
        Some v \<Rightarrow> Some v
      | None \<Rightarrow>
          (let parts = split_at (CHR ''.'') path
           in if length parts = 1 then None else walk (VMap fs) parts))"

fun set_parts :: "fields \<Rightarrow> string list \<Rightarrow> val \<Rightarrow> fields" where
  "set_parts cur [] v = cur"
| "set_parts cur [p] v = AList.update p v cur"
| "set_parts cur (p # q # ps) v =
     (let inner = (case map_of cur p of Some (VMap kvs) \<Rightarrow> kvs | _ \<Rightarrow> [])
      in AList.update p (VMap (set_parts inner (q # ps) v)) cur)"

definition setPath :: "fields \<Rightarrow> string \<Rightarrow> val \<Rightarrow> fields" where
  "setPath fs path v =
     (let parts = split_at (CHR ''.'') path
      in if length parts = 1 then AList.update path v fs else set_parts fs parts v)"

section \<open>Reading and writing records\<close>

definition to_canonical_field ::
  "side \<Rightarrow> crm_record \<Rightarrow> mfield \<Rightarrow> fields \<times> gerr list \<Rightarrow> fields \<times> gerr list" where
  "to_canonical_field side rec f acc =
     (let (out, errs) = acc
      in case getPath (r_fields rec) (Path f side) of
           None \<Rightarrow> (out, errs)
         | Some v \<Rightarrow>
             (case Apply (f_transform f) v of
                Inl e \<Rightarrow> (out, errs @ [ErrWrap (''field '' @ quoted (f_canonical f)) e])
              | Inr tv \<Rightarrow> (AList.update (f_canonical f) tv out, errs)))"

definition ToCanonical :: "mapper \<Rightarrow> side \<Rightarrow> crm_record \<Rightarrow> gerr + fields" where
  "ToCanonical m side rec =
     (let (out, errs) = fold (to_canonical_field side rec) (m_fields m) ([], [])
      in if errs \<noteq> [] then Inl (ErrJoin errs) else Inr out)"

definition from_canonical_field :: "side \<Rightarrow> fields \<Rightarrow> mfield \<Rightarrow> fields \<Rightarrow> fields" where
  "from_canonical_field side canonical f out =
     (if \<not> WritesTo (f_direction f) side then out
      else case map_of canonical (f_canonical f) of
             None \<Rightarrow> out
           | Some v \<Rightarrow> setPath out (Path f side) v)"

definition FromCanonical :: "mapper \<Rightarrow> side \<Rightarrow> fields \<Rightarrow> fields" where
  "FromCanonical m side canonical = fold (from_canonical_field side canonical) (m_fields m) []"

definition WritableNames :: "mapper \<Rightarrow> side \<Rightarrow> string list" where
  "WritableNames m side =
     sort_strings (map f_canonical (filter (\<lambda>f. WritesTo (f_direction f) side) (m_fields m)))"

section \<open>Schemas and validation\<close>

record schema_field =
  sf_name :: string
  sf_type :: string
  sf_read_only :: bool
  sf_required :: bool

record schema =
  sc_kind :: string
  sc_fields :: "schema_field list"

definition schema_field :: "schema \<Rightarrow> string \<Rightarrow> schema_field option" where
  "schema_field s name = find (\<lambda>f. sf_name f = name) (sc_fields s)"

definition schema_names :: "schema \<Rightarrow> string list" where
  "schema_names s = map sf_name (sc_fields s)"

definition validate_field :: "side \<Rightarrow> schema \<Rightarrow> mfield \<Rightarrow> gerr list" where
  "validate_field side sch f =
     (let path = Path f side
      in case schema_field sch path of
           None \<Rightarrow>
             [ErrText (''field '' @ quoted (f_canonical f) @ '': '' @ side_string side @ '' has no field ''
                @ quoted path @ '' (it has '' @ join_strings '', '' (schema_names sch) @ '')'')]
         | Some spec \<Rightarrow>
             if sf_read_only spec \<and> WritesTo (f_direction f) side then
               [ErrText (''field '' @ quoted (f_canonical f) @ '': '' @ side_string side @ '' field ''
                  @ quoted path @ '' is read-only, but the direction '' @ quoted (f_direction f) @ '' writes to it'')]
             else [])"

definition validate_side :: "mapper \<Rightarrow> side \<Rightarrow> schema \<Rightarrow> gerr list" where
  "validate_side m side sch =
     (if sc_kind sch \<noteq> '''' \<and> sc_kind sch \<noteq> m_kind m then
        [ErrText (side_string side @ '': schema describes '' @ quoted (sc_kind sch)
           @ '' but the sync is for '' @ quoted (m_kind m))]
      else [])
     @ concat (map (validate_field side sch) (m_fields m))"

text \<open>The two sides are visited in map order, so the errors are sorted by their text.\<close>

definition Validate :: "mapper \<Rightarrow> schema \<Rightarrow> schema \<Rightarrow> gerr option" where
  "Validate m left right =
     join_errors (sort_key err_text (validate_side m Left left @ validate_side m Right right))"

section \<open>Directions as sets of sides\<close>

lemma IsValidDirection_iff: "IsValidDirection d \<longleftrightarrow> d \<in> set Directions"
  by (auto simp: IsValidDirection_def Directions_def direction_defs)

lemma WritesTo_simps [simp]:
  "WritesTo LeftToRight Right" "\<not> WritesTo LeftToRight Left"
  "WritesTo RightToLeft Left" "\<not> WritesTo RightToLeft Right"
  "WritesTo Bidirectional side"
  by (cases side; simp add: WritesTo_def direction_defs)+

lemma WritesTo_invalid: "\<not> IsValidDirection d \<Longrightarrow> \<not> WritesTo d side"
  by (simp add: WritesTo_def IsValidDirection_def)

lemma direction_cases:
  assumes "IsValidDirection d"
  obtains "d = LeftToRight" | "d = RightToLeft" | "d = Bidirectional"
  using assms by (auto simp: IsValidDirection_iff Directions_def)

lemma Other_simps [simp]: "Other Left = Right" "Other Right = Left" "Other (Other s) = s"
  by (cases s; simp add: Other_def)+

lemma Narrow_table:
  "Narrow LeftToRight LeftToRight = Some LeftToRight" "Narrow LeftToRight RightToLeft = None"
  "Narrow LeftToRight Bidirectional = Some LeftToRight"
  "Narrow RightToLeft LeftToRight = None" "Narrow RightToLeft RightToLeft = Some RightToLeft"
  "Narrow RightToLeft Bidirectional = Some RightToLeft"
  "Narrow Bidirectional LeftToRight = Some LeftToRight"
  "Narrow Bidirectional RightToLeft = Some RightToLeft"
  "Narrow Bidirectional Bidirectional = Some Bidirectional"
  by (simp_all add: Narrow_def direction_defs)

lemma Narrow_invalid:
  "\<not> IsValidDirection d \<Longrightarrow> Narrow d f = None"
  "f \<noteq> '''' \<Longrightarrow> \<not> IsValidDirection f \<Longrightarrow> Narrow d f = None"
  by (auto simp: Narrow_def IsValidDirection_def split: option.splits)

lemma Narrow_default: "IsValidDirection d \<Longrightarrow> Narrow d '''' = Some d"
  by (auto simp: Narrow_def IsValidDirection_def)

lemma empty_direction: "\<not> IsValidDirection ''''"
  by (simp add: IsValidDirection_def direction_defs)

section \<open>Path algebra\<close>

fun diverge :: "string list \<Rightarrow> string list \<Rightarrow> bool" where
  "diverge (p # ps) (q # qs) = (p \<noteq> q \<or> diverge ps qs)"
| "diverge _ _ = False"

lemma walk_set_same: "ps \<noteq> [] \<Longrightarrow> walk (VMap (set_parts fs ps v)) ps = Some v"
  by (induction fs ps v rule: set_parts.induct) auto

lemma walk_set_other:
  "diverge ps qs \<Longrightarrow> walk (VMap (set_parts fs ps v)) qs = walk (VMap fs) qs"
proof (induction fs ps v arbitrary: qs rule: set_parts.induct)
  case (2 cur p v)
  then show ?case by (cases qs) auto
next
  case (3 cur p p' ps v)
  then obtain q qs' where q: "qs = q # qs'" by (cases qs) auto
  show ?case
  proof (cases "q = p")
    case True
    with 3 q have d: "diverge (p' # ps) qs'" by simp
    then obtain r rs where r: "qs' = r # rs" by (cases qs') auto
    have "walk (VMap (set_parts inner (p' # ps) v)) qs' = walk (VMap inner) qs'"
      if "inner = (case map_of cur p of Some (VMap kvs) \<Rightarrow> kvs | _ \<Rightarrow> [])" for inner
      using 3(1) [OF that d] .
    then show ?thesis using True q r by (auto split: option.splits val.splits)
  next
    case False
    with q show ?thesis by simp
  qed
qed simp_all

lemma split_single: "length (split_at c s) = Suc 0 \<Longrightarrow> split_at c s = [s]"
  using join_split [of c s] by (cases "split_at c s") auto

abbreviation parts :: "string \<Rightarrow> string list" where
  "parts path \<equiv> split_at (CHR ''.'') path"

lemma setPath_parts: "setPath fs path v = set_parts fs (parts path) v"
  by (cases "length (parts path) = 1") (auto simp: setPath_def Let_def dest: split_single)

definition undotted :: "fields \<Rightarrow> bool" where
  "undotted fs \<longleftrightarrow> (\<forall>k \<in> fst ` set fs. CHR ''.'' \<notin> set k)"

lemma undotted_Nil [simp]: "undotted []"
  by (simp add: undotted_def)

lemma undotted_set: "undotted fs \<Longrightarrow> \<forall>p \<in> set ps. CHR ''.'' \<notin> set p \<Longrightarrow> undotted (set_parts fs ps v)"
  by (cases "(fs, ps, v)" rule: set_parts.cases) (auto simp: undotted_def AList.dom_update Let_def)

lemma undotted_setPath: "undotted fs \<Longrightarrow> undotted (setPath fs path v)"
  unfolding setPath_parts by (rule undotted_set) (auto dest: split_at_parts)

lemma getPath_walk:
  assumes u: "undotted fs"
  shows "getPath fs path = walk (VMap fs) (parts path)"
proof (cases "length (parts path) = 1")
  case True
  then show ?thesis using split_single [of "CHR ''.''" path]
    by (auto simp: getPath_def split: option.splits)
next
  case False
  then have "CHR ''.'' \<in> set path" by (metis length_Cons list.size(3) One_nat_def split_at_no_sep)
  with u have "map_of fs path = None" by (auto simp: undotted_def map_of_eq_None_iff)
  with False show ?thesis by (simp add: getPath_def)
qed

section \<open>What a mapper reads and writes\<close>

definition path_disjoint :: "mapper \<Rightarrow> side \<Rightarrow> bool" where
  "path_disjoint m side \<longleftrightarrow>
     (\<forall>f \<in> set (m_fields m). \<forall>g \<in> set (m_fields m).
        f \<noteq> g \<longrightarrow> diverge (parts (Path f side)) (parts (Path g side)))"

text \<open>The value of a field that is written into a side, if there is one.\<close>

definition outgoing :: "side \<Rightarrow> fields \<Rightarrow> mfield \<Rightarrow> val option" where
  "outgoing side c f =
     (if WritesTo (f_direction f) side then map_of c (f_canonical f) else None)"

lemma from_canonical_field_outgoing:
  "from_canonical_field side c f out =
     (case outgoing side c f of None \<Rightarrow> out | Some v \<Rightarrow> setPath out (Path f side) v)"
  by (simp add: from_canonical_field_def outgoing_def)

lemma undotted_fold:
  "undotted out \<Longrightarrow> undotted (fold (from_canonical_field side c) fs out)"
  by (induction fs arbitrary: out)
    (auto simp: from_canonical_field_outgoing undotted_setPath split: option.splits)

lemma undotted_FromCanonical: "undotted (FromCanonical m side c)"
  by (simp add: FromCanonical_def undotted_fold)

lemma walk_fold_from_canonical:
  assumes "\<And>g. g \<in> set fs \<Longrightarrow> g \<noteq> f \<Longrightarrow> diverge (parts (Path g side)) (parts (Path f side))"
  shows "walk (VMap (fold (from_canonical_field side c) fs out)) (parts (Path f side)) =
      (if f \<in> set fs \<and> outgoing side c f \<noteq> None then outgoing side c f
       else walk (VMap out) (parts (Path f side)))"
  using assms
proof (induction fs arbitrary: out)
  case (Cons g fs)
  let ?out = "from_canonical_field side c g out"
  have "walk (VMap ?out) (parts (Path f side)) =
    (if g = f \<and> outgoing side c f \<noteq> None then outgoing side c f
     else walk (VMap out) (parts (Path f side)))"
    using Cons.prems [of g]
    by (cases "g = f"; cases "outgoing side c g")
      (auto simp: from_canonical_field_outgoing setPath_parts walk_set_same walk_set_other)
  with Cons.IH [of ?out] Cons.prems show ?case by auto
qed simp

lemma getPath_FromCanonical:
  assumes "path_disjoint m side" and f: "f \<in> set (m_fields m)"
  shows "getPath (FromCanonical m side c) (Path f side) = outgoing side c f"
proof -
  have "walk (VMap (FromCanonical m side c)) (parts (Path f side)) =
      (if f \<in> set (m_fields m) \<and> outgoing side c f \<noteq> None then outgoing side c f
       else walk (VMap []) (parts (Path f side)))"
    unfolding FromCanonical_def
    using assms by (intro walk_fold_from_canonical) (auto simp: path_disjoint_def)
  moreover have "walk (VMap []) (parts (Path f side)) = None"
    by (cases "parts (Path f side)") auto
  ultimately show ?thesis using f by (simp add: getPath_walk undotted_FromCanonical)
qed

text \<open>Building a mapper: what holds of every mapper \<^const>\<open>New\<close> returns.\<close>

definition field_ok :: "string \<Rightarrow> mfield \<Rightarrow> bool" where
  "field_ok d f \<longleftrightarrow>
     f_canonical f \<noteq> '''' \<and> f_left f \<noteq> '''' \<and> f_right f \<noteq> '''' \<and> IsKnown (f_transform f) \<and>
     IsValidDirection (f_direction f) \<and> (\<forall>side. WritesTo (f_direction f) side \<longrightarrow> WritesTo d side)"

definition wf_mapper :: "mapper \<Rightarrow> bool" where
  "wf_mapper m \<longleftrightarrow>
     IsValidDirection (m_direction m) \<and>
     distinct (map f_canonical (m_fields m)) \<and>
     (\<forall>f \<in> set (m_fields m). field_ok (m_direction m) f) \<and>
     map_of (m_byName m) = map_of (map (\<lambda>f. (f_canonical f, f)) (m_fields m))"

lemma Narrow_sound:
  assumes "Narrow d f = Some e"
  shows "IsValidDirection d" "IsValidDirection e"
    "WritesTo e side \<longleftrightarrow> WritesTo d side \<and> (f = '''' \<or> WritesTo f side)"
proof -
  from assms have v: "IsValidDirection d" by (metis Narrow_invalid(1) option.distinct(1))
  have "IsValidDirection e \<and> (WritesTo e side \<longleftrightarrow> WritesTo d side \<and> (f = '''' \<or> WritesTo f side))"
  proof (cases "f = ''''")
    case True
    with assms v show ?thesis by (auto simp: Narrow_default)
  next
    case False
    with assms have w: "IsValidDirection f" by (metis Narrow_invalid(2) option.distinct(1))
    from v w assms empty_direction show ?thesis
      by (cases side) (auto simp: IsValidDirection_iff Directions_def Narrow_table)
  qed
  with v show "IsValidDirection d" "IsValidDirection e"
    "WritesTo e side \<longleftrightarrow> WritesTo d side \<and> (f = '''' \<or> WritesTo f side)" by blast+
qed

text \<open>The mapper's field for a configured one.\<close>

definition built :: "string \<Rightarrow> field_spec \<Rightarrow> mfield" where
  "built d f =
     \<lparr>f_canonical = fs_canonical f, f_left = fs_left f, f_right = fs_right f,
      f_transform = fs_transform f,
      f_direction = (case Narrow d (fs_direction f) of Some e \<Rightarrow> e | None \<Rightarrow> '''')\<rparr>"

definition spec_ok :: "string \<Rightarrow> field_spec \<Rightarrow> bool" where
  "spec_ok d f \<longleftrightarrow>
     fs_canonical f \<noteq> '''' \<and> fs_left f \<noteq> '''' \<and> fs_right f \<noteq> '''' \<and>
     IsKnown (fs_transform f) \<and> Narrow d (fs_direction f) \<noteq> None"

lemma built_ok: "spec_ok d f \<Longrightarrow> field_ok d (built d f)"
  by (auto simp: spec_ok_def field_ok_def built_def Narrow_sound)

lemma new_field_cases:
  assumes "spec_ok (m_direction m) f" and "map_of (m_byName m) (fs_canonical f) = None"
  shows "new_field i f (m, errs) =
    (m\<lparr>m_fields := m_fields m @ [built (m_direction m) f],
       m_byName := AList.update (fs_canonical f) (built (m_direction m) f) (m_byName m)\<rparr>, errs)"
  using assms by (auto simp: spec_ok_def new_field_def built_def Let_def)

lemma new_field_error:
  assumes "\<not> (spec_ok (m_direction m) f \<and> map_of (m_byName m) (fs_canonical f) = None)"
  shows "\<exists>e. new_field i f (m, errs) = (m, errs @ [e])"
  using assms by (auto simp: spec_ok_def new_field_def Let_def split: option.splits)

lemma new_fields_errs: "length errs \<le> length (snd (new_fields i fs (m, errs)))"
proof (induction fs arbitrary: i m errs)
  case (Cons f fs)
  obtain m' errs' where nf: "new_field i f (m, errs) = (m', errs')" by fastforce
  have "length errs \<le> length errs'"
    using new_field_cases [of m f i errs] new_field_error [of m f i errs] nf by fastforce
  also have "\<dots> \<le> length (snd (new_fields (Suc i) fs (m', errs')))" by (rule Cons.IH)
  finally show ?case by (simp add: nf)
qed simp

lemma new_fields_ok:
  assumes "wf_mapper m" and "new_fields i fs (m, []) = (m', [])"
  shows "wf_mapper m' \<and> m_fields m' = m_fields m @ map (built (m_direction m)) fs \<and>
    m_direction m' = m_direction m \<and> m_kind m' = m_kind m \<and>
    (\<forall>f \<in> set fs. spec_ok (m_direction m) f)"
  using assms
proof (induction fs arbitrary: i m)
  case (Cons f fs)
  have ok: "spec_ok (m_direction m) f \<and> map_of (m_byName m) (fs_canonical f) = None"
  proof (rule ccontr)
    assume "\<not> ?thesis"
    from new_field_error [OF this, of i "[]"] obtain e where "new_field i f (m, []) = (m, [e])"
      by auto
    with Cons.prems(2) new_fields_errs [of "[e]" "Suc i" fs m] show False by simp
  qed
  let ?b = "built (m_direction m) f"
  let ?m = "m\<lparr>m_fields := m_fields m @ [?b], m_byName := AList.update (fs_canonical f) ?b (m_byName m)\<rparr>"
  have can: "f_canonical ?b = fs_canonical f" by (simp add: built_def)
  have none: "map_of (map (\<lambda>f. (f_canonical f, f)) (m_fields m)) (fs_canonical f) = None"
    using ok Cons.prems(1) by (simp add: wf_mapper_def)
  then have fresh: "fs_canonical f \<notin> f_canonical ` set (m_fields m)"
    by (simp add: map_of_eq_None_iff image_image)
  have "map_of (m_byName ?m) = map_of (map (\<lambda>f. (f_canonical f, f)) (m_fields ?m))"
    using Cons.prems(1) map_of_snoc [OF none, of ?b] can by (simp add: wf_mapper_def)
  then have wf: "wf_mapper ?m"
    using Cons.prems(1) fresh can built_ok ok by (auto simp: wf_mapper_def)
  from Cons.prems(2) new_field_cases [of m f i "[]"] ok
  have "new_fields (Suc i) fs (?m, []) = (m', [])" by simp
  from Cons.IH [OF wf this] ok show ?case by simp
qed simp

lemma New_sound:
  assumes "New s = Inr m"
  shows "wf_mapper m" "m_fields m = map (built (sp_direction s)) (sp_fields s)"
    "m_direction m = sp_direction s" "m_kind m = sp_kind s" "m_fields m \<noteq> []"
    "\<forall>f \<in> set (sp_fields s). spec_ok (sp_direction s) f"
proof -
  let ?m0 = "\<lparr>m_kind = sp_kind s, m_direction = sp_direction s, m_fields = [], m_byName = []\<rparr>"
  obtain m' errs where nf: "new_fields 0 (sp_fields s) (?m0, []) = (m', errs)" by fastforce
  from assms have v: "IsValidDirection (sp_direction s)" by (auto simp: New_def split: if_splits)
  with assms nf have e: "errs = []" and m: "m' = m" and ne: "m_fields m \<noteq> []"
    by (auto simp: New_def Let_def split: if_splits)
  have "wf_mapper ?m0" using v by (simp add: wf_mapper_def)
  from new_fields_ok [OF this nf [unfolded e m]] ne
  show "wf_mapper m" "m_fields m = map (built (sp_direction s)) (sp_fields s)"
    "m_direction m = sp_direction s" "m_kind m = sp_kind s" "m_fields m \<noteq> []"
    "\<forall>f \<in> set (sp_fields s). spec_ok (sp_direction s) f" by simp_all
qed

text \<open>Reading: a built mapper never fails, and reads each field through its transform.\<close>

definition applied :: "string \<Rightarrow> val \<Rightarrow> val" where
  "applied t v = (case Apply t v of Inr w \<Rightarrow> w | Inl e \<Rightarrow> v)"

lemma Apply_known: "IsKnown t \<Longrightarrow> Apply t v = Inr (applied t v)"
  using Apply_known_iff [of t v] by (auto simp: applied_def)

definition incoming :: "side \<Rightarrow> crm_record \<Rightarrow> mfield \<Rightarrow> val option" where
  "incoming side rec f = map_option (applied (f_transform f)) (getPath (r_fields rec) (Path f side))"

lemma fold_to_canonical:
  assumes "\<forall>f \<in> set fs. IsKnown (f_transform f)" and "distinct (map f_canonical fs)"
  shows "\<exists>out'. fold (to_canonical_field side rec) fs (out, errs) = (out', errs) \<and>
    (wf_map out \<longrightarrow> wf_map out') \<and>
    (\<forall>n. map_of out' n =
      (case find (\<lambda>f. f_canonical f = n) fs of
         None \<Rightarrow> map_of out n
       | Some f \<Rightarrow> (case incoming side rec f of None \<Rightarrow> map_of out n | Some v \<Rightarrow> Some v)))"
  using assms
proof (induction fs arbitrary: out)
  case (Cons f fs)
  define out1 where "out1 =
    (case incoming side rec f of None \<Rightarrow> out | Some v \<Rightarrow> AList.update (f_canonical f) v out)"
  have step: "to_canonical_field side rec f (out, errs) = (out1, errs)"
    using Cons.prems(1)
    by (auto simp: to_canonical_field_def out1_def incoming_def Apply_known split: option.splits)
  have none: "find (\<lambda>g. f_canonical g = f_canonical f) fs = None"
    using Cons.prems(2) by (auto simp: find_None_iff image_iff)
  from Cons.IH [of out1] Cons.prems obtain out' where
    "fold (to_canonical_field side rec) fs (out1, errs) = (out', errs)"
    "wf_map out1 \<longrightarrow> wf_map out'"
    "\<And>n. map_of out' n =
      (case find (\<lambda>f. f_canonical f = n) fs of
         None \<Rightarrow> map_of out1 n
       | Some f \<Rightarrow> (case incoming side rec f of None \<Rightarrow> map_of out1 n | Some v \<Rightarrow> Some v))"
    by auto
  with step none show ?case
    by (intro exI [of _ out']) (auto simp: out1_def split: option.splits)
qed simp

lemma ToCanonical_known:
  assumes "wf_mapper m"
  shows "\<exists>out. ToCanonical m side rec = Inr out \<and> wf_map out \<and>
    (\<forall>n. map_of out n =
      (case find (\<lambda>f. f_canonical f = n) (m_fields m) of
         None \<Rightarrow> None | Some f \<Rightarrow> incoming side rec f))"
proof -
  from assms have k: "\<forall>f \<in> set (m_fields m). IsKnown (f_transform f)"
    and d: "distinct (map f_canonical (m_fields m))"
    by (auto simp: wf_mapper_def field_ok_def)
  from fold_to_canonical [OF k d, of side rec "[]" "[]"] obtain out where
    "fold (to_canonical_field side rec) (m_fields m) ([], []) = (out, [])" "wf_map out"
    "\<And>n. map_of out n =
      (case find (\<lambda>f. f_canonical f = n) (m_fields m) of
         None \<Rightarrow> map_of [] n
       | Some f \<Rightarrow> (case incoming side rec f of None \<Rightarrow> map_of [] n | Some v \<Rightarrow> Some v))"
    by auto
  then show ?thesis
    by (intro exI [of _ out]) (auto simp: ToCanonical_def split: option.splits)
qed

lemma find_field:
  "distinct (map f_canonical fs) \<Longrightarrow> f \<in> set fs \<Longrightarrow>
     find (\<lambda>g. f_canonical g = f_canonical f) fs = Some f"
  by (induction fs) (auto simp: image_iff)

section \<open>Properties\<close>

text \<open>
  A per-field direction narrows the sync's direction and never widens it: the combination
  writes into a side exactly when both do, and it is refused exactly when one of them is no
  direction or when nothing is left to write.
\<close>

theorem Narrow_intersects:
  "(\<forall>e. Narrow d f = Some e \<longrightarrow>
      (\<forall>side. WritesTo e side \<longleftrightarrow> WritesTo d side \<and> (f = '''' \<or> WritesTo f side))) \<and>
   (Narrow d f = None \<longleftrightarrow> \<not> IsValidDirection d \<or>
      f \<noteq> '''' \<and> (\<nexists>s. WritesTo d s \<and> WritesTo f s))"
proof (rule conjI)
  show "\<forall>e. Narrow d f = Some e \<longrightarrow>
      (\<forall>side. WritesTo e side \<longleftrightarrow> WritesTo d side \<and> (f = '''' \<or> WritesTo f side))"
    using Narrow_sound(3) by blast
  show "Narrow d f = None \<longleftrightarrow> \<not> IsValidDirection d \<or>
     f \<noteq> '''' \<and> (\<nexists>s. WritesTo d s \<and> WritesTo f s)"
  proof (cases "IsValidDirection d \<and> IsValidDirection f")
    case True
    have "\<exists>s. WritesTo LeftToRight s" "\<exists>s. WritesTo RightToLeft s"
      "\<nexists>s. WritesTo LeftToRight s \<and> WritesTo RightToLeft s"
      by (metis WritesTo_simps side.exhaust)+
    with True empty_direction show ?thesis
      by (auto simp: IsValidDirection_iff Directions_def Narrow_table)
  next
    case False
    then show ?thesis
      using Narrow_invalid Narrow_default [of d] WritesTo_invalid empty_direction
      by (cases "f = ''''") auto
  qed
qed

theorem Narrow_intersects_witness:
  "Narrow ''bidirectional'' ''left_to_right'' = Some ''left_to_right'' \<and>
   \<not> WritesTo ''left_to_right'' Left \<and>
   Narrow ''right_to_left'' ''left_to_right'' = None"
proof -
  have n: "Narrow ''bidirectional'' ''left_to_right'' = Some ''left_to_right''"
    "\<not> WritesTo ''left_to_right'' Left" "WritesTo ''bidirectional'' Left"
    by (simp_all add: Narrow_def WritesTo_def direction_defs)
  have "\<nexists>s. WritesTo ''right_to_left'' s \<and> WritesTo ''left_to_right'' s"
    using WritesTo_simps by (metis direction_defs(1,2) side.exhaust)
  moreover have "''left_to_right'' \<noteq> ''''" by simp
  ultimately have "Narrow ''right_to_left'' ''left_to_right'' = None"
    using conjunct2 [OF Narrow_intersects [of "''right_to_left''" "''left_to_right''"]] by blast
  with n show ?thesis by blast
qed

text \<open>
  A mapper is built only when every configured field can be used, and then it holds exactly
  the configured fields in order: canonical names are distinct and not empty, both paths are
  named, every transform is known, and a field never writes into a side the sync does not.
\<close>

theorem New_keeps_every_field:
  assumes "New s = Inr m"
  shows "wf_mapper m \<and> m_fields m \<noteq> [] \<and>
    map f_canonical (m_fields m) = map fs_canonical (sp_fields s) \<and>
    map (\<lambda>f. (f_left f, f_right f, f_transform f)) (m_fields m) =
      map (\<lambda>f. (fs_left f, fs_right f, fs_transform f)) (sp_fields s)"
  using New_sound(1,2,5) [OF assms] by (simp add: built_def comp_def)

definition example_spec :: mapping_spec where
  "example_spec =
     \<lparr>sp_kind = ''contact'', sp_direction = ''bidirectional'',
      sp_fields =
        [\<lparr>fs_canonical = ''email'', fs_left = ''email'', fs_right = ''emails.primary'',
          fs_transform = ''email_normalize'', fs_direction = ''''\<rparr>,
         \<lparr>fs_canonical = ''first'', fs_left = ''firstname'', fs_right = ''name.first'',
          fs_transform = ''trim'', fs_direction = ''''\<rparr>,
         \<lparr>fs_canonical = ''created'', fs_left = ''createdate'', fs_right = ''created'',
          fs_transform = '''', fs_direction = ''left_to_right''\<rparr>]\<rparr>"

definition example_mapper :: mapper where
  "example_mapper = (case New example_spec of Inr m \<Rightarrow> m | Inl e \<Rightarrow> undefined)"

lemma example_mapper_built: "New example_spec = Inr example_mapper"
proof -
  have "case New example_spec of Inr m \<Rightarrow> True | Inl e \<Rightarrow> False" by code_simp
  then show ?thesis by (simp add: example_mapper_def split: sum.splits)
qed

theorem New_keeps_every_field_witness:
  "map f_canonical (m_fields example_mapper) = [''email'', ''first'', ''created''] \<and>
   wf_mapper example_mapper"
  using New_keeps_every_field [OF example_mapper_built] by (simp add: example_spec_def)

text \<open>
  Reading a record through a built mapper never fails, and a canonical field is present
  exactly when the peer returned the path it is mapped to; its value is the transformed one.
  Nothing that is not mapped appears.
\<close>

theorem ToCanonical_reads:
  assumes "New s = Inr m"
  shows "\<exists>out. ToCanonical m side rec = Inr out \<and> wf_map out \<and>
    (\<forall>f \<in> set (m_fields m).
       map_of out (f_canonical f) =
         map_option (applied (f_transform f)) (getPath (r_fields rec) (Path f side))) \<and>
    (\<forall>n. n \<notin> f_canonical ` set (m_fields m) \<longrightarrow> map_of out n = None)"
proof -
  from New_sound(1) [OF assms] have wf: "wf_mapper m" .
  then have d: "distinct (map f_canonical (m_fields m))" by (simp add: wf_mapper_def)
  from ToCanonical_known [OF wf, of side rec] obtain out where
    out: "ToCanonical m side rec = Inr out" "wf_map out" and
    at: "\<And>n. map_of out n = (case find (\<lambda>f. f_canonical f = n) (m_fields m) of
                                None \<Rightarrow> None | Some f \<Rightarrow> incoming side rec f)" by blast
  have "map_of out n = None" if "n \<notin> f_canonical ` set (m_fields m)" for n
  proof -
    from that have "find (\<lambda>f. f_canonical f = n) (m_fields m) = None"
      by (auto simp: find_None_iff image_iff)
    then show ?thesis by (simp add: at)
  qed
  with out show ?thesis by (intro exI [of _ out]) (simp add: at find_field [OF d] incoming_def)
qed

theorem ToCanonical_reads_witness:
  "\<exists>out. ToCanonical example_mapper Right
      \<lparr>r_kind = ''contact'', r_remote_id = ''1'', r_fields = [(''emails'', VMap [(''primary'', VStr ''A@B.c'')])],
       r_updated_at = 0, r_version = ''''\<rparr> = Inr out \<and> map_of out ''phone'' = None"
proof -
  have names: "f_canonical ` set (m_fields example_mapper) = {''email'', ''first'', ''created''}"
    using New_sound(2) [OF example_mapper_built] by (simp add: example_spec_def built_def)
  have "''phone'' \<notin> f_canonical ` set (m_fields example_mapper)" unfolding names by simp
  with ToCanonical_reads [OF example_mapper_built, of Right] show ?thesis by blast
qed

text \<open>
  C26: What is written into a peer is what is read back from it: when no mapped path of a side
  runs into another, the record rendered for that side carries each supplied field that may be
  written there at its path and nothing at any other mapped path.
\<close>

theorem FromCanonical_roundtrip:
  assumes "New s = Inr m" and "path_disjoint m side" and "f \<in> set (m_fields m)"
  shows "getPath (FromCanonical m side c) (Path f side) =
    (if WritesTo (f_direction f) side then map_of c (f_canonical f) else None)"
  using getPath_FromCanonical [OF assms(2,3), of c] by (simp add: outgoing_def)

theorem FromCanonical_roundtrip_witness:
  "getPath (FromCanonical example_mapper Right [(''first'', VStr ''Bo''), (''email'', VStr ''b@c'')])
     ''name.first'' = Some (VStr ''Bo'') \<and>
   getPath (FromCanonical example_mapper Left [(''created'', VStr ''x'')]) ''createdate'' = None"
proof -
  have d: "path_disjoint example_mapper Right" "path_disjoint example_mapper Left" by code_simp+
  let ?f = "\<lparr>f_canonical = ''first'', f_left = ''firstname'', f_right = ''name.first'',
             f_transform = ''trim'', f_direction = ''bidirectional''\<rparr>"
  let ?g = "\<lparr>f_canonical = ''created'', f_left = ''createdate'', f_right = ''created'',
             f_transform = '''', f_direction = ''left_to_right''\<rparr>"
  have m: "?f \<in> set (m_fields example_mapper)" "?g \<in> set (m_fields example_mapper)"
    by code_simp+
  have w: "WritesTo ''bidirectional'' Right" "\<not> WritesTo ''left_to_right'' Left"
    by (simp_all add: WritesTo_def direction_defs)
  show ?thesis
    using FromCanonical_roundtrip [OF example_mapper_built d(1) m(1)]
      FromCanonical_roundtrip [OF example_mapper_built d(2) m(2)] w
    by (simp add: Path_def)
qed

text \<open>
  Validation accepts a mapping exactly when, on both sides, the schema is for the mapped kind
  (or names none), every mapped path exists in it, and no path that would be written is
  read-only.
\<close>

theorem Validate_accepts_iff:
  "Validate m left right = None \<longleftrightarrow>
     (\<forall>side. let sch = (if side = Left then left else right)
        in (sc_kind sch = '''' \<or> sc_kind sch = m_kind m) \<and>
           (\<forall>f \<in> set (m_fields m). \<exists>spec. schema_field sch (Path f side) = Some spec \<and>
              (sf_read_only spec \<longrightarrow> \<not> WritesTo (f_direction f) side)))"
proof -
  have field: "validate_field side sch f = [] \<longleftrightarrow>
      (\<exists>spec. schema_field sch (Path f side) = Some spec \<and>
         (sf_read_only spec \<longrightarrow> \<not> WritesTo (f_direction f) side))" for side sch f
    by (auto simp: validate_field_def Let_def split: option.splits)
  have side: "validate_side m side sch = [] \<longleftrightarrow>
      (sc_kind sch = '''' \<or> sc_kind sch = m_kind m) \<and>
      (\<forall>f \<in> set (m_fields m). \<exists>spec. schema_field sch (Path f side) = Some spec \<and>
         (sf_read_only spec \<longrightarrow> \<not> WritesTo (f_direction f) side))" for side sch
    by (auto simp: validate_side_def field)
  have all: "(\<forall>side. P side) \<longleftrightarrow> P Left \<and> P Right" for P by (metis side.exhaust)
  have "sort_key err_text xs = [] \<longleftrightarrow> xs = []" for xs
    by (metis length_0_conv length_sort)
  then have "Validate m left right = None \<longleftrightarrow>
      validate_side m Left left = [] \<and> validate_side m Right right = []"
    by (simp add: Validate_def join_errors_def)
  then show ?thesis unfolding all side by (simp add: Let_def)
qed

theorem Validate_accepts_iff_witness:
  "Validate (example_mapper\<lparr>m_fields := []\<rparr>) \<lparr>sc_kind = ''contact'', sc_fields = []\<rparr>
     \<lparr>sc_kind = '''', sc_fields = []\<rparr> = None"
proof -
  have "m_kind example_mapper = ''contact''"
    using New_sound(4) [OF example_mapper_built] by (simp add: example_spec_def)
  then show ?thesis unfolding Validate_accepts_iff by simp
qed

end
