(* ===== verification/Conflict.thy ===== *)
theory Conflict
  imports Field_Map
begin

text \<open>
  \<^verbatim>\<open>internal/conflict/conflict.go\<close>: what happens when both peers changed a record since
  they last agreed. The digest function \<open>H\<close> is the parameter of \<^const>\<open>SnapshotHash\<close>.
  A Go map that is nil and one that is empty are both the empty association list; a value read
  from a map that does not hold it is \<^const>\<open>VNil\<close>, as the zero value of \<^verbatim>\<open>any\<close> is.
\<close>

named_theorems policy_defs \<open>the policy identifiers\<close>

section \<open>Vocabulary\<close>

definition LeftWins :: string where [policy_defs]: "LeftWins = ''left_wins''"
definition RightWins :: string where [policy_defs]: "RightWins = ''right_wins''"
definition NewestWins :: string where [policy_defs]: "NewestWins = ''newest_wins''"
definition FieldLevel :: string where [policy_defs]: "FieldLevel = ''field_level''"
definition ReviewPolicy :: string where [policy_defs]: "ReviewPolicy = ''review''"

definition Policies :: "string list" where
  "Policies = [LeftWins, RightWins, NewestWins, FieldLevel, ReviewPolicy]"

definition IsValidPolicy :: "string \<Rightarrow> bool" where
  "IsValidPolicy p \<longleftrightarrow> list_ex (\<lambda>known. known = p) Policies"

datatype situation = Unchanged | LeftChanged | RightChanged | BothChanged

definition situation_string :: "situation \<Rightarrow> string" where
  "situation_string s =
     (case s of LeftChanged \<Rightarrow> ''left_changed'' | RightChanged \<Rightarrow> ''right_changed''
      | BothChanged \<Rightarrow> ''both_changed'' | Unchanged \<Rightarrow> ''unchanged'')"

datatype action = Nothing | WriteLeft | WriteRight | WriteBoth | Escalate

definition action_string :: "action \<Rightarrow> string" where
  "action_string a =
     (case a of WriteLeft \<Rightarrow> ''write_left'' | WriteRight \<Rightarrow> ''write_right''
      | WriteBoth \<Rightarrow> ''write_both'' | Escalate \<Rightarrow> ''escalate'' | Nothing \<Rightarrow> ''nothing'')"

record field_diff =
  d_field :: string
  d_left :: val
  d_right :: val
  d_left_changed :: bool
  d_right_changed :: bool
  d_winner :: action

record cstate =
  cs_fields :: fields
  cs_hash :: string
  cs_base :: fields
  cs_synced_hash :: string
  cs_updated_at :: gotime
  cs_present :: bool

record resolution =
  res_situation :: situation
  res_action :: action
  res_policy :: string
  res_values :: fields
  res_left_values :: fields
  res_right_values :: fields
  res_diffs :: "field_diff list"
  res_reason :: string

record resolver =
  rv_default :: string
  rv_per_field :: "(string, string) gomap"
  rv_skew :: duration

section \<open>Comparing states\<close>

text \<open>\<^verbatim>\<open>m[k]\<close> of a map of \<^verbatim>\<open>any\<close>: null when the key is missing.\<close>

definition value_at :: "fields \<Rightarrow> string \<Rightarrow> val" where
  "value_at fs n = (case map_of fs n of Some v \<Rightarrow> v | None \<Rightarrow> VNil)"

definition equal_val :: "(string \<Rightarrow> string) \<Rightarrow> val \<Rightarrow> val \<Rightarrow> bool" where
  "equal_val H a b \<longleftrightarrow> SnapshotHash H [(''v'', a)] [''v''] = SnapshotHash H [(''v'', b)] [''v'']"

definition Changed :: "cstate \<Rightarrow> bool" where
  "Changed s \<longleftrightarrow> cs_hash s \<noteq> cs_synced_hash s"

definition HasBase :: "cstate \<Rightarrow> bool" where
  "HasBase s \<longleftrightarrow> cs_synced_hash s \<noteq> ''''"

definition fieldChanged :: "(string \<Rightarrow> string) \<Rightarrow> cstate \<Rightarrow> string \<Rightarrow> bool" where
  "fieldChanged H s name =
     (if (map_of (cs_fields s) name \<noteq> None) \<noteq> (map_of (cs_base s) name \<noteq> None) then True
      else \<not> equal_val H (value_at (cs_fields s) name) (value_at (cs_base s) name))"

definition classify :: "cstate \<Rightarrow> cstate \<Rightarrow> situation" where
  "classify left right =
     (if Changed left \<and> Changed right then BothChanged
      else if Changed left then LeftChanged
      else if Changed right then RightChanged
      else Unchanged)"

definition agree_on :: "(string \<Rightarrow> string) \<Rightarrow> fields \<Rightarrow> fields \<Rightarrow> string \<Rightarrow> bool" where
  "agree_on H l r name \<longleftrightarrow>
     (map_of l name \<noteq> None) = (map_of r name \<noteq> None) \<and>
     equal_val H (value_at l name) (value_at r name)"

definition diff_of :: "(string \<Rightarrow> string) \<Rightarrow> cstate \<Rightarrow> cstate \<Rightarrow> string \<Rightarrow> field_diff" where
  "diff_of H left right name =
     \<lparr>d_field = name, d_left = value_at (cs_fields left) name,
      d_right = value_at (cs_fields right) name,
      d_left_changed = fieldChanged H left name, d_right_changed = fieldChanged H right name,
      d_winner = Nothing\<rparr>"

definition diff :: "(string \<Rightarrow> string) \<Rightarrow> cstate \<Rightarrow> cstate \<Rightarrow> string list \<Rightarrow> field_diff list" where
  "diff H left right names =
     map (diff_of H left right)
       (filter (\<lambda>n. \<not> agree_on H (cs_fields left) (cs_fields right) n) (sort_strings names))"

fun pick :: "fields \<Rightarrow> string list \<Rightarrow> fields" where
  "pick fs [] = []"
| "pick fs (n # ns) =
     (case map_of fs n of
        Some v \<Rightarrow> AList.update n v (pick fs ns)
      | None \<Rightarrow> pick fs ns)"

definition joinFields :: "string list \<Rightarrow> string" where
  "joinFields names = join_strings '', '' (sort_strings names)"

section \<open>The resolver\<close>

definition DefaultSkew :: duration where
  "DefaultSkew = 2 * second"

definition conflict_New ::
  "string \<Rightarrow> (string, string) gomap \<Rightarrow> duration \<Rightarrow> gerr + resolver" where
  "conflict_New defaultPolicy perField skew =
     (let d = (if defaultPolicy = '''' then ReviewPolicy else defaultPolicy)
      in if \<not> IsValidPolicy d then Inl (ErrText (''conflict: unknown policy '' @ quoted d))
         else case find (\<lambda>(field, policy). \<not> IsValidPolicy policy) perField of
                Some (field, policy) \<Rightarrow>
                  Inl (ErrText (''conflict: unknown policy '' @ quoted policy @ '' for field ''
                    @ quoted field))
              | None \<Rightarrow>
                  Inr \<lparr>rv_default = d, rv_per_field = perField,
                       rv_skew = (if skew \<le> 0 then DefaultSkew else skew)\<rparr>)"

definition PolicyFor :: "resolver \<Rightarrow> string \<Rightarrow> string" where
  "PolicyFor r field = (case map_of (rv_per_field r) field of Some p \<Rightarrow> p | None \<Rightarrow> rv_default r)"

definition time_gap :: "cstate \<Rightarrow> cstate \<Rightarrow> duration" where
  "time_gap left right = dur_abs (time_sub (cs_updated_at left) (cs_updated_at right))"

definition newest ::
  "resolver \<Rightarrow> cstate \<Rightarrow> cstate \<Rightarrow> string list \<Rightarrow> resolution \<Rightarrow> resolution" where
  "newest r left right names res =
     (let gap = time_gap left right
      in if gap \<le> rv_skew r then
           res\<lparr>res_action := Escalate,
               res_reason := ''both sides changed '' @ dur_string gap @ '' apart, inside the ''
                 @ dur_string (rv_skew r)
                 @ '' clock tolerance, so which is newer is not knowable''\<rparr>
         else if cs_updated_at left > cs_updated_at right then
           res\<lparr>res_action := WriteRight, res_values := pick (cs_fields left) names,
               res_reason := ''the left side changed '' @ dur_string gap @ '' later''\<rparr>
         else
           res\<lparr>res_action := WriteLeft, res_values := pick (cs_fields right) names,
               res_reason := ''the right side changed '' @ dur_string gap @ '' later''\<rparr>)"

definition clockWinner :: "resolver \<Rightarrow> cstate \<Rightarrow> cstate \<Rightarrow> action option" where
  "clockWinner r left right =
     (if time_gap left right \<le> rv_skew r then None
      else if cs_updated_at left > cs_updated_at right then Some WriteRight
      else Some WriteLeft)"

text \<open>
  What a policy says about one disagreed field: which side is written, nothing, or that nobody
  can say (\<^const>\<open>Escalate\<close>).
\<close>

definition field_verdict :: "resolver \<Rightarrow> cstate \<Rightarrow> cstate \<Rightarrow> field_diff \<Rightarrow> action" where
  "field_verdict r left right d =
     (let p = PolicyFor r (d_field d)
      in if p = LeftWins then WriteRight
         else if p = RightWins then WriteLeft
         else if p = NewestWins then
           (case clockWinner r left right of None \<Rightarrow> Escalate | Some w \<Rightarrow> w)
         else if p = FieldLevel then
           (if \<not> HasBase left \<or> \<not> HasBase right \<or> d_left_changed d \<and> d_right_changed d then Escalate
            else if d_left_changed d then WriteRight
            else if d_right_changed d then WriteLeft
            else Nothing)
         else Escalate)"

definition merge_verdict :: "field_diff \<Rightarrow> action" where
  "merge_verdict d =
     (if d_left_changed d \<and> d_right_changed d then Escalate
      else if d_left_changed d then WriteRight
      else if d_right_changed d then WriteLeft
      else Nothing)"

text \<open>
  The loop both resolvers share: the values for each side, the differences with their winners,
  and the names of the fields nobody won.
\<close>

fun collect ::
  "(field_diff \<Rightarrow> action) \<Rightarrow> field_diff list \<Rightarrow> fields \<times> fields \<Rightarrow>
     (fields \<times> fields) \<times> field_diff list \<times> string list" where
  "collect verdict [] lr = (lr, [], [])"
| "collect verdict (d # ds) (lv, rv) =
     (let w = verdict d;
          lr = (if w = WriteLeft then (AList.update (d_field d) (d_right d) lv, rv)
                else if w = WriteRight then (lv, AList.update (d_field d) (d_left d) rv)
                else (lv, rv));
          d' = (if w = WriteLeft \<or> w = WriteRight then d\<lparr>d_winner := w\<rparr> else d);
          (lr', ds', blocked) = collect verdict ds lr
      in (lr', d' # ds', if w = Escalate then d_field d # blocked else blocked))"

text \<open>The final switch both resolvers share, with their own reasons.\<close>

definition settle ::
  "string \<times> string \<times> string \<Rightarrow> fields \<Rightarrow> fields \<Rightarrow> resolution \<Rightarrow> resolution" where
  "settle reasons lv rv res =
     (case reasons of (both, to_right, to_left) \<Rightarrow>
        if lv \<noteq> [] \<and> rv \<noteq> [] then
          res\<lparr>res_action := WriteBoth, res_left_values := lv, res_right_values := rv,
              res_reason := both\<rparr>
        else if rv \<noteq> [] then
          res\<lparr>res_action := WriteRight, res_values := rv, res_left_values := [],
              res_right_values := [], res_reason := to_right\<rparr>
        else if lv \<noteq> [] then
          res\<lparr>res_action := WriteLeft, res_values := lv, res_left_values := [],
              res_right_values := [], res_reason := to_left\<rparr>
        else
          res\<lparr>res_action := Nothing, res_left_values := [], res_right_values := [],
              res_reason := ''the digests differ but no mapped field does''\<rparr>)"

definition resolvePerField :: "resolver \<Rightarrow> cstate \<Rightarrow> cstate \<Rightarrow> resolution \<Rightarrow> resolution" where
  "resolvePerField r left right res =
     (let ((lv, rv), ds, blocked) = collect (field_verdict r left right) (res_diffs res) ([], []);
          res' = res\<lparr>res_policy := rv_default r, res_diffs := ds\<rparr>
      in if blocked \<noteq> [] then
           res'\<lparr>res_action := Escalate, res_left_values := [], res_right_values := [],
                res_reason := ''both sides changed and '' @ joinFields blocked
                  @ '' has no automatic winner''\<rparr>
         else settle
           (''both sides changed and per-field policies name both winners'',
            ''both sides changed; per-field policy keeps the left values'',
            ''both sides changed; per-field policy keeps the right values'') lv rv res')"

definition merge_fields :: "resolver \<Rightarrow> cstate \<Rightarrow> cstate \<Rightarrow> resolution \<Rightarrow> resolution" where
  "merge_fields r left right res0 =
     (let res = res0\<lparr>res_policy := FieldLevel\<rparr>
      in if \<not> HasBase left \<or> \<not> HasBase right then
           res\<lparr>res_action := Escalate,
               res_reason := ''both sides changed and there is no recorded base to merge against''\<rparr>
         else
           let ((lv, rv), ds, contested) = collect merge_verdict (res_diffs res) ([], []);
               res' = res\<lparr>res_diffs := ds\<rparr>
           in if contested \<noteq> [] then
                res'\<lparr>res_action := Escalate, res_left_values := [], res_right_values := [],
                     res_reason := ''both sides edited '' @ joinFields contested\<rparr>
              else settle
                (''both sides changed, in fields that do not overlap'',
                 ''both sides changed, but only left-side edits need applying'',
                 ''both sides changed, but only right-side edits need applying'') lv rv res')"

definition resolveConflict ::
  "resolver \<Rightarrow> cstate \<Rightarrow> cstate \<Rightarrow> string list \<Rightarrow> resolution \<Rightarrow> resolution" where
  "resolveConflict r left right names res =
     (if rv_per_field r \<noteq> [] then resolvePerField r left right res
      else if rv_default r = FieldLevel then merge_fields r left right res
      else
        let res' = res\<lparr>res_policy := rv_default r\<rparr>
        in if rv_default r = LeftWins then
             res'\<lparr>res_action := WriteRight, res_values := pick (cs_fields left) names,
                  res_reason := ''both sides changed; the left side is the source of truth''\<rparr>
           else if rv_default r = RightWins then
             res'\<lparr>res_action := WriteLeft, res_values := pick (cs_fields right) names,
                  res_reason := ''both sides changed; the right side is the source of truth''\<rparr>
           else if rv_default r = NewestWins then newest r left right names res'
           else
             res'\<lparr>res_action := Escalate,
                  res_reason := ''both sides changed and the policy is to ask''\<rparr>)"

definition Resolve ::
  "(string \<Rightarrow> string) \<Rightarrow> resolver \<Rightarrow> cstate \<Rightarrow> cstate \<Rightarrow> string list \<Rightarrow> resolution" where
  "Resolve H r left right names =
     (let sit = classify left right;
          res = \<lparr>res_situation = sit, res_action = Nothing, res_policy = rv_default r,
                 res_values = [], res_left_values = [], res_right_values = [],
                 res_diffs = diff H left right names, res_reason = ''''\<rparr>
      in if res_diffs res = [] then
           res\<lparr>res_action := Nothing,
               res_reason := ''the two sides already agree on every mapped field''\<rparr>
         else case sit of
           Unchanged \<Rightarrow>
             res\<lparr>res_action := Nothing,
                 res_reason := ''neither side changed since the last sync''\<rparr>
         | LeftChanged \<Rightarrow>
             res\<lparr>res_action := WriteRight, res_values := pick (cs_fields left) names,
                 res_reason := ''only the left side changed''\<rparr>
         | RightChanged \<Rightarrow>
             res\<lparr>res_action := WriteLeft, res_values := pick (cs_fields right) names,
                 res_reason := ''only the right side changed''\<rparr>
         | BothChanged \<Rightarrow> resolveConflict r left right names res)"

section \<open>What a resolution sends to each side\<close>

text \<open>The values an action carries to one side, as the engine reads a resolution.\<close>

definition sent :: "side \<Rightarrow> resolution \<Rightarrow> fields" where
  "sent side res =
     (case res_action res of
        WriteLeft \<Rightarrow> if side = Left then res_values res else []
      | WriteRight \<Rightarrow> if side = Right then res_values res else []
      | WriteBoth \<Rightarrow> if side = Left then res_left_values res else res_right_values res
      | _ \<Rightarrow> [])"

lemma sent_simps [simp]:
  "res_action res = Nothing \<Longrightarrow> sent side res = []"
  "res_action res = Escalate \<Longrightarrow> sent side res = []"
  "res_action res = WriteLeft \<Longrightarrow> sent Left res = res_values res"
  "res_action res = WriteLeft \<Longrightarrow> sent Right res = []"
  "res_action res = WriteRight \<Longrightarrow> sent Right res = res_values res"
  "res_action res = WriteRight \<Longrightarrow> sent Left res = []"
  "res_action res = WriteBoth \<Longrightarrow> sent Left res = res_left_values res"
  "res_action res = WriteBoth \<Longrightarrow> sent Right res = res_right_values res"
  by (simp_all add: sent_def)

lemma map_of_pick: "map_of (pick fs ns) n = (if n \<in> set ns then map_of fs n else None)"
  by (induction ns) (auto split: option.splits)

lemma wf_map_pick [simp]: "wf_map (pick fs ns)"
  by (induction ns) (auto split: option.splits)

lemma equal_val_refl [simp]: "equal_val H v v"
  by (simp add: equal_val_def)

lemma agree_on_refl: "map_of l n = map_of r n \<Longrightarrow> agree_on H l r n"
  by (simp add: agree_on_def value_at_def)

text \<open>A field the two sides disagree about.\<close>

definition disagree :: "(string \<Rightarrow> string) \<Rightarrow> cstate \<Rightarrow> cstate \<Rightarrow> string list \<Rightarrow> string \<Rightarrow> bool" where
  "disagree H left right names n \<longleftrightarrow>
     n \<in> set names \<and> \<not> agree_on H (cs_fields left) (cs_fields right) n"

lemma d_field_diff_of [simp]: "d_field (diff_of H left right n) = n"
  by (simp add: diff_of_def)

lemma diff_fields: "d_field ` set (diff H left right names) = {n. disagree H left right names n}"
  by (auto simp: diff_def disagree_def image_image)

lemma diff_member:
  "d \<in> set (diff H left right names) \<longleftrightarrow>
     (\<exists>n. disagree H left right names n \<and> d = diff_of H left right n)"
  by (auto simp: diff_def disagree_def)

lemma ex_diff:
  "(\<exists>d \<in> set (diff H left right names). P d) \<longleftrightarrow>
     (\<exists>n. disagree H left right names n \<and> P (diff_of H left right n))"
  by (auto simp: diff_member) (auto simp: diff_def disagree_def)

lemma diff_empty: "diff H left right names = [] \<longleftrightarrow> (\<forall>n. \<not> disagree H left right names n)"
  by (auto simp: diff_def disagree_def filter_empty_conv)

section \<open>The shared loop\<close>

definition winners :: "(field_diff \<Rightarrow> action) \<Rightarrow> action \<Rightarrow> field_diff list \<Rightarrow> (string \<times> val) list" where
  "winners verdict w ds =
     map (\<lambda>d. (d_field d, if w = WriteLeft then d_right d else d_left d))
       (filter (\<lambda>d. verdict d = w) ds)"

lemma collect_values:
  "fst (collect verdict ds (lv, rv)) =
     (assign_all lv (winners verdict WriteLeft ds), assign_all rv (winners verdict WriteRight ds))"
  by (induction ds arbitrary: lv rv) (simp_all add: winners_def Let_def case_prod_beta)

lemma collect_blocked:
  "snd (snd (collect verdict ds lr)) = map d_field (filter (\<lambda>d. verdict d = Escalate) ds)"
proof (induction ds arbitrary: lr)
  case (Cons d ds)
  then show ?case by (cases lr) (simp add: Let_def case_prod_beta)
qed simp

lemma assign_all_empty_iff: "assign_all m kvs = [] \<longleftrightarrow> m = [] \<and> kvs = []"
  by (induction m kvs rule: assign_all.induct) auto

text \<open>
  The disagreed fields a verdict gives to a side, as a map: the other side's value, for exactly
  the fields whose verdict is that side.
\<close>

lemma map_of_winners:
  assumes "w = WriteLeft \<or> w = WriteRight"
  shows "map_of (assign_all [] (winners verdict w (diff H left right names))) n =
    (if disagree H left right names n \<and> verdict (diff_of H left right n) = w
     then Some (value_at (cs_fields (if w = WriteLeft then right else left)) n) else None)"
proof -
  let ?ds = "diff H left right names"
  let ?ws = "winners verdict w ?ds"
  have mem: "(n, v) \<in> set ?ws \<longleftrightarrow> disagree H left right names n \<and>
      verdict (diff_of H left right n) = w \<and>
      v = value_at (cs_fields (if w = WriteLeft then right else left)) n" for v
    by (auto simp: winners_def diff_member image_iff) (auto simp: diff_of_def)
  have "map_of (assign_all [] ?ws) n = map_of (rev ?ws) n"
    by (simp add: map_of_assign_all)
  also have "\<dots> = (if disagree H left right names n \<and> verdict (diff_of H left right n) = w
     then Some (value_at (cs_fields (if w = WriteLeft then right else left)) n) else None)"
  proof (cases "map_of (rev ?ws) n")
    case None
    then have "\<forall>v. (n, v) \<notin> set ?ws" by (force simp: map_of_eq_None_iff)
    with mem None show ?thesis by auto
  next
    case (Some v)
    then have "(n, v) \<in> set ?ws" by (auto dest: map_of_SomeD)
    with mem Some show ?thesis by simp
  qed
  finally show ?thesis .
qed

lemma settle_sent:
  assumes "res_values res = []"
  shows "sent Left (settle rs lv rv res) = lv" "sent Right (settle rs lv rv res) = rv"
  by (cases rs; auto simp: settle_def sent_def)+

lemma settle_action: "res_action (settle rs lv rv res) \<noteq> Escalate"
  by (cases rs) (simp add: settle_def)

lemma settle_situation [simp]: "res_situation (settle rs lv rv res) = res_situation res"
  by (cases rs) (simp add: settle_def)

lemmas collect_parts = collect_values [of _ _ "[]" "[]"] collect_blocked [of _ _ "([], [])"]

lemma resolvePerField_decides:
  assumes "res_values res = []"
  shows "res_action (resolvePerField r left right res) = Escalate \<longleftrightarrow>
      (\<exists>d \<in> set (res_diffs res). field_verdict r left right d = Escalate)"
    and "res_action (resolvePerField r left right res) \<noteq> Escalate \<Longrightarrow>
      sent Left (resolvePerField r left right res) =
        assign_all [] (winners (field_verdict r left right) WriteLeft (res_diffs res)) \<and>
      sent Right (resolvePerField r left right res) =
        assign_all [] (winners (field_verdict r left right) WriteRight (res_diffs res))"
  unfolding resolvePerField_def Let_def case_prod_beta
  using assms collect_parts [of "field_verdict r left right" "res_diffs res"]
  by (auto simp: settle_sent settle_action filter_empty_conv split: if_splits)

lemma merge_fields_decides:
  assumes "res_values res = []"
  shows "res_action (merge_fields r left right res) = Escalate \<longleftrightarrow>
      \<not> HasBase left \<or> \<not> HasBase right \<or> (\<exists>d \<in> set (res_diffs res). merge_verdict d = Escalate)"
    and "res_action (merge_fields r left right res) \<noteq> Escalate \<Longrightarrow>
      sent Left (merge_fields r left right res) =
        assign_all [] (winners merge_verdict WriteLeft (res_diffs res)) \<and>
      sent Right (merge_fields r left right res) =
        assign_all [] (winners merge_verdict WriteRight (res_diffs res))"
  unfolding merge_fields_def Let_def case_prod_beta
  using assms collect_parts [of merge_verdict "res_diffs res"]
  by (auto simp: settle_sent settle_action filter_empty_conv split: if_splits)

text \<open>The resolution both resolvers start from.\<close>

definition undecided ::
  "(string \<Rightarrow> string) \<Rightarrow> resolver \<Rightarrow> cstate \<Rightarrow> cstate \<Rightarrow> string list \<Rightarrow> resolution" where
  "undecided H r left right names =
     \<lparr>res_situation = classify left right, res_action = Nothing, res_policy = rv_default r,
      res_values = [], res_left_values = [], res_right_values = [],
      res_diffs = diff H left right names, res_reason = ''''\<rparr>"

lemma undecided_simps [simp]:
  "res_values (undecided H r left right names) = []"
  "res_diffs (undecided H r left right names) = diff H left right names"
  "res_action (undecided H r left right names) = Nothing"
  by (simp_all add: undecided_def)

lemma Resolve_conflict:
  assumes "Changed left" and "Changed right" and "disagree H left right names n"
  shows "Resolve H r left right names =
    resolveConflict r left right names (undecided H r left right names)"
proof -
  have "diff H left right names \<noteq> []" using assms(3) diff_empty by blast
  with assms show ?thesis by (simp add: Resolve_def undecided_def classify_def)
qed

lemma Resolve_no_diff: "diff H left right names = [] \<Longrightarrow> res_action (Resolve H r left right names) = Nothing"
  by (simp add: Resolve_def)

lemma Resolve_merge:
  assumes "Changed left" "Changed right" "disagree H left right names n"
    and "rv_per_field r = []" "rv_default r = FieldLevel"
  shows "Resolve H r left right names = merge_fields r left right (undecided H r left right names)"
  using Resolve_conflict [OF assms(1-3), of r] assms(4,5) by (simp add: resolveConflict_def)

lemma Resolve_per_field:
  assumes "Changed left" "Changed right" "disagree H left right names n" "rv_per_field r \<noteq> []"
  shows "Resolve H r left right names = resolvePerField r left right (undecided H r left right names)"
  using Resolve_conflict [OF assms(1-3), of r] assms(4) by (simp add: resolveConflict_def)

lemma merge_verdict_diff_of:
  "merge_verdict (diff_of H left right n) =
     (if fieldChanged H left n \<and> fieldChanged H right n then Escalate
      else if fieldChanged H left n then WriteRight
      else if fieldChanged H right n then WriteLeft else Nothing)"
  by (simp add: merge_verdict_def diff_of_def)

section \<open>Properties\<close>


definition example_state :: "(string \<Rightarrow> string) \<Rightarrow> fields \<Rightarrow> fields \<Rightarrow> gotime \<Rightarrow> cstate" where
  "example_state H fs base at =
     \<lparr>cs_fields = fs, cs_hash = SnapshotHash H fs [''email'', ''phone''], cs_base = base,
      cs_synced_hash = SnapshotHash H base [''email'', ''phone''], cs_updated_at = at,
      cs_present = True\<rparr>"


text \<open>
  C3: Field-level merging loses no edit. When both sides moved from a recorded base, it escalates
  exactly when some field was edited on both sides to different values; otherwise each side is
  sent exactly the fields the other side edited, with the edited values, so no edited field is
  overwritten by the peer's older value.
\<close>

theorem merge_loses_no_edit:
  assumes "Changed left" and "Changed right" and "HasBase left" and "HasBase right"
    and "rv_per_field r = []" and "rv_default r = FieldLevel"
    and res: "res = Resolve H r left right names"
  shows "(res_action res = Escalate \<longleftrightarrow>
      (\<exists>n. disagree H left right names n \<and> fieldChanged H left n \<and> fieldChanged H right n)) \<and>
    (res_action res \<noteq> Escalate \<longrightarrow> (\<forall>n.
      map_of (sent Right res) n =
        (if disagree H left right names n \<and> fieldChanged H left n
         then Some (value_at (cs_fields left) n) else None) \<and>
      map_of (sent Left res) n =
        (if disagree H left right names n \<and> fieldChanged H right n
         then Some (value_at (cs_fields right) n) else None) \<and>
      \<not> (fieldChanged H left n \<and> map_of (sent Left res) n \<noteq> None) \<and>
      \<not> (fieldChanged H right n \<and> map_of (sent Right res) n \<noteq> None)))"
proof (cases "\<exists>n. disagree H left right names n")
  case False
  then have "res_action res = Nothing" using res Resolve_no_diff diff_empty by blast
  with False show ?thesis by simp
next
  case True
  then obtain m where "disagree H left right names m" by blast
  from Resolve_merge [OF assms(1,2) this assms(5,6)] res
  have m: "res = merge_fields r left right (undecided H r left right names)" by simp
  have esc: "res_action res = Escalate \<longleftrightarrow>
      (\<exists>n. disagree H left right names n \<and> fieldChanged H left n \<and> fieldChanged H right n)"
    unfolding m merge_fields_decides(1) [OF undecided_simps(1)]
    using assms(3,4) by (auto simp: ex_diff merge_verdict_diff_of split: if_splits)
  have "map_of (sent Right res) n =
        (if disagree H left right names n \<and> fieldChanged H left n
         then Some (value_at (cs_fields left) n) else None) \<and>
      map_of (sent Left res) n =
        (if disagree H left right names n \<and> fieldChanged H right n
         then Some (value_at (cs_fields right) n) else None)"
    if "res_action res \<noteq> Escalate" for n
    using merge_fields_decides(2) [OF undecided_simps(1), of r left right H r left right names] that esc
    by (auto simp: m map_of_winners merge_verdict_diff_of)
  with esc show ?thesis by auto
qed

theorem merge_loses_no_edit_witness:
  "let l = example_state id [(''email'', VStr ''b''), (''phone'', VStr ''1'')]
             [(''email'', VStr ''a''), (''phone'', VStr ''1'')] 0;
       r = example_state id [(''email'', VStr ''a''), (''phone'', VStr ''2'')]
             [(''email'', VStr ''a''), (''phone'', VStr ''1'')] 0;
       res = Resolve id \<lparr>rv_default = FieldLevel, rv_per_field = [], rv_skew = 1\<rparr> l r
               [''email'', ''phone'']
   in map_of (sent Right res) ''email'' = Some (VStr ''b'') \<and>
      map_of (sent Left res) ''phone'' = Some (VStr ''2'')"
proof -
  let ?l = "example_state id [(''email'', VStr ''b''), (''phone'', VStr ''1'')]
             [(''email'', VStr ''a''), (''phone'', VStr ''1'')] 0"
  let ?r = "example_state id [(''email'', VStr ''a''), (''phone'', VStr ''2'')]
             [(''email'', VStr ''a''), (''phone'', VStr ''1'')] 0"
  let ?rv = "\<lparr>rv_default = FieldLevel, rv_per_field = [], rv_skew = 1\<rparr>"
  let ?ns = "[''email'', ''phone'']"
  let ?res = "Resolve id ?rv ?l ?r ?ns"
  have c: "Changed ?l" "Changed ?r" "HasBase ?l" "HasBase ?r" by code_simp+
  have a: "res_action ?res \<noteq> Escalate" by code_simp
  have f: "fieldChanged id ?l ''email''" "fieldChanged id ?r ''phone''"
    "\<not> agree_on id (cs_fields ?l) (cs_fields ?r) ''email''"
    "\<not> agree_on id (cs_fields ?l) (cs_fields ?r) ''phone''"
    "value_at (cs_fields ?l) ''email'' = VStr ''b''" "value_at (cs_fields ?r) ''phone'' = VStr ''2''"
    by code_simp+
  have m: "\<And>n. map_of (sent Right ?res) n =
        (if disagree id ?l ?r ?ns n \<and> fieldChanged id ?l n
         then Some (value_at (cs_fields ?l) n) else None)"
    "\<And>n. map_of (sent Left ?res) n =
        (if disagree id ?l ?r ?ns n \<and> fieldChanged id ?r n
         then Some (value_at (cs_fields ?r) n) else None)"
    using merge_loses_no_edit [OF c, of ?rv ?res id ?ns] a by simp_all
  have d: "disagree id ?l ?r ?ns ''email''" "disagree id ?l ?r ?ns ''phone''"
    using f(3,4) by (simp_all add: disagree_def)
  show ?thesis using m(1) [of "''email''"] m(2) [of "''phone''"] d f by (simp add: Let_def)
qed

text \<open>
  A per-field policy governs its field whatever the default says. When both sides moved, the
  record escalates exactly when some disagreed field has no winner; otherwise a field under
  \<^verbatim>\<open>left_wins\<close> is sent to the right with the left value and never to the left, and a
  field under \<^verbatim>\<open>right_wins\<close> the other way round.
\<close>

theorem per_field_policy_governs:
  assumes "Changed left" and "Changed right" and "rv_per_field r \<noteq> []"
    and dis: "disagree H left right names n"
    and res: "res = Resolve H r left right names"
  shows "(res_action res = Escalate \<longleftrightarrow>
      (\<exists>m. disagree H left right names m \<and>
         field_verdict r left right (diff_of H left right m) = Escalate)) \<and>
    (PolicyFor r n = ReviewPolicy \<longrightarrow> res_action res = Escalate) \<and>
    (res_action res \<noteq> Escalate \<longrightarrow>
      (PolicyFor r n = LeftWins \<longrightarrow>
         map_of (sent Right res) n = Some (value_at (cs_fields left) n) \<and>
         map_of (sent Left res) n = None) \<and>
      (PolicyFor r n = RightWins \<longrightarrow>
         map_of (sent Left res) n = Some (value_at (cs_fields right) n) \<and>
         map_of (sent Right res) n = None))"
proof -
  from Resolve_per_field [OF assms(1,2) dis assms(3)] res
  have m: "res = resolvePerField r left right (undecided H r left right names)" by simp
  have esc: "res_action res = Escalate \<longleftrightarrow>
      (\<exists>m. disagree H left right names m \<and>
         field_verdict r left right (diff_of H left right m) = Escalate)"
    unfolding m resolvePerField_decides(1) [OF undecided_simps(1)] by (simp add: ex_diff)
  have rev: "PolicyFor r n = ReviewPolicy \<longrightarrow> res_action res = Escalate"
    unfolding esc using dis by (auto simp: field_verdict_def policy_defs intro!: exI [of _ n])
  have verdict: "PolicyFor r n = LeftWins \<Longrightarrow>
      field_verdict r left right (diff_of H left right n) = WriteRight"
    "PolicyFor r n = RightWins \<Longrightarrow>
      field_verdict r left right (diff_of H left right n) = WriteLeft"
    by (simp_all add: field_verdict_def policy_defs)
  show ?thesis
    using esc rev verdict dis
      resolvePerField_decides(2) [OF undecided_simps(1), of r left right H r left right names]
    by (auto simp: m map_of_winners)
qed

theorem per_field_policy_governs_witness:
  "let l = example_state id [(''email'', VStr ''b''), (''phone'', VStr ''1'')] [] 0;
       r = example_state id [(''email'', VStr ''a''), (''phone'', VStr ''2'')] [] 0;
       res = Resolve id \<lparr>rv_default = LeftWins, rv_per_field = [(''phone'', RightWins)], rv_skew = 1\<rparr>
               l r [''email'', ''phone'']
   in map_of (sent Right res) ''email'' = Some (VStr ''b'') \<and>
      map_of (sent Right res) ''phone'' = None"
proof -
  let ?l = "example_state id [(''email'', VStr ''b''), (''phone'', VStr ''1'')] [] 0"
  let ?r = "example_state id [(''email'', VStr ''a''), (''phone'', VStr ''2'')] [] 0"
  let ?rv = "\<lparr>rv_default = LeftWins, rv_per_field = [(''phone'', RightWins)], rv_skew = 1\<rparr>"
  let ?ns = "[''email'', ''phone'']"
  let ?res = "Resolve id ?rv ?l ?r ?ns"
  have c: "Changed ?l" "Changed ?r" by code_simp+
  have p: "rv_per_field ?rv \<noteq> []" by simp
  have a: "res_action ?res \<noteq> Escalate" by code_simp
  have f: "\<not> agree_on id (cs_fields ?l) (cs_fields ?r) ''email''"
    "\<not> agree_on id (cs_fields ?l) (cs_fields ?r) ''phone''"
    "value_at (cs_fields ?l) ''email'' = VStr ''b''" "PolicyFor ?rv ''email'' = LeftWins"
    "PolicyFor ?rv ''phone'' = RightWins"
    by code_simp+
  have d: "disagree id ?l ?r ?ns ''email''" "disagree id ?l ?r ?ns ''phone''"
    using f(1,2) by (simp_all add: disagree_def)
  show ?thesis
    using per_field_policy_governs [OF c p d(1), of ?res] per_field_policy_governs [OF c p d(2), of ?res]
      a f by (simp add: Let_def)
qed

lemma keys_of_winners:
  "w = WriteLeft \<or> w = WriteRight \<Longrightarrow>
   fst ` set (assign_all [] (winners verdict w (diff H left right names))) \<subseteq> set names"
  using map_of_winners [of w verdict H left right names]
  by (auto simp: dom_map_of_conv_image_fst [symmetric] dom_def disagree_def split: if_splits)

lemma keys_of_pick: "fst ` set (pick fs ns) \<subseteq> set ns"
  by (auto simp: dom_map_of_conv_image_fst [symmetric] dom_def map_of_pick split: if_splits)

lemma winners_disjoint:
  "fst ` set (assign_all [] (winners verdict WriteLeft (diff H left right names))) \<inter>
   fst ` set (assign_all [] (winners verdict WriteRight (diff H left right names))) = {}"
  using map_of_winners [of WriteLeft verdict H left right names]
    map_of_winners [of WriteRight verdict H left right names]
  by (auto simp: dom_map_of_conv_image_fst [symmetric] dom_def split: if_splits)

text \<open>What every resolution has: values only for the sides its action writes, and owned ones.\<close>

definition owned :: "string list \<Rightarrow> resolution \<Rightarrow> bool" where
  "owned names res \<longleftrightarrow>
     (res_action res \<in> {Nothing, Escalate} \<longrightarrow>
        res_values res = [] \<and> res_left_values res = [] \<and> res_right_values res = []) \<and>
     (\<forall>side. fst ` set (sent side res) \<subseteq> set names) \<and>
     (res_action res = WriteBoth \<longrightarrow>
        fst ` set (sent Left res) \<inter> fst ` set (sent Right res) = {})"

lemma all_sides: "(\<forall>side. P side) \<longleftrightarrow> P Left \<and> P Right"
  by (metis side.exhaust)

lemma owned_settle:
  assumes "res_values res = []"
    and "lv = assign_all [] (winners verdict WriteLeft (diff H left right names))"
    and "rv = assign_all [] (winners verdict WriteRight (diff H left right names))"
  shows "owned names (settle rs lv rv res)"
  unfolding owned_def all_sides settle_sent [OF assms(1)]
  using assms winners_disjoint [of verdict H left right names]
    keys_of_winners [of WriteLeft verdict H left right names]
    keys_of_winners [of WriteRight verdict H left right names]
  by (cases rs) (auto simp: settle_def)

text \<open>The two other shapes a resolution has: no values, or one side's picked values.\<close>

lemma owned_quiet:
  assumes "res_action res = Nothing \<or> res_action res = Escalate"
    and "res_values res = []" "res_left_values res = []" "res_right_values res = []"
  shows "owned names res"
  using assms by (auto simp: owned_def)

lemma owned_pick:
  assumes "res_action res = WriteLeft \<or> res_action res = WriteRight"
    and "res_values res = pick fs names"
  shows "owned names res"
  using assms keys_of_pick [of fs names] by (elim disjE) (simp_all add: owned_def all_sides)

lemma owned_newest:
  assumes "res_values res = []" "res_left_values res = []" "res_right_values res = []"
  shows "owned names (newest r left right names res)"
proof -
  consider "time_gap left right \<le> rv_skew r"
    | "\<not> time_gap left right \<le> rv_skew r" "cs_updated_at left > cs_updated_at right"
    | "\<not> time_gap left right \<le> rv_skew r" "\<not> cs_updated_at left > cs_updated_at right"
    by blast
  then show ?thesis
  proof cases
    case 1
    with assms show ?thesis by (intro owned_quiet) (simp_all add: newest_def)
  next
    case 2
    then show ?thesis
      by (intro owned_pick [of _ "cs_fields left"]) (simp_all add: newest_def)
  next
    case 3
    then show ?thesis
      by (intro owned_pick [of _ "cs_fields right"]) (simp_all add: newest_def)
  qed
qed

lemma owned_resolvePerField: "owned names (resolvePerField r left right (undecided H r left right names))"
  unfolding resolvePerField_def Let_def case_prod_beta
  using collect_parts [of "field_verdict r left right" "diff H left right names"]
  by (auto intro!: owned_settle intro: owned_quiet simp: undecided_def split: if_splits)

lemma owned_merge_fields: "owned names (merge_fields r left right (undecided H r left right names))"
  unfolding merge_fields_def Let_def case_prod_beta
  using collect_parts [of merge_verdict "diff H left right names"]
  by (auto intro!: owned_settle intro: owned_quiet simp: undecided_def split: if_splits)

lemma owned_resolveConflict:
  "owned names (resolveConflict r left right names (undecided H r left right names))"
proof -
  let ?u = "undecided H r left right names"
  have e: "res_values ?u = []" "res_left_values ?u = []" "res_right_values ?u = []"
    by (simp_all add: undecided_def)
  show ?thesis unfolding resolveConflict_def Let_def
    by (simp add: owned_resolvePerField owned_merge_fields owned_newest owned_quiet e
        owned_pick [of _ "cs_fields left"] owned_pick [of _ "cs_fields right"])
qed

lemma owned_Resolve: "owned names (Resolve H r left right names)"
proof -
  let ?res = "Resolve H r left right names"
  have "?res = (if diff H left right names = [] \<or> classify left right = Unchanged then ?res
      else case classify left right of BothChanged \<Rightarrow>
          resolveConflict r left right names (undecided H r left right names) | _ \<Rightarrow> ?res)"
    by (simp add: Resolve_def undecided_def Let_def split: situation.splits)
  then show ?thesis
    by (cases "diff H left right names = []"; cases "classify left right")
       (auto simp: Resolve_def Let_def owned_resolveConflict undecided_def [symmetric]
         intro: owned_quiet owned_pick)
qed

text \<open>
  A resolution never carries a value the mapping does not own. Whatever the states and the
  policy: a resolution that escalates or does nothing carries no values at all, the fields sent
  to either side are among the mapped names, nothing escalates unless both sides moved and they
  disagree, and a resolution that writes both sides sends them different fields.
\<close>

theorem Resolve_values_owned:
  assumes "res = Resolve H r left right names"
  shows "(res_action res = Nothing \<or> res_action res = Escalate \<longrightarrow>
      res_values res = [] \<and> res_left_values res = [] \<and> res_right_values res = []) \<and>
    (\<forall>side. fst ` set (sent side res) \<subseteq> set names) \<and>
    (res_action res = WriteBoth \<longrightarrow>
      fst ` set (sent Left res) \<inter> fst ` set (sent Right res) = {}) \<and>
    (res_action res = Escalate \<longrightarrow>
      Changed left \<and> Changed right \<and> (\<exists>n. disagree H left right names n))"
proof -
  have "res_action res = Escalate \<longrightarrow> classify left right = BothChanged \<and> diff H left right names \<noteq> []"
    by (cases "classify left right") (simp_all add: assms Resolve_def Let_def)
  then have "res_action res = Escalate \<longrightarrow>
      Changed left \<and> Changed right \<and> (\<exists>n. disagree H left right names n)"
    by (auto simp: diff_empty classify_def split: if_splits)
  with owned_Resolve [of names H r left right] assms show ?thesis by (simp add: owned_def)
qed

theorem Resolve_values_owned_witness:
  "let l = example_state id [(''email'', VStr ''b'')] [(''email'', VStr ''a'')] 0;
       r = example_state id [(''email'', VStr ''c'')] [(''email'', VStr ''a'')] 0;
       res = Resolve id \<lparr>rv_default = ReviewPolicy, rv_per_field = [], rv_skew = 1\<rparr> l r [''email'']
   in res_action res = Escalate \<and> res_values res = []"
proof -
  let ?l = "example_state id [(''email'', VStr ''b'')] [(''email'', VStr ''a'')] 0"
  let ?r = "example_state id [(''email'', VStr ''c'')] [(''email'', VStr ''a'')] 0"
  let ?rv = "\<lparr>rv_default = ReviewPolicy, rv_per_field = [], rv_skew = 1\<rparr>"
  have "res_action (Resolve id ?rv ?l ?r [''email'']) = Escalate" by code_simp
  then show ?thesis using Resolve_values_owned [OF refl, of id ?rv ?l ?r "[''email'']"]
    by (simp add: Let_def)
qed

section \<open>The clock policy\<close>

lemma Resolve_newest:
  assumes "Changed left" "Changed right" "disagree H left right names n"
    and "conflict_New NewestWins [] skew = Inr r"
  shows "Resolve H r left right names =
      newest r left right names ((undecided H r left right names)\<lparr>res_policy := NewestWins\<rparr>)"
    and "0 < rv_skew r"
proof -
  have r: "r = \<lparr>rv_default = NewestWins, rv_per_field = [],
      rv_skew = (if skew \<le> 0 then DefaultSkew else skew)\<rparr>"
    using assms(4) by (auto simp: conflict_New_def policy_defs IsValidPolicy_def Policies_def
        split: if_splits)
  then show "0 < rv_skew r" by (simp add: DefaultSkew_def)
  show "Resolve H r left right names =
      newest r left right names ((undecided H r left right names)\<lparr>res_policy := NewestWins\<rparr>)"
    using Resolve_conflict [OF assms(1-3), of r]
    by (simp add: resolveConflict_def r policy_defs)
qed

text \<open>
  C18: Under \<^verbatim>\<open>newest_wins\<close> a conflict is settled by the clock only outside the tolerance.
  For modification times whose distance an \<^verbatim>\<open>int64\<close> duration holds, the record escalates
  exactly when the two times are within the tolerance, and otherwise the strictly newer side
  overwrites the other.
\<close>

theorem newest_respects_skew:
  assumes "conflict_New NewestWins [] skew = Inr r"
    and "Changed left" and "Changed right" and "disagree H left right names n"
    and gap: "\<bar>cs_updated_at left - cs_updated_at right\<bar> < 2 ^ 63"
    and res: "res = Resolve H r left right names"
  shows "(res_action res = Escalate \<longleftrightarrow>
      \<bar>cs_updated_at left - cs_updated_at right\<bar> \<le> rv_skew r) \<and>
    (res_action res = WriteRight \<longleftrightarrow> cs_updated_at left - cs_updated_at right > rv_skew r) \<and>
    (res_action res = WriteLeft \<longleftrightarrow> cs_updated_at right - cs_updated_at left > rv_skew r)"
proof -
  let ?d = "cs_updated_at left - cs_updated_at right"
  have "int64 ?d" "?d \<noteq> - (2 ^ 63)" using gap by (auto simp: int64_def)
  then have t: "time_gap left right = \<bar>?d\<bar>"
    by (simp add: time_gap_def time_sub_exact dur_abs_exact)
  have "0 < rv_skew r" by (rule Resolve_newest(2) [OF assms(2-4,1)])
  then show ?thesis
    unfolding res Resolve_newest(1) [OF assms(2-4,1)] newest_def Let_def t by auto
qed

theorem newest_respects_skew_witness:
  "let l = example_state id [(''email'', VStr ''b'')] [(''email'', VStr ''a'')] 5000000000;
       r = example_state id [(''email'', VStr ''c'')] [(''email'', VStr ''a'')] 1000000000;
       rv = \<lparr>rv_default = NewestWins, rv_per_field = [], rv_skew = DefaultSkew\<rparr>
   in res_action (Resolve id rv l r [''email'']) = WriteRight"
proof -
  let ?l = "example_state id [(''email'', VStr ''b'')] [(''email'', VStr ''a'')] 5000000000"
  let ?r = "example_state id [(''email'', VStr ''c'')] [(''email'', VStr ''a'')] 1000000000"
  let ?rv = "\<lparr>rv_default = NewestWins, rv_per_field = [], rv_skew = DefaultSkew\<rparr>"
  have n: "conflict_New NewestWins [] 0 = Inr ?rv" by code_simp
  have c: "Changed ?l" "Changed ?r" by code_simp+
  have d: "disagree id ?l ?r [''email''] ''email''" unfolding disagree_def by code_simp
  have t: "cs_updated_at ?l = 5000000000" "cs_updated_at ?r = 1000000000"
    by (simp_all add: example_state_def)
  show ?thesis using newest_respects_skew [OF n c d _ refl] t by (simp add: DefaultSkew_def Let_def)
qed

text \<open>
  Outside that range the policy is not symmetric. A side with no modification time holds Go's
  zero time, some two thousand years before the other side's, and \<^verbatim>\<open>Time.Sub\<close>
  saturates: when it is the left side that lacks the time, negating the smallest duration wraps
  to itself, the gap compares as smaller than the tolerance and the record escalates; when it is
  the right side, the left overwrites it.
\<close>

theorem newest_zero_time_asymmetric:
  "let dated = example_state id [(''email'', VStr ''b'')] [(''email'', VStr ''a'')]
                 (unix_epoch + 1700000000000000000);
       undated = example_state id [(''email'', VStr ''c'')] [(''email'', VStr ''a'')] 0;
       rv = \<lparr>rv_default = NewestWins, rv_per_field = [], rv_skew = DefaultSkew\<rparr>
   in res_action (Resolve id rv dated undated [''email'']) = WriteRight \<and>
      res_action (Resolve id rv undated dated [''email'']) = Escalate"
  by code_simp

end
