(* ===== verification/Store_Api.thy ===== *)
theory Store_Api
  imports Errors
begin

text \<open>
  \<^verbatim>\<open>internal/store/store.go\<close>: the expiring key-value store every other part keeps its
  state in. The Go interface \<^verbatim>\<open>Store\<close> is the record \<open>store_ops\<close> of operations over
  a store state; each takes the time the store's clock shows when it is called. A value is
  opaque to a store, so its type is a parameter.

  The locales state what a client may rely on. \<open>kv_store\<close> holds of every store of the program;
  \<open>kv_store_strict\<close> adds that an expired entry uncovers nothing, which the durable stores have and
  the dry-run overlay does not.
\<close>

section \<open>The interface\<close>

record 'v entry =
  e_key :: string
  e_value :: 'v
  e_expires :: gotime

definition live :: "gotime \<Rightarrow> gotime \<Rightarrow> bool" where
  "live expiresAt now \<longleftrightarrow> expiresAt = zero_time \<or> expiresAt > now"

record ('s, 'v) store_ops =
  so_get :: "gotime \<Rightarrow> string \<Rightarrow> string \<Rightarrow> ('s, gerr, 'v option) st"
  so_put :: "gotime \<Rightarrow> string \<Rightarrow> string \<Rightarrow> 'v \<Rightarrow> gotime \<Rightarrow> ('s, gerr, unit) st"
  so_delete :: "gotime \<Rightarrow> string \<Rightarrow> string \<Rightarrow> ('s, gerr, unit) st"
  so_take :: "gotime \<Rightarrow> string \<Rightarrow> string \<Rightarrow> ('s, gerr, 'v option) st"
  so_list :: "gotime \<Rightarrow> string \<Rightarrow> int \<Rightarrow> ('s, gerr, 'v entry list) st"
  so_len :: "gotime \<Rightarrow> string \<Rightarrow> ('s, gerr, int) st"
  so_sweep :: "gotime \<Rightarrow> ('s, gerr, int) st"
  so_close :: "('s, gerr, unit) st"

definition CollWatermarks :: string where "CollWatermarks = ''watermarks''"
definition CollLinks :: string where "CollLinks = ''links''"
definition CollSnapshots :: string where "CollSnapshots = ''snapshots''"
definition CollOrigins :: string where "CollOrigins = ''origins''"
definition CollIdem :: string where "CollIdem = ''idem''"
definition CollDeliveries :: string where "CollDeliveries = ''deliveries''"
definition CollDLQ :: string where "CollDLQ = ''dlq''"
definition CollReview :: string where "CollReview = ''review''"
definition CollKeys :: string where "CollKeys = ''keys''"
definition CollKeyOwner :: string where "CollKeyOwner = ''key_owner''"

lemmas coll_defs = CollWatermarks_def CollLinks_def CollSnapshots_def CollOrigins_def CollIdem_def
  CollDeliveries_def CollDLQ_def CollReview_def CollKeys_def CollKeyOwner_def

definition AllCollections :: "string list" where
  "AllCollections =
     [CollWatermarks, CollLinks, CollSnapshots, CollOrigins, CollIdem, CollDeliveries, CollDLQ,
      CollReview, CollKeys, CollKeyOwner]"

lemma collections_distinct: "distinct AllCollections"
  by (simp add: AllCollections_def coll_defs)

text \<open>
  The overlay files its deletions under the collection, a NUL and the key, so its contract holds
  for collections whose name has no NUL, as all of the engine's have.
\<close>

definition coll_name :: "string \<Rightarrow> bool" where
  "coll_name c \<longleftrightarrow> nul \<notin> set c"

lemma coll_name_simps [simp]:
  "coll_name CollWatermarks" "coll_name CollLinks" "coll_name CollSnapshots"
  "coll_name CollOrigins" "coll_name CollIdem" "coll_name CollDeliveries" "coll_name CollDLQ"
  "coll_name CollReview" "coll_name CollKeys" "coll_name CollKeyOwner"
  by (simp_all add: coll_name_def coll_defs)

text \<open>\<^verbatim>\<open>if limit > 0 && len(xs) > limit { xs = xs[:limit] }\<close>\<close>

definition limited :: "int \<Rightarrow> 'a list \<Rightarrow> 'a list" where
  "limited limit xs = (if limit > 0 \<and> int (length xs) > limit then take (nat limit) xs else xs)"

lemma live_antimono: "live e now \<Longrightarrow> now' \<le> now \<Longrightarrow> live e now'"
  by (auto simp: live_def)

lemma live_zero [simp]: "live 0 now"
  by (simp add: live_def)

lemma limited_all [simp]: "limited 0 xs = xs"
  by (simp add: limited_def)

lemma limited_take: "limited limit xs = (if limit > 0 then take (nat limit) xs else xs)"
  by (auto simp: limited_def)

section \<open>What a store promises\<close>

text \<open>
  \<open>view s now c k\<close> is what a reader sees under a key at a time, \<open>ok\<close> that the store is open and
  well formed. No operation of an open store fails, none changes what is seen under another key,
  and what is invisible once stays invisible until it is written again.
\<close>

locale kv_store =
  fixes ops :: "('s, 'v) store_ops"
    and view :: "'s \<Rightarrow> gotime \<Rightarrow> string \<Rightarrow> string \<Rightarrow> 'v option"
    and ok :: "'s \<Rightarrow> bool"
  assumes get: "ok s \<Longrightarrow> so_get ops now c k s = (Inr (view s now c k), s)"
    and put: "ok s \<Longrightarrow> coll_name c \<Longrightarrow> \<exists>s'. so_put ops now c k v e s = (Inr (), s') \<and> ok s' \<and>
        (\<forall>t. live e t \<longrightarrow> view s' t c k = Some v) \<and>
        (\<forall>t c' k'. coll_name c' \<longrightarrow> (c', k') \<noteq> (c, k) \<longrightarrow> view s' t c' k' = view s t c' k')"
    and delete: "ok s \<Longrightarrow> coll_name c \<Longrightarrow> \<exists>s'. so_delete ops now c k s = (Inr (), s') \<and> ok s' \<and>
        (\<forall>t. view s' t c k = None) \<and>
        (\<forall>t c' k'. coll_name c' \<longrightarrow> (c', k') \<noteq> (c, k) \<longrightarrow> view s' t c' k' = view s t c' k')"
    and take: "ok s \<Longrightarrow> coll_name c \<Longrightarrow>
        \<exists>s'. so_take ops now c k s = (Inr (view s now c k), s') \<and> ok s' \<and>
        (\<forall>t. now \<le> t \<longrightarrow> view s' t c k = None) \<and>
        (\<forall>t c' k'. coll_name c' \<longrightarrow> (c', k') \<noteq> (c, k) \<longrightarrow> view s' t c' k' = view s t c' k')"
    and list: "ok s \<Longrightarrow> \<exists>es. so_list ops now c limit s = (Inr (limited limit es), s) \<and>
        sorted (map e_key es) \<and> distinct (map e_key es) \<and>
        (\<forall>k v. view s now c k = Some v \<longleftrightarrow> (\<exists>e \<in> set es. e_key e = k \<and> e_value e = v))"
    and sweep: "ok s \<Longrightarrow> \<exists>n s'. so_sweep ops now s = (Inr n, s') \<and> ok s' \<and>
        (\<forall>t c k. now \<le> t \<longrightarrow> view s' t c k = view s t c k)"
    and expired_stays: "ok s \<Longrightarrow> view s now c k = None \<Longrightarrow> now \<le> t \<Longrightarrow> view s t c k = None"

locale kv_store_strict = kv_store +
  assumes put_expired: "ok s \<Longrightarrow> \<not> live e t \<Longrightarrow> view (snd (so_put ops now c k v e s)) t c k = None"
    and take_gone: "ok s \<Longrightarrow> coll_name c \<Longrightarrow> view (snd (so_take ops now c k s)) t c k = None"

section \<open>Sequences of calls\<close>

text \<open>
  What a client of the interface can see: the reply to each call of a sequence. Two stores are
  interchangeable for a client when no sequence tells them apart.
\<close>

datatype 'v call =
    CallGet string string
  | CallPut string string 'v gotime
  | CallDelete string string
  | CallTake string string
  | CallList string int
  | CallSweep

datatype 'v reply =
    Value "'v option"
  | Done
  | Entries "(string \<times> 'v) list"
  | Failed gerr

definition reply_of :: "('a \<Rightarrow> 'v reply) \<Rightarrow> (gerr + 'a) \<times> 's \<Rightarrow> 'v reply \<times> 's" where
  "reply_of f r = (case r of (Inl e, s) \<Rightarrow> (Failed e, s) | (Inr x, s) \<Rightarrow> (f x, s))"

fun do_call :: "('s, 'v) store_ops \<Rightarrow> gotime \<Rightarrow> 'v call \<Rightarrow> 's \<Rightarrow> 'v reply \<times> 's" where
  "do_call ops now (CallGet c k) s = reply_of Value (so_get ops now c k s)"
| "do_call ops now (CallPut c k v e) s = reply_of (\<lambda>_. Done) (so_put ops now c k v e s)"
| "do_call ops now (CallDelete c k) s = reply_of (\<lambda>_. Done) (so_delete ops now c k s)"
| "do_call ops now (CallTake c k) s = reply_of Value (so_take ops now c k s)"
| "do_call ops now (CallList c n) s =
     reply_of (\<lambda>es. Entries (map (\<lambda>e. (e_key e, e_value e)) es)) (so_list ops now c n s)"
| "do_call ops now CallSweep s = reply_of (\<lambda>_. Done) (so_sweep ops now s)"

fun run_calls :: "('s, 'v) store_ops \<Rightarrow> (gotime \<times> 'v call) list \<Rightarrow> 's \<Rightarrow> 'v reply list \<times> 's" where
  "run_calls ops [] s = ([], s)"
| "run_calls ops ((now, call) # calls) s =
     (let (r, s') = do_call ops now call s; (rs, s'') = run_calls ops calls s'
      in (r # rs, s''))"

text \<open>
  A sequence within a horizon: time does not go back, collections are named properly, and what is
  put does not expire before the horizon.
\<close>

fun call_ok :: "gotime \<Rightarrow> 'v call \<Rightarrow> bool" where
  "call_ok horizon (CallGet c k) = coll_name c"
| "call_ok horizon (CallPut c k v e) = (coll_name c \<and> live e horizon)"
| "call_ok horizon (CallDelete c k) = coll_name c"
| "call_ok horizon (CallTake c k) = coll_name c"
| "call_ok horizon (CallList c n) = coll_name c"
| "call_ok horizon CallSweep = True"

fun calls_ok :: "gotime \<Rightarrow> gotime \<Rightarrow> (gotime \<times> 'v call) list \<Rightarrow> bool" where
  "calls_ok start horizon [] = True"
| "calls_ok start horizon ((now, call) # calls) =
     (start \<le> now \<and> now \<le> horizon \<and> call_ok horizon call \<and> calls_ok now horizon calls)"

lemma same_entries:
  fixes xs ys :: "'v entry list"
  assumes "sorted (map e_key xs)" "distinct (map e_key xs)"
    and "sorted (map e_key ys)" "distinct (map e_key ys)"
    and same: "\<And>k v. (\<exists>e \<in> set xs. e_key e = k \<and> e_value e = v) \<longleftrightarrow>
      (\<exists>e \<in> set ys. e_key e = k \<and> e_value e = v)"
  shows "map (\<lambda>e. (e_key e, e_value e)) xs = map (\<lambda>e. (e_key e, e_value e)) ys"
proof -
  let ?xs = "map (\<lambda>e. (e_key e, e_value e)) xs" and ?ys = "map (\<lambda>e. (e_key e, e_value e)) ys"
  have pairs: "set (map (\<lambda>e. (e_key e, e_value e)) zs) =
      {(k, v). \<exists>e \<in> set zs. e_key e = k \<and> e_value e = v}" for zs :: "'v entry list" by auto
  have eq: "set ?xs = set ?ys" unfolding pairs same ..
  have keys: "map fst ?xs = map e_key xs" "map fst ?ys = map e_key ys" by (simp_all add: comp_def)
  have "set (map e_key xs) = set (map e_key ys)"
    unfolding keys [symmetric] set_map by (simp only: eq set_map [symmetric])
  with assms(1-4) have "map e_key xs = map e_key ys" by (intro distinct_sorted_unique)
  then have "map fst ?xs = map fst ?ys" by (simp only: keys)
  then show ?thesis using eq assms(2) keys by (intro keyed_list_eq) (simp_all only: keys)
qed

text \<open>Two stores that agree on what is seen from now to the horizon give the same replies.\<close>

locale two_stores =
  a: kv_store ops view ok + b: kv_store ops' view' ok'
  for ops :: "('s, 'v) store_ops" and view ok
    and ops' :: "('t, 'v) store_ops" and view' ok'
begin

definition alike :: "gotime \<Rightarrow> gotime \<Rightarrow> 's \<Rightarrow> 't \<Rightarrow> bool" where
  "alike start horizon s s' \<longleftrightarrow> ok s \<and> ok' s' \<and>
     (\<forall>t c k. start \<le> t \<longrightarrow> t \<le> horizon \<longrightarrow> coll_name c \<longrightarrow> view s t c k = view' s' t c k)"

lemma alike_later: "alike start horizon s s' \<Longrightarrow> start \<le> now \<Longrightarrow> alike now horizon s s'"
  by (simp add: alike_def)

lemma alike_step:
  assumes al: "alike now horizon s s'" and now: "now \<le> horizon" and call: "call_ok horizon call"
  shows "fst (do_call ops now call s) = fst (do_call ops' now call s') \<and>
    alike now horizon (snd (do_call ops now call s)) (snd (do_call ops' now call s'))"
proof -
  from al have ok: "ok s" "ok' s'" and
    v: "\<And>t c k. now \<le> t \<Longrightarrow> t \<le> horizon \<Longrightarrow> coll_name c \<Longrightarrow> view s t c k = view' s' t c k"
    by (simp_all add: alike_def)
  show ?thesis
  proof (cases call)
    case (CallGet c k)
    with call al now show ?thesis
      by (simp add: a.get [OF ok(1)] b.get [OF ok(2)] reply_of_def alike_def)
  next
    case (CallPut c k x e)
    with call have c: "coll_name c" and e: "\<And>t. t \<le> horizon \<Longrightarrow> live e t"
      by (auto intro: live_antimono)
    from a.put [OF ok(1) c, of now k x e] obtain s1 where
      s1: "so_put ops now c k x e s = (Inr (), s1)" "ok s1" "\<And>t. live e t \<Longrightarrow> view s1 t c k = Some x"
        "\<And>t c' k'. coll_name c' \<Longrightarrow> (c', k') \<noteq> (c, k) \<Longrightarrow> view s1 t c' k' = view s t c' k'" by blast
    from b.put [OF ok(2) c, of now k x e] obtain s2 where
      s2: "so_put ops' now c k x e s' = (Inr (), s2)" "ok' s2"
        "\<And>t. live e t \<Longrightarrow> view' s2 t c k = Some x"
        "\<And>t c' k'. coll_name c' \<Longrightarrow> (c', k') \<noteq> (c, k) \<Longrightarrow> view' s2 t c' k' = view' s' t c' k'" by blast
    have "view s1 t c' k' = view' s2 t c' k'"
      if "now \<le> t" "t \<le> horizon" "coll_name c'" for t c' k'
      using that v s1(3,4) s2(3,4) e by (cases "(c', k') = (c, k)") auto
    with s1(1,2) s2(1,2) show ?thesis unfolding CallPut by (simp add: reply_of_def alike_def)
  next
    case (CallDelete c k)
    with call have c: "coll_name c" by simp
    from a.delete [OF ok(1) c, of now k] obtain s1 where
      s1: "so_delete ops now c k s = (Inr (), s1)" "ok s1" "\<And>t. view s1 t c k = None"
        "\<And>t c' k'. coll_name c' \<Longrightarrow> (c', k') \<noteq> (c, k) \<Longrightarrow> view s1 t c' k' = view s t c' k'" by blast
    from b.delete [OF ok(2) c, of now k] obtain s2 where
      s2: "so_delete ops' now c k s' = (Inr (), s2)" "ok' s2" "\<And>t. view' s2 t c k = None"
        "\<And>t c' k'. coll_name c' \<Longrightarrow> (c', k') \<noteq> (c, k) \<Longrightarrow> view' s2 t c' k' = view' s' t c' k'" by blast
    have "view s1 t c' k' = view' s2 t c' k'"
      if "now \<le> t" "t \<le> horizon" "coll_name c'" for t c' k'
      using that v s1(3,4) s2(3,4) by (cases "(c', k') = (c, k)") auto
    with s1(1,2) s2(1,2) show ?thesis unfolding CallDelete by (simp add: reply_of_def alike_def)
  next
    case (CallTake c k)
    with call have c: "coll_name c" by simp
    from a.take [OF ok(1) c, of now k] obtain s1 where
      s1: "so_take ops now c k s = (Inr (view s now c k), s1)" "ok s1"
        "\<And>t. now \<le> t \<Longrightarrow> view s1 t c k = None"
        "\<And>t c' k'. coll_name c' \<Longrightarrow> (c', k') \<noteq> (c, k) \<Longrightarrow> view s1 t c' k' = view s t c' k'" by blast
    from b.take [OF ok(2) c, of now k] obtain s2 where
      s2: "so_take ops' now c k s' = (Inr (view' s' now c k), s2)" "ok' s2"
        "\<And>t. now \<le> t \<Longrightarrow> view' s2 t c k = None"
        "\<And>t c' k'. coll_name c' \<Longrightarrow> (c', k') \<noteq> (c, k) \<Longrightarrow> view' s2 t c' k' = view' s' t c' k'" by blast
    have "view s1 t c' k' = view' s2 t c' k'"
      if "now \<le> t" "t \<le> horizon" "coll_name c'" for t c' k'
      using that v s1(3,4) s2(3,4) by (cases "(c', k') = (c, k)") auto
    with s1(1,2) s2(1,2) v [OF order_refl now c] show ?thesis
      unfolding CallTake by (simp add: reply_of_def alike_def)
  next
    case (CallList c n)
    with call have c: "coll_name c" by simp
    from a.list [OF ok(1), of now c n] obtain es where
      es: "so_list ops now c n s = (Inr (limited n es), s)" "sorted (map e_key es)"
        "distinct (map e_key es)" and
      es': "\<And>k v. view s now c k = Some v \<longleftrightarrow> (\<exists>e \<in> set es. e_key e = k \<and> e_value e = v)" by blast
    from b.list [OF ok(2), of now c n] obtain fs where
      fs: "so_list ops' now c n s' = (Inr (limited n fs), s')" "sorted (map e_key fs)"
        "distinct (map e_key fs)" and
      fs': "\<And>k v. view' s' now c k = Some v \<longleftrightarrow> (\<exists>e \<in> set fs. e_key e = k \<and> e_value e = v)" by blast
    have "map (\<lambda>e. (e_key e, e_value e)) es = map (\<lambda>e. (e_key e, e_value e)) fs"
      by (rule same_entries [OF es(2,3) fs(2,3)])
        (simp add: es' [symmetric] fs' [symmetric] v [OF order_refl now c])
    then have "map (\<lambda>e. (e_key e, e_value e)) (limited n es) =
        map (\<lambda>e. (e_key e, e_value e)) (limited n fs)"
      by (simp add: limited_take take_map [symmetric])
    with al es(1) fs(1) show ?thesis unfolding CallList by (simp add: reply_of_def)
  next
    case CallSweep
    from a.sweep [OF ok(1), of now] b.sweep [OF ok(2), of now] v
    show ?thesis unfolding CallSweep by (fastforce simp: reply_of_def alike_def)
  qed
qed

theorem same_replies:
  "calls_ok start horizon calls \<Longrightarrow> alike start horizon s s' \<Longrightarrow>
   fst (run_calls ops calls s) = fst (run_calls ops' calls s')"
proof (induction calls arbitrary: start s s')
  case (Cons nc calls)
  obtain now call where nc: "nc = (now, call)" by (cases nc)
  with Cons.prems have now: "start \<le> now" "now \<le> horizon" "call_ok horizon call"
    and rest: "calls_ok now horizon calls" by simp_all
  note step = alike_step [OF alike_later [OF Cons.prems(2) now(1)] now(2,3)]
  from Cons.IH [OF rest conjunct2 [OF step]] step show ?case
    by (simp add: nc case_prod_beta)
qed simp

end

end
