(* ===== verification/Mem_Store.thy ===== *)
theory Mem_Store
  imports Store_Api
begin

text \<open>
  \<^verbatim>\<open>internal/store/mem.go\<close>: the in-memory store. Collections are nested maps, as in the
  code; the mutex makes every method one atomic step, which is what each function is here.
\<close>

type_synonym 'v coll = "(string, 'v entry) gomap"

record 'v mem =
  mm_closed :: bool
  mm_data :: "(string, 'v coll) gomap"

definition NewMem :: "'v mem" where
  "NewMem = \<lparr>mm_closed = False, mm_data = []\<rparr>"

definition mem_coll :: "'v mem \<Rightarrow> string \<Rightarrow> 'v coll" where
  "mem_coll m c = (case map_of (mm_data m) c of Some es \<Rightarrow> es | None \<Rightarrow> [])"

definition mem_get :: "gotime \<Rightarrow> string \<Rightarrow> string \<Rightarrow> ('v mem, gerr, 'v option) st" where
  "mem_get now c k m =
     (if mm_closed m then (Inl ErrClosed, m)
      else case map_of (mem_coll m c) k of
             None \<Rightarrow> (Inr None, m)
           | Some e \<Rightarrow> if \<not> live (e_expires e) now then (Inr None, m) else (Inr (Some (e_value e)), m))"

definition mem_put_entry :: "string \<Rightarrow> string \<Rightarrow> 'v \<Rightarrow> gotime \<Rightarrow> 'v mem \<Rightarrow> 'v mem" where
  "mem_put_entry c k v expires m =
     m\<lparr>mm_data := AList.update c
         (AList.update k \<lparr>e_key = k, e_value = v, e_expires = expires\<rparr> (mem_coll m c)) (mm_data m)\<rparr>"

definition mem_put :: "gotime \<Rightarrow> string \<Rightarrow> string \<Rightarrow> 'v \<Rightarrow> gotime \<Rightarrow> ('v mem, gerr, unit) st" where
  "mem_put now c k v expires m =
     (if mm_closed m then (Inl ErrClosed, m) else (Inr (), mem_put_entry c k v expires m))"

text \<open>\<^verbatim>\<open>delete(m.data[collection], key)\<close>: nothing happens when there is no such collection.\<close>

definition mem_remove :: "string \<Rightarrow> string \<Rightarrow> 'v mem \<Rightarrow> 'v mem" where
  "mem_remove c k m =
     (case map_of (mm_data m) c of
        None \<Rightarrow> m
      | Some es \<Rightarrow> m\<lparr>mm_data := AList.update c (AList.delete k es) (mm_data m)\<rparr>)"

definition mem_delete :: "gotime \<Rightarrow> string \<Rightarrow> string \<Rightarrow> ('v mem, gerr, unit) st" where
  "mem_delete now c k m =
     (if mm_closed m then (Inl ErrClosed, m) else (Inr (), mem_remove c k m))"

definition mem_take :: "gotime \<Rightarrow> string \<Rightarrow> string \<Rightarrow> ('v mem, gerr, 'v option) st" where
  "mem_take now c k m =
     (if mm_closed m then (Inl ErrClosed, m)
      else case map_of (mem_coll m c) k of
             None \<Rightarrow> (Inr None, m)
           | Some e \<Rightarrow>
               (let m' = mem_remove c k m
                in if \<not> live (e_expires e) now then (Inr None, m') else (Inr (Some (e_value e)), m')))"

definition live_keys :: "gotime \<Rightarrow> 'v coll \<Rightarrow> string list" where
  "live_keys now es = map fst (filter (\<lambda>(k, e). live (e_expires e) now) es)"

text \<open>The entries of the listed keys, in their order.\<close>

fun entries_at :: "'v coll \<Rightarrow> string list \<Rightarrow> 'v entry list" where
  "entries_at es [] = []"
| "entries_at es (k # ks) =
     (case map_of es k of
        Some e \<Rightarrow> e\<lparr>e_key := k\<rparr> # entries_at es ks
      | None \<Rightarrow> entries_at es ks)"

definition mem_list :: "gotime \<Rightarrow> string \<Rightarrow> int \<Rightarrow> ('v mem, gerr, 'v entry list) st" where
  "mem_list now c limit m =
     (if mm_closed m then (Inl ErrClosed, m)
      else (Inr (entries_at (mem_coll m c)
                   (limited limit (sort_strings (live_keys now (mem_coll m c))))), m))"

definition mem_len :: "gotime \<Rightarrow> string \<Rightarrow> ('v mem, gerr, int) st" where
  "mem_len now c m =
     (if mm_closed m then (Inl ErrClosed, m)
      else (Inr (int (length (live_keys now (mem_coll m c)))), m))"

definition dead_count :: "gotime \<Rightarrow> 'v coll \<Rightarrow> nat" where
  "dead_count now es = length (filter (\<lambda>(k, e). \<not> live (e_expires e) now) es)"

definition mem_sweep :: "gotime \<Rightarrow> ('v mem, gerr, int) st" where
  "mem_sweep now m =
     (if mm_closed m then (Inl ErrClosed, m)
      else (Inr (int (sum_list (map (dead_count now \<circ> snd) (mm_data m)))),
            m\<lparr>mm_data := map (\<lambda>(c, es). (c, filter (\<lambda>(k, e). live (e_expires e) now) es))
                 (mm_data m)\<rparr>))"

definition mem_close :: "('v mem, gerr, unit) st" where
  "mem_close m = (Inr (), m\<lparr>mm_closed := True, mm_data := []\<rparr>)"

definition mem_ops :: "('v mem, 'v) store_ops" where
  "mem_ops =
     \<lparr>so_get = mem_get, so_put = mem_put, so_delete = mem_delete, so_take = mem_take,
      so_list = mem_list, so_len = mem_len, so_sweep = mem_sweep, so_close = mem_close\<rparr>"

section \<open>What a reader sees\<close>

definition coll_view :: "'v coll \<Rightarrow> gotime \<Rightarrow> string \<Rightarrow> 'v option" where
  "coll_view es now k =
     (case map_of es k of
        Some e \<Rightarrow> if live (e_expires e) now then Some (e_value e) else None
      | None \<Rightarrow> None)"

definition mem_view :: "'v mem \<Rightarrow> gotime \<Rightarrow> string \<Rightarrow> string \<Rightarrow> 'v option" where
  "mem_view m now c k = coll_view (mem_coll m c) now k"

definition mem_ok :: "'v mem \<Rightarrow> bool" where
  "mem_ok m \<longleftrightarrow> \<not> mm_closed m \<and> wf_map (mm_data m) \<and> (\<forall>(c, es) \<in> set (mm_data m). wf_map es)"

lemma mem_ok_coll: "mem_ok m \<Longrightarrow> wf_map (mem_coll m c)"
  by (auto simp: mem_ok_def mem_coll_def dest!: map_of_SomeD split: option.splits)

lemma mem_ok_NewMem [simp]: "mem_ok NewMem"
  by (simp add: mem_ok_def NewMem_def)

lemma mem_view_NewMem [simp]: "mem_view NewMem now c k = None"
  by (simp add: mem_view_def mem_coll_def NewMem_def coll_view_def)

lemma coll_view_update [simp]:
  "coll_view (AList.update k e es) t k' =
     (if k' = k then if live (e_expires e) t then Some (e_value e) else None else coll_view es t k')"
  by (simp add: coll_view_def)

lemma coll_view_delete [simp]:
  "coll_view (AList.delete k es) t k' = (if k' = k then None else coll_view es t k')"
  by (simp add: coll_view_def)

lemma mem_view_put [simp]:
  "mem_view (mem_put_entry c k v e m) t c' k' =
     (if c' = c \<and> k' = k then if live e t then Some v else None else mem_view m t c' k')"
  by (auto simp: mem_view_def mem_put_entry_def mem_coll_def split: option.splits)

lemma mem_view_remove [simp]:
  "mem_view (mem_remove c k m) t c' k' = (if c' = c \<and> k' = k then None else mem_view m t c' k')"
  by (auto simp: mem_view_def mem_remove_def mem_coll_def coll_view_def split: option.splits)

lemma set_update_coll: "x \<in> set (AList.update c es m) \<Longrightarrow> x = (c, es) \<or> x \<in> set m"
  by (induction m) (auto split: if_splits)

lemma mem_ok_replace:
  assumes "mem_ok m" and "wf_map es"
  shows "mem_ok (m\<lparr>mm_data := AList.update c es (mm_data m)\<rparr>)"
  using assms by (auto simp: mem_ok_def dest!: set_update_coll)

lemma mem_ok_put [simp]: "mem_ok m \<Longrightarrow> mem_ok (mem_put_entry c k v e m)"
  unfolding mem_put_entry_def by (rule mem_ok_replace) (simp_all add: mem_ok_coll)

lemma mem_ok_remove [simp]: "mem_ok m \<Longrightarrow> mem_ok (mem_remove c k m)"
  using mem_ok_coll [of m c]
  by (auto simp: mem_remove_def mem_coll_def mem_ok_replace split: option.splits)

section \<open>Listing and sweeping\<close>

lemma live_keys_view:
  "wf_map es \<Longrightarrow> k \<in> set (live_keys now es) \<longleftrightarrow> coll_view es now k \<noteq> None"
proof -
  assume wf: "wf_map es"
  have "k \<in> set (live_keys now es) \<longleftrightarrow> (\<exists>e. (k, e) \<in> set es \<and> live (e_expires e) now)"
    by (auto simp: live_keys_def image_iff)
  then show ?thesis by (auto simp: coll_view_def wf_map_lookup [OF wf, symmetric] split: option.splits)
qed

lemma distinct_live_keys: "wf_map es \<Longrightarrow> distinct (live_keys now es)"
  unfolding live_keys_def by (rule distinct_map_filter) (simp add: wf_map_def)

text \<open>The listing before the limit: the live entries in key order.\<close>

definition listing :: "gotime \<Rightarrow> 'v coll \<Rightarrow> 'v entry list" where
  "listing now es = entries_at es (sort_strings (live_keys now es))"

lemma entries_at_keys:
  "(\<And>k. k \<in> set ks \<Longrightarrow> map_of es k \<noteq> None) \<Longrightarrow>
   map e_key (entries_at es ks) = ks \<and> length (entries_at es ks) = length ks"
  by (induction ks) (auto split: option.splits)

lemma entries_at_take:
  "(\<And>k. k \<in> set ks \<Longrightarrow> map_of es k \<noteq> None) \<Longrightarrow>
   entries_at es (take n ks) = take n (entries_at es ks)"
proof (induction ks arbitrary: n)
  case (Cons k ks)
  from Cons.prems [of k] obtain e where "map_of es k = Some e" by auto
  with Cons show ?case by (cases n) auto
qed simp

lemma entries_at_member:
  "(\<exists>e \<in> set (entries_at es ks). e_key e = k \<and> e_value e = v) \<longleftrightarrow>
     (\<exists>e. k \<in> set ks \<and> map_of es k = Some e \<and> e_value e = v)"
  by (induction ks) (auto split: option.splits)

lemma live_keys_present: "k \<in> set (live_keys now es) \<Longrightarrow> map_of es k \<noteq> None"
  by (auto simp: live_keys_def weak_map_of_SomeI)

lemma listing_limited:
  "entries_at es (limited limit (sort_strings (live_keys now es))) = limited limit (listing now es)"
  using entries_at_take [of "sort_strings (live_keys now es)" es] live_keys_present [of _ now es]
  by (auto simp: limited_take listing_def)

lemma listing_keys:
  "wf_map es \<Longrightarrow> map e_key (listing now es) = sort_strings (live_keys now es)"
  unfolding listing_def using entries_at_keys [of "sort (live_keys now es)" es] live_keys_present
  by (metis set_sort)

lemma listing_view:
  assumes "wf_map es"
  shows "coll_view es now k = Some v \<longleftrightarrow> (\<exists>e \<in> set (listing now es). e_key e = k \<and> e_value e = v)"
proof -
  have "(\<exists>e \<in> set (listing now es). e_key e = k \<and> e_value e = v) \<longleftrightarrow>
      (\<exists>x. k \<in> set (live_keys now es) \<and> map_of es k = Some x \<and> e_value x = v)"
    by (simp add: listing_def entries_at_member)
  with live_keys_view [OF assms, of k now] show ?thesis
    by (auto simp: coll_view_def split: option.splits if_splits)
qed

lemma listing_sorted:
  "wf_map es \<Longrightarrow> sorted (map e_key (listing now es)) \<and> distinct (map e_key (listing now es))"
  by (simp add: listing_keys distinct_live_keys)

lemma mem_coll_sweep:
  "mem_coll (snd (mem_sweep now m)) c =
     (if mm_closed m then mem_coll m c else filter (\<lambda>(k, e). live (e_expires e) now) (mem_coll m c))"
proof -
  have "map_of (map (\<lambda>(c, es). (c, f es)) d) c = map_option f (map_of d c)"
    for f :: "'v coll \<Rightarrow> 'v coll" and d by (induction d) auto
  from this [of "filter (\<lambda>(k, e). live (e_expires e) now)" "mm_data m"] show ?thesis
    by (simp add: mem_sweep_def mem_coll_def split: option.split)
qed

lemma mem_view_sweep:
  assumes "mem_ok m" and "now \<le> t"
  shows "mem_view (snd (mem_sweep now m)) t c k = mem_view m t c k"
proof -
  have "\<not> mm_closed m" using assms(1) by (simp add: mem_ok_def)
  then show ?thesis
    using assms(2) map_of_filter_wf [OF mem_ok_coll [OF assms(1), of c]]
    by (auto simp: mem_view_def mem_coll_sweep coll_view_def split: option.splits
        dest: live_antimono)
qed

lemma mem_ok_sweep: "mem_ok m \<Longrightarrow> mem_ok (snd (mem_sweep now m))"
  by (auto simp: mem_ok_def mem_sweep_def wf_map_def comp_def case_prod_beta
      intro!: distinct_map_filter)

lemma mem_ok_open: "mem_ok m \<Longrightarrow> \<not> mm_closed m"
  by (simp add: mem_ok_def)

section \<open>The memory store is a store\<close>

lemma mem_get_view: "mem_ok m \<Longrightarrow> mem_get now c k m = (Inr (mem_view m now c k), m)"
  by (auto simp: mem_get_def mem_view_def coll_view_def mem_ok_open split: option.splits)

lemma mem_take_view:
  assumes "mem_ok m"
  shows "mem_take now c k m = (Inr (mem_view m now c k),
    if map_of (mem_coll m c) k = None then m else mem_remove c k m)"
  using assms
  by (auto simp: mem_take_def mem_view_def coll_view_def mem_ok_open Let_def split: option.splits)

lemma mem_absent: "map_of (mem_coll m c) k = None \<Longrightarrow> mem_view m t c k = None"
  by (simp add: mem_view_def coll_view_def)

interpretation mem: kv_store_strict mem_ops mem_view mem_ok
proof unfold_locales
  fix s :: "'a mem" and now t c k v e limit
  assume ok: "mem_ok s"
  show "so_get mem_ops now c k s = (Inr (mem_view s now c k), s)"
    by (simp add: mem_ops_def mem_get_view ok)
  show "\<exists>s'. so_put mem_ops now c k v e s = (Inr (), s') \<and> mem_ok s' \<and>
        (\<forall>t. live e t \<longrightarrow> mem_view s' t c k = Some v) \<and>
        (\<forall>t c' k'. coll_name c' \<longrightarrow> (c', k') \<noteq> (c, k) \<longrightarrow> mem_view s' t c' k' = mem_view s t c' k')"
    using ok by (auto simp: mem_ops_def mem_put_def mem_ok_open)
  show "\<exists>s'. so_delete mem_ops now c k s = (Inr (), s') \<and> mem_ok s' \<and>
        (\<forall>t. mem_view s' t c k = None) \<and>
        (\<forall>t c' k'. coll_name c' \<longrightarrow> (c', k') \<noteq> (c, k) \<longrightarrow> mem_view s' t c' k' = mem_view s t c' k')"
    using ok by (auto simp: mem_ops_def mem_delete_def mem_ok_open)
  show "\<exists>s'. so_take mem_ops now c k s = (Inr (mem_view s now c k), s') \<and> mem_ok s' \<and>
        (\<forall>t. now \<le> t \<longrightarrow> mem_view s' t c k = None) \<and>
        (\<forall>t c' k'. coll_name c' \<longrightarrow> (c', k') \<noteq> (c, k) \<longrightarrow> mem_view s' t c' k' = mem_view s t c' k')"
    using ok mem_absent [of s c k] by (auto simp: mem_ops_def mem_take_view)
  show "\<exists>es. so_list mem_ops now c limit s = (Inr (limited limit es), s) \<and>
        sorted (map e_key es) \<and> distinct (map e_key es) \<and>
        (\<forall>k v. (mem_view s now c k = Some v) = (\<exists>e\<in>set es. e_key e = k \<and> e_value e = v))"
    using listing_sorted [OF mem_ok_coll [OF ok, of c], of now]
      listing_view [OF mem_ok_coll [OF ok, of c], of now]
    by (intro exI [of _ "listing now (mem_coll s c)"])
       (simp add: mem_ops_def mem_list_def mem_ok_open [OF ok] listing_limited mem_view_def)
  show "\<exists>n s'. so_sweep mem_ops now s = (Inr n, s') \<and> mem_ok s' \<and>
        (\<forall>t c k. now \<le> t \<longrightarrow> mem_view s' t c k = mem_view s t c k)"
    using mem_view_sweep [OF ok, of now] mem_ok_sweep [OF ok, of now]
    by (auto simp: mem_ops_def mem_sweep_def mem_ok_open [OF ok])
  show "mem_view s now c k = None \<Longrightarrow> now \<le> t \<Longrightarrow> mem_view s t c k = None"
    by (auto simp: mem_view_def coll_view_def split: option.splits if_splits dest: live_antimono)
  show "\<not> live e t \<Longrightarrow> mem_view (snd (so_put mem_ops now c k v e s)) t c k = None"
    by (simp add: mem_ops_def mem_put_def mem_ok_open [OF ok])
  show "mem_view (snd (so_take mem_ops now c k s)) t c k = None"
    using mem_absent [of s c k] by (simp add: mem_ops_def mem_take_view ok)
qed

end
