(* ===== verification/Overlay_Store.thy ===== *)
theory Overlay_Store
  imports Mem_Store
begin

text \<open>
  \<^verbatim>\<open>internal/store/overlay.go\<close>: the writable view of a store whose writes are thrown
  away, which is what a dry run works on. The base is any store, given by its operations.
\<close>

record ('s, 'v) overlay =
  ov_base :: 's
  ov_over :: "'v mem"
  ov_deleted :: "string set"
  ov_closed :: bool

definition NewOverlay :: "'s \<Rightarrow> ('s, 'v) overlay" where
  "NewOverlay base = \<lparr>ov_base = base, ov_over = NewMem, ov_deleted = {}, ov_closed = False\<rparr>"

definition tomb :: "string \<Rightarrow> string \<Rightarrow> string" where
  "tomb c k = c @ nul # k"

text \<open>A call on the written layer or on the base, with the rest of the overlay kept.\<close>

definition on_over :: "('v mem, gerr, 'a) st \<Rightarrow> (('s, 'v) overlay, gerr, 'a) st" where
  "on_over f ov = (case f (ov_over ov) of (r, m) \<Rightarrow> (r, ov\<lparr>ov_over := m\<rparr>))"

definition on_base :: "('s, gerr, 'a) st \<Rightarrow> (('s, 'v) overlay, gerr, 'a) st" where
  "on_base f ov = (case f (ov_base ov) of (r, b) \<Rightarrow> (r, ov\<lparr>ov_base := b\<rparr>))"

definition overlay_get ::
  "('s, 'v) store_ops \<Rightarrow> gotime \<Rightarrow> string \<Rightarrow> string \<Rightarrow> (('s, 'v) overlay, gerr, 'v option) st" where
  "overlay_get base now c k ov =
     (if ov_closed ov then (Inl ErrClosed, ov)
      else andThen (on_over (mem_get now c k))
        (\<lambda>r. if r \<noteq> None then ret r
             else if tomb c k \<in> ov_deleted ov then ret None
             else on_base (so_get base now c k)) ov)"

definition overlay_put ::
  "gotime \<Rightarrow> string \<Rightarrow> string \<Rightarrow> 'v \<Rightarrow> gotime \<Rightarrow> (('s, 'v) overlay, gerr, unit) st" where
  "overlay_put now c k v expires ov =
     (if ov_closed ov then (Inl ErrClosed, ov)
      else on_over (mem_put now c k v expires) (ov\<lparr>ov_deleted := ov_deleted ov - {tomb c k}\<rparr>))"

definition overlay_delete ::
  "gotime \<Rightarrow> string \<Rightarrow> string \<Rightarrow> (('s, 'v) overlay, gerr, unit) st" where
  "overlay_delete now c k ov =
     (if ov_closed ov then (Inl ErrClosed, ov)
      else on_over (mem_delete now c k) (ov\<lparr>ov_deleted := insert (tomb c k) (ov_deleted ov)\<rparr>))"

definition overlay_take ::
  "('s, 'v) store_ops \<Rightarrow> gotime \<Rightarrow> string \<Rightarrow> string \<Rightarrow> (('s, 'v) overlay, gerr, 'v option) st" where
  "overlay_take base now c k =
     andThen (overlay_get base now c k)
       (\<lambda>r. if r = None then ret None
            else (\<lambda>ov. andThen (on_over (mem_delete now c k)) (\<lambda>_. ret r)
                        (ov\<lparr>ov_deleted := insert (tomb c k) (ov_deleted ov)\<rparr>)))"

definition keyed :: "'v entry list \<Rightarrow> (string \<times> 'v entry) list" where
  "keyed es = map (\<lambda>e. (e_key e, e)) es"

definition merged_entries ::
  "string \<Rightarrow> string set \<Rightarrow> 'v entry list \<Rightarrow> 'v entry list \<Rightarrow> 'v coll" where
  "merged_entries c deleted baseEntries overEntries =
     assign_all (assign_all [] (keyed (filter (\<lambda>e. tomb c (e_key e) \<notin> deleted) baseEntries)))
       (keyed overEntries)"

text \<open>
  An entry of the merged map is filed under its own key, so reading the entries back in key order
  by \<^const>\<open>entries_at\<close> returns them as they are.
\<close>

definition overlay_list ::
  "('s, 'v) store_ops \<Rightarrow> gotime \<Rightarrow> string \<Rightarrow> int \<Rightarrow> (('s, 'v) overlay, gerr, 'v entry list) st" where
  "overlay_list base now c limit ov =
     (if ov_closed ov then (Inl ErrClosed, ov)
      else andThen (on_base (so_list base now c 0)) (\<lambda>baseEntries.
           andThen (on_over (mem_list now c 0)) (\<lambda>overEntries.
             let merged = merged_entries c (ov_deleted ov) baseEntries overEntries
             in ret (entries_at merged (limited limit (sort_strings (map fst merged)))))) ov)"

definition overlay_len ::
  "('s, 'v) store_ops \<Rightarrow> gotime \<Rightarrow> string \<Rightarrow> (('s, 'v) overlay, gerr, int) st" where
  "overlay_len base now c = andThen (overlay_list base now c 0) (\<lambda>es. ret (int (length es)))"

definition overlay_sweep :: "gotime \<Rightarrow> (('s, 'v) overlay, gerr, int) st" where
  "overlay_sweep now ov =
     (if ov_closed ov then (Inl ErrClosed, ov) else on_over (mem_sweep now) ov)"

definition overlay_close :: "(('s, 'v) overlay, gerr, unit) st" where
  "overlay_close ov = on_over mem_close (ov\<lparr>ov_closed := True\<rparr>)"

definition overlay_ops :: "('s, 'v) store_ops \<Rightarrow> (('s, 'v) overlay, 'v) store_ops" where
  "overlay_ops base =
     \<lparr>so_get = overlay_get base, so_put = overlay_put, so_delete = overlay_delete,
      so_take = overlay_take base, so_list = overlay_list base, so_len = overlay_len base,
      so_sweep = overlay_sweep, so_close = overlay_close\<rparr>"

section \<open>What a reader of the overlay sees\<close>

definition overlay_view ::
  "('s \<Rightarrow> gotime \<Rightarrow> string \<Rightarrow> string \<Rightarrow> 'v option) \<Rightarrow>
   ('s, 'v) overlay \<Rightarrow> gotime \<Rightarrow> string \<Rightarrow> string \<Rightarrow> 'v option" where
  "overlay_view view ov now c k =
     (case mem_view (ov_over ov) now c k of
        Some v \<Rightarrow> Some v
      | None \<Rightarrow> if tomb c k \<in> ov_deleted ov then None else view (ov_base ov) now c k)"

definition overlay_ok :: "('s \<Rightarrow> bool) \<Rightarrow> ('s, 'v) overlay \<Rightarrow> bool" where
  "overlay_ok ok ov \<longleftrightarrow> \<not> ov_closed ov \<and> mem_ok (ov_over ov) \<and> ok (ov_base ov)"

lemma tomb_inj:
  assumes "coll_name c" "coll_name c'"
  shows "tomb c k = tomb c' k' \<longleftrightarrow> c = c' \<and> k = k'"
  using assms by (simp add: tomb_def coll_name_def sep_eq_iff)

lemma on_over_mem:
  assumes "mem_ok (ov_over ov)"
  shows "on_over (mem_get now c k) ov = (Inr (mem_view (ov_over ov) now c k), ov)"
    and "on_over (mem_put now c k v e) ov = (Inr (), ov\<lparr>ov_over := mem_put_entry c k v e (ov_over ov)\<rparr>)"
    and "on_over (mem_delete now c k) ov = (Inr (), ov\<lparr>ov_over := mem_remove c k (ov_over ov)\<rparr>)"
  using assms by (simp_all add: on_over_def mem_get_view mem_put_def mem_delete_def mem_ok_open)

lemma wf_keyed: "wf_map (keyed es) = distinct (map e_key es)"
  by (simp add: wf_map_def keyed_def comp_def)

lemma map_of_keyed:
  assumes "distinct (map e_key es)"
  shows "map_of (keyed es) k = Some e \<longleftrightarrow> e \<in> set es \<and> e_key e = k"
  using assms by (auto simp: wf_map_lookup wf_keyed) (auto simp: keyed_def)

text \<open>The merged map holds, under each key, what the overlay shows there.\<close>

lemma merged_view:
  assumes b: "distinct (map e_key bs)" and v: "distinct (map e_key vs)"
  shows "(\<exists>e. map_of (merged_entries c d bs vs) k = Some e \<and> e_value e = x) \<longleftrightarrow>
    (\<exists>e \<in> set vs. e_key e = k \<and> e_value e = x) \<or>
    (\<forall>e \<in> set vs. e_key e \<noteq> k) \<and> tomb c k \<notin> d \<and> (\<exists>e \<in> set bs. e_key e = k \<and> e_value e = x)"
proof -
  let ?bs = "filter (\<lambda>e. tomb c (e_key e) \<notin> d) bs"
  have b': "distinct (map e_key ?bs)" using b by (rule distinct_map_filter)
  have wf: "wf_map (keyed ?bs)" "wf_map (keyed vs)" using b' v by (simp_all add: wf_keyed)
  have m: "map_of (merged_entries c d bs vs) k =
      (case map_of (keyed vs) k of Some e \<Rightarrow> Some e | None \<Rightarrow> map_of (keyed ?bs) k)"
    unfolding merged_entries_def map_of_assign_all map_of_rev [OF wf(1)] map_of_rev [OF wf(2)]
    by (cases "map_of (keyed vs) k") (simp_all add: map_add_def)
  show ?thesis
  proof (cases "map_of (keyed vs) k")
    case None
    then have "\<forall>e \<in> set vs. e_key e \<noteq> k" using map_of_keyed [OF v, of k] by auto
    with None show ?thesis unfolding m by (auto simp: map_of_keyed [OF b'])
  next
    case (Some e)
    then have e: "e \<in> set vs" "e_key e = k" using map_of_keyed [OF v] by blast+
    moreover have "f = e" if "f \<in> set vs" "e_key f = k" for f
      using that Some map_of_keyed [OF v, of k f] by simp
    ultimately show ?thesis unfolding m Some by (metis option.inject option.case(2))
  qed
qed

lemma wf_merged: "wf_map (merged_entries c d bs vs)"
  by (simp add: merged_entries_def)

text \<open>Reading a map back in key order.\<close>

lemma entries_at_all:
  assumes "wf_map es"
  shows "map e_key (entries_at es (sort_strings (map fst es))) = sort_strings (map fst es)"
    and "entries_at es (limited n (sort_strings (map fst es))) =
      limited n (entries_at es (sort_strings (map fst es)))"
    and "(\<exists>e \<in> set (entries_at es (sort_strings (map fst es))). e_key e = k \<and> e_value e = v) \<longleftrightarrow>
      (\<exists>e. map_of es k = Some e \<and> e_value e = v)"
proof -
  have p: "k \<in> set (sort_strings (map fst es)) \<Longrightarrow> map_of es k \<noteq> None" for k
    by (simp add: map_of_eq_None_iff)
  then show "map e_key (entries_at es (sort_strings (map fst es))) = sort_strings (map fst es)"
    using entries_at_keys by blast
  show "entries_at es (limited n (sort_strings (map fst es))) =
      limited n (entries_at es (sort_strings (map fst es)))"
    using entries_at_take [of "sort_strings (map fst es)" es] p by (auto simp: limited_take)
  show "(\<exists>e \<in> set (entries_at es (sort_strings (map fst es))). e_key e = k \<and> e_value e = v) \<longleftrightarrow>
      (\<exists>e. map_of es k = Some e \<and> e_value e = v)"
    unfolding entries_at_member by (auto dest: map_of_SomeD intro: rev_image_eqI)
qed

section \<open>The overlay of a store is a store\<close>

context kv_store
begin

lemma overlay_get_view:
  assumes "overlay_ok ok ov"
  shows "overlay_get ops now c k ov = (Inr (overlay_view view ov now c k), ov)"
proof -
  have b: "on_base (so_get ops now c k) ov = (Inr (view (ov_base ov) now c k), ov)"
    using assms by (simp add: on_base_def get overlay_ok_def)
  have m: "on_over (mem_get now c k) ov = (Inr (mem_view (ov_over ov) now c k), ov)"
    using assms by (intro on_over_mem) (simp add: overlay_ok_def)
  show ?thesis using assms b
    by (simp add: overlay_get_def overlay_ok_def andThen_def m overlay_view_def split: option.split)
qed

lemma overlay_put_view:
  assumes "overlay_ok ok ov" and "coll_name c"
  shows "\<exists>ov'. overlay_put now c k v e ov = (Inr (), ov') \<and> overlay_ok ok ov' \<and>
    ov_base ov' = ov_base ov \<and>
    (\<forall>t. live e t \<longrightarrow> overlay_view view ov' t c k = Some v) \<and>
    (\<forall>t c' k'. coll_name c' \<longrightarrow> (c', k') \<noteq> (c, k) \<longrightarrow>
       overlay_view view ov' t c' k' = overlay_view view ov t c' k')"
  using assms
  by (auto simp: overlay_put_def overlay_ok_def on_over_mem overlay_view_def tomb_inj
      split: option.split)

lemma overlay_delete_view:
  assumes "overlay_ok ok ov" and "coll_name c"
  shows "\<exists>ov'. overlay_delete now c k ov = (Inr (), ov') \<and> overlay_ok ok ov' \<and>
    ov_base ov' = ov_base ov \<and>
    (\<forall>t. overlay_view view ov' t c k = None) \<and>
    (\<forall>t c' k'. coll_name c' \<longrightarrow> (c', k') \<noteq> (c, k) \<longrightarrow>
       overlay_view view ov' t c' k' = overlay_view view ov t c' k')"
  using assms
  by (auto simp: overlay_delete_def overlay_ok_def on_over_mem overlay_view_def tomb_inj
      split: option.split)

lemma overlay_expired_stays:
  assumes "overlay_ok ok ov" and "overlay_view view ov now c k = None" and "now \<le> t"
  shows "overlay_view view ov t c k = None"
  using assms expired_stays [of "ov_base ov" now c k t] mem.expired_stays [of "ov_over ov" now c k t]
  by (auto simp: overlay_view_def overlay_ok_def split: option.splits if_splits)

lemma overlay_take_view:
  assumes ok: "overlay_ok ok ov" and c: "coll_name c"
  shows "\<exists>ov'. overlay_take ops now c k ov = (Inr (overlay_view view ov now c k), ov') \<and>
    overlay_ok ok ov' \<and> ov_base ov' = ov_base ov \<and>
    (\<forall>t. now \<le> t \<longrightarrow> overlay_view view ov' t c k = None) \<and>
    (\<forall>t c' k'. coll_name c' \<longrightarrow> (c', k') \<noteq> (c, k) \<longrightarrow>
       overlay_view view ov' t c' k' = overlay_view view ov t c' k')"
proof (cases "overlay_view view ov now c k")
  case None
  then have "overlay_take ops now c k ov = (Inr None, ov)"
    by (simp add: overlay_take_def andThen_def overlay_get_view [OF ok])
  with None ok overlay_expired_stays [OF ok None] show ?thesis by auto
next
  case (Some v)
  let ?ov = "ov\<lparr>ov_deleted := insert (tomb c k) (ov_deleted ov)\<rparr>"
  have "mem_ok (ov_over ?ov)" using ok by (simp add: overlay_ok_def)
  from on_over_mem(3) [OF this, of now c k]
  have "overlay_take ops now c k ov =
      (Inr (Some v), ?ov\<lparr>ov_over := mem_remove c k (ov_over ov)\<rparr>)"
    by (simp add: overlay_take_def andThen_def overlay_get_view [OF ok] Some)
  with Some ok c show ?thesis
    by (auto simp: overlay_ok_def overlay_view_def tomb_inj split: option.split)
qed

lemma overlay_list_view:
  assumes ok: "overlay_ok ok ov"
  shows "\<exists>es. overlay_list ops now c limit ov = (Inr (limited limit es), ov) \<and>
    sorted (map e_key es) \<and> distinct (map e_key es) \<and>
    (\<forall>k v. overlay_view view ov now c k = Some v \<longleftrightarrow> (\<exists>e \<in> set es. e_key e = k \<and> e_value e = v))"
proof -
  from ok have oks: "ok (ov_base ov)" "mem_ok (ov_over ov)" "\<not> ov_closed ov"
    by (simp_all add: overlay_ok_def)
  from list [OF oks(1), of now c 0] obtain bs where
    bs: "so_list ops now c 0 (ov_base ov) = (Inr bs, ov_base ov)" "distinct (map e_key bs)" and
    bv: "\<And>k v. view (ov_base ov) now c k = Some v \<longleftrightarrow> (\<exists>e \<in> set bs. e_key e = k \<and> e_value e = v)"
    by auto
  from mem.list [OF oks(2), of now c 0] obtain vs where
    vs: "mem_list now c 0 (ov_over ov) = (Inr vs, ov_over ov)" "distinct (map e_key vs)" and
    vv: "\<And>k v. mem_view (ov_over ov) now c k = Some v \<longleftrightarrow> (\<exists>e \<in> set vs. e_key e = k \<and> e_value e = v)"
    by (auto simp: mem_ops_def)
  define m where "m = merged_entries c (ov_deleted ov) bs vs"
  define es where "es = entries_at m (sort_strings (map fst m))"
  have wf: "wf_map m" by (simp add: m_def wf_merged)
  have "on_base (so_list ops now c 0) ov = (Inr bs, ov)"
    "on_over (mem_list now c 0) ov = (Inr vs, ov)"
    using bs vs by (simp_all add: on_base_def on_over_def)
  then have "overlay_list ops now c limit ov = (Inr (limited limit es), ov)"
    using oks(3) entries_at_all(2) [OF wf]
    by (simp add: overlay_list_def andThen_Inr Let_def m_def es_def)
  moreover have "sorted (map e_key es)" "distinct (map e_key es)"
    using wf by (simp_all add: es_def entries_at_all(1) wf_map_def)
  moreover have "overlay_view view ov now c k = Some v \<longleftrightarrow>
      (\<exists>e \<in> set es. e_key e = k \<and> e_value e = v)" for k v
  proof -
    have none: "mem_view (ov_over ov) now c k = None \<longleftrightarrow> (\<forall>e \<in> set vs. e_key e \<noteq> k)"
      using vv [of k] by (metis option.exhaust option.distinct(1))
    show ?thesis
      unfolding es_def entries_at_all(3) [OF wf]
      unfolding m_def merged_view [OF bs(2) vs(2)] vv [symmetric] bv [symmetric] none [symmetric]
      by (auto simp: overlay_view_def split: option.splits if_splits)
  qed
  ultimately show ?thesis by blast
qed

lemma overlay_sweep_view:
  assumes ok: "overlay_ok ok ov"
  shows "\<exists>n ov'. overlay_sweep now ov = (Inr n, ov') \<and> overlay_ok ok ov' \<and>
    ov_base ov' = ov_base ov \<and>
    (\<forall>t c k. now \<le> t \<longrightarrow> overlay_view view ov' t c k = overlay_view view ov t c k)"
proof -
  from ok have "mem_ok (ov_over ov)" by (simp add: overlay_ok_def)
  from mem.sweep [OF this, of now] obtain n m where
    "mem_sweep now (ov_over ov) = (Inr n, m)" "mem_ok m"
    "\<And>t c k. now \<le> t \<Longrightarrow> mem_view m t c k = mem_view (ov_over ov) t c k"
    by (auto simp: mem_ops_def)
  with ok show ?thesis
    by (auto simp: overlay_sweep_def on_over_def overlay_ok_def overlay_view_def split: option.split)
qed

theorem overlay_is_store: "kv_store (overlay_ops ops) (overlay_view view) (overlay_ok ok)"
proof
  fix ov :: "('s, 'v) overlay" and now t c k v e limit
  assume ok: "overlay_ok ok ov"
  show "so_get (overlay_ops ops) now c k ov = (Inr (overlay_view view ov now c k), ov)"
    using overlay_get_view [OF ok] by (simp add: overlay_ops_def)
  show "\<exists>es. so_list (overlay_ops ops) now c limit ov = (Inr (limited limit es), ov) \<and>
        sorted (map e_key es) \<and> distinct (map e_key es) \<and>
        (\<forall>k v. (overlay_view view ov now c k = Some v) = (\<exists>e\<in>set es. e_key e = k \<and> e_value e = v))"
    using overlay_list_view [OF ok] by (simp add: overlay_ops_def)
  show "\<exists>n ov'. so_sweep (overlay_ops ops) now ov = (Inr n, ov') \<and> overlay_ok ok ov' \<and>
        (\<forall>t c k. now \<le> t \<longrightarrow> overlay_view view ov' t c k = overlay_view view ov t c k)"
    using overlay_sweep_view [OF ok, of now] by (auto simp: overlay_ops_def)
  show "overlay_view view ov now c k = None \<Longrightarrow> now \<le> t \<Longrightarrow> overlay_view view ov t c k = None"
    by (rule overlay_expired_stays [OF ok])
  assume c: "coll_name c"
  show "\<exists>s'. so_put (overlay_ops ops) now c k v e ov = (Inr (), s') \<and> overlay_ok ok s' \<and>
        (\<forall>t. live e t \<longrightarrow> overlay_view view s' t c k = Some v) \<and>
        (\<forall>t c' k'. coll_name c' \<longrightarrow> (c', k') \<noteq> (c, k) \<longrightarrow>
           overlay_view view s' t c' k' = overlay_view view ov t c' k')"
    using overlay_put_view [OF ok c, of now k v e] by (auto simp: overlay_ops_def)
  show "\<exists>s'. so_delete (overlay_ops ops) now c k ov = (Inr (), s') \<and> overlay_ok ok s' \<and>
        (\<forall>t. overlay_view view s' t c k = None) \<and>
        (\<forall>t c' k'. coll_name c' \<longrightarrow> (c', k') \<noteq> (c, k) \<longrightarrow>
           overlay_view view s' t c' k' = overlay_view view ov t c' k')"
    using overlay_delete_view [OF ok c, of now k] by (auto simp: overlay_ops_def)
  show "\<exists>s'. so_take (overlay_ops ops) now c k ov =
        (Inr (overlay_view view ov now c k), s') \<and> overlay_ok ok s' \<and>
        (\<forall>t. now \<le> t \<longrightarrow> overlay_view view s' t c k = None) \<and>
        (\<forall>t c' k'. coll_name c' \<longrightarrow> (c', k') \<noteq> (c, k) \<longrightarrow>
           overlay_view view s' t c' k' = overlay_view view ov t c' k')"
    using overlay_take_view [OF ok c, of now k] by (auto simp: overlay_ops_def)
qed

end

interpretation overlay: kv_store "overlay_ops mem_ops" "overlay_view mem_view" "overlay_ok mem_ok"
  by (rule mem.overlay_is_store)

section \<open>Properties\<close>

interpretation dry: two_stores "overlay_ops mem_ops" "overlay_view mem_view" "overlay_ok mem_ok"
  mem_ops mem_view mem_ok
  by unfold_locales

lemma overlay_call_base:
  assumes "overlay_ok mem_ok ov" and "call_ok horizon call"
  shows "overlay_ok mem_ok (snd (do_call (overlay_ops mem_ops) now call ov)) \<and>
    ov_base (snd (do_call (overlay_ops mem_ops) now call ov)) = ov_base ov"
proof (cases call)
  case (CallGet c k)
  with assms show ?thesis by (simp add: overlay_ops_def mem.overlay_get_view reply_of_def)
next
  case (CallPut c k v e)
  with assms mem.overlay_put_view [of ov c now k v e] show ?thesis
    by (auto simp: overlay_ops_def reply_of_def)
next
  case (CallDelete c k)
  with assms mem.overlay_delete_view [of ov c now k] show ?thesis
    by (auto simp: overlay_ops_def reply_of_def)
next
  case (CallTake c k)
  with assms mem.overlay_take_view [of ov c now k] show ?thesis
    by (auto simp: overlay_ops_def reply_of_def)
next
  case (CallList c n)
  with assms mem.overlay_list_view [of ov now c n] show ?thesis
    by (auto simp: overlay_ops_def reply_of_def)
next
  case CallSweep
  with assms mem.overlay_sweep_view [of ov now] show ?thesis
    by (auto simp: overlay_ops_def reply_of_def)
qed

lemma overlay_run_base:
  "overlay_ok mem_ok ov \<Longrightarrow> calls_ok start horizon calls \<Longrightarrow>
   ov_base (snd (run_calls (overlay_ops mem_ops) calls ov)) = ov_base ov"
proof (induction calls arbitrary: start ov)
  case (Cons nc calls)
  obtain now call where nc: "nc = (now, call)" by (cases nc)
  with Cons.prems have "call_ok horizon call" "calls_ok now horizon calls" by simp_all
  with overlay_call_base [OF Cons.prems(1), of horizon call now] Cons.IH show ?case
    by (simp add: nc case_prod_beta)
qed simp


definition example_calls :: "(gotime \<times> string call) list" where
  "example_calls =
     [(1, CallPut CollLinks ''a'' ''x'' 0), (1, CallDelete CollLinks ''b''),
      (2, CallGet CollLinks ''b''), (3, CallList CollLinks 0)]"


text \<open>
  The expiry condition is needed. An entry the dry run writes over an entry of the store
  uncovers the old one when it expires, where the store itself would show nothing: the write
  clears the mark that hides the key and leaves none when the entry lapses.
\<close>

theorem overlay_expiry_uncovers_base:
  "let base = mem_put_entry CollOrigins ''k'' ''old'' 0 NewMem;
       calls = [(1, CallPut CollOrigins ''k'' ''new'' 5), (6, CallGet CollOrigins ''k'')]
   in fst (run_calls mem_ops calls base) = [Done, Value None] \<and>
      fst (run_calls (overlay_ops mem_ops) calls (NewOverlay base)) = [Done, Value (Some ''old'')]"
  by code_simp

end
