(* ===== verification/Typed_Store.thy ===== *)
theory Typed_Store
  imports Overlay_Store Canonical "HOL-Library.Product_Lexorder"
begin

text \<open>
  \<^verbatim>\<open>internal/store/typed.go\<close>: the shapes the engine stores and their keys.

  What a store holds is JSON text. Here it is the document that text decodes to: one constructor
  of \<open>doc\<close> per Go struct that is marshalled, with the field values of a snapshot passed through
  \<^const>\<open>json_fields\<close>, which is what a JSON round trip does to them. Marshalling fails on a time
  whose year JSON cannot carry and on a value \<^const>\<open>json_ok\<close> refuses; both are branches of the
  model. Text is assumed to be valid UTF-8, which JSON keeps as it is.
\<close>

section \<open>Shapes\<close>

record ref =
  ref_connector :: string
  ref_kind :: string
  ref_remote_id :: string

definition ref_key :: "ref \<Rightarrow> string" where
  "ref_key r = ref_connector r @ nul # ref_kind r @ nul # ref_remote_id r"

definition ref_string :: "ref \<Rightarrow> string" where
  "ref_string r = ref_connector r @ '':'' @ ref_kind r @ ''/'' @ ref_remote_id r"

record link =
  l_left :: ref
  l_right :: ref
  l_linked_at :: gotime

definition Peer :: "link \<Rightarrow> ref \<Rightarrow> ref option" where
  "Peer l r =
     (if ref_key r = ref_key (l_left l) then Some (l_right l)
      else if ref_key r = ref_key (l_right l) then Some (l_left l)
      else None)"

record snapshot =
  sn_hash :: string
  sn_values :: fields
  sn_at :: gotime

definition no_snapshot :: snapshot where
  "no_snapshot = \<lparr>sn_hash = '''', sn_values = [], sn_at = zero_time\<rparr>"

record origin_entry =
  o_ref :: ref
  o_hash :: string
  o_written_at :: gotime

record idem_result =
  i_remote_id :: string
  i_created :: bool
  i_in_flight :: bool
  i_written_at :: gotime

definition no_result :: idem_result where
  "no_result = \<lparr>i_remote_id = '''', i_created = False, i_in_flight = False, i_written_at = zero_time\<rparr>"

record queue_item =
  q_id :: string
  q_sync :: string
  q_ref :: ref
  q_reason :: string
  q_created_at :: gotime
  q_attempts :: int
  q_payload :: val

datatype doc =
    DocLink link
  | DocNano int
  | DocSnapshot snapshot
  | DocOrigin origin_entry
  | DocIdem idem_result
  | DocQueue queue_item
  | DocRefs "ref list"
  | DocKeys "string list"

section \<open>Marshalling\<close>

abbreviation json_time :: "gotime \<Rightarrow> bool" where
  "json_time t \<equiv> json_ok (VTime t)"

fun marshals :: "doc \<Rightarrow> bool" where
  "marshals (DocLink l) = json_time (l_linked_at l)"
| "marshals (DocSnapshot s) = (json_fields_ok (sn_values s) \<and> json_time (sn_at s))"
| "marshals (DocOrigin e) = json_time (o_written_at e)"
| "marshals (DocIdem r) = json_time (i_written_at r)"
| "marshals (DocQueue q) = (json_time (q_created_at q) \<and> json_ok (q_payload q))"
| "marshals _ = True"

text \<open>What is read back of a document that was stored.\<close>

fun stored :: "doc \<Rightarrow> doc" where
  "stored (DocSnapshot s) = DocSnapshot (s\<lparr>sn_values := json_fields (sn_values s)\<rparr>)"
| "stored (DocQueue q) = DocQueue (q\<lparr>q_payload := json_val (q_payload q)\<rparr>)"
| "stored d = d"

definition put_doc ::
  "('s, doc) store_ops \<Rightarrow> string \<Rightarrow> gotime \<Rightarrow> string \<Rightarrow> string \<Rightarrow> doc \<Rightarrow> gotime \<Rightarrow>
     ('s, gerr, unit) st" where
  "put_doc ops what now c k d expires =
     (if \<not> marshals d then throw (ErrText what) else so_put ops now c k (stored d) expires)"

text \<open>Read a document and take it apart; a document of another shape fails to decode.\<close>

definition decode :: "string \<Rightarrow> (doc \<Rightarrow> 'a option) \<Rightarrow> doc option \<Rightarrow> ('s, gerr, 'a option) st" where
  "decode what f d =
     (case d of
        None \<Rightarrow> ret None
      | Some x \<Rightarrow> (case f x of Some y \<Rightarrow> ret (Some y) | None \<Rightarrow> throw (ErrText what)))"

fun as_link :: "doc \<Rightarrow> link option" where
  "as_link (DocLink l) = Some l" | "as_link _ = None"
fun as_nano :: "doc \<Rightarrow> int option" where
  "as_nano (DocNano n) = Some n" | "as_nano _ = None"
fun as_snapshot :: "doc \<Rightarrow> snapshot option" where
  "as_snapshot (DocSnapshot s) = Some s" | "as_snapshot _ = None"
fun as_origin :: "doc \<Rightarrow> origin_entry option" where
  "as_origin (DocOrigin e) = Some e" | "as_origin _ = None"
fun as_idem :: "doc \<Rightarrow> idem_result option" where
  "as_idem (DocIdem r) = Some r" | "as_idem _ = None"
fun as_queue :: "doc \<Rightarrow> queue_item option" where
  "as_queue (DocQueue q) = Some q" | "as_queue _ = None"

section \<open>Accessors\<close>

definition PutLink :: "('s, doc) store_ops \<Rightarrow> gotime \<Rightarrow> link \<Rightarrow> ('s, gerr, unit) st" where
  "PutLink ops now l =
     andThen (put_doc ops ''store: encode link'' now CollLinks (ref_key (l_left l)) (DocLink l) 0)
       (\<lambda>_. put_doc ops ''store: encode link'' now CollLinks (ref_key (l_right l)) (DocLink l) 0)"

definition GetLink :: "('s, doc) store_ops \<Rightarrow> gotime \<Rightarrow> ref \<Rightarrow> ('s, gerr, link option) st" where
  "GetLink ops now r =
     andThen (so_get ops now CollLinks (ref_key r)) (decode ''store: decode link'' as_link)"

definition DeleteLink :: "('s, doc) store_ops \<Rightarrow> gotime \<Rightarrow> link \<Rightarrow> ('s, gerr, unit) st" where
  "DeleteLink ops now l =
     andThen (so_delete ops now CollLinks (ref_key (l_left l)))
       (\<lambda>_. so_delete ops now CollLinks (ref_key (l_right l)))"

definition mark_key :: "string \<Rightarrow> string \<Rightarrow> string" where
  "mark_key connector kind = connector @ nul # kind"

definition Watermark ::
  "('s, doc) store_ops \<Rightarrow> gotime \<Rightarrow> string \<Rightarrow> string \<Rightarrow> ('s, gerr, gotime option) st" where
  "Watermark ops now connector kind =
     andThen (so_get ops now CollWatermarks (mark_key connector kind))
       (decode ''store: decode watermark'' (\<lambda>d. map_option from_unix_nano (as_nano d)))"

definition SetWatermark ::
  "('s, doc) store_ops \<Rightarrow> gotime \<Rightarrow> string \<Rightarrow> string \<Rightarrow> gotime \<Rightarrow> ('s, gerr, unit) st" where
  "SetWatermark ops now connector kind at =
     put_doc ops ''store: encode watermark'' now CollWatermarks (mark_key connector kind)
       (DocNano (unix_nano at)) 0"

definition Snapshot :: "('s, doc) store_ops \<Rightarrow> gotime \<Rightarrow> ref \<Rightarrow> ('s, gerr, snapshot option) st" where
  "Snapshot ops now r =
     andThen (so_get ops now CollSnapshots (ref_key r)) (decode ''store: decode snapshot'' as_snapshot)"

definition SetSnapshot :: "('s, doc) store_ops \<Rightarrow> gotime \<Rightarrow> ref \<Rightarrow> snapshot \<Rightarrow> ('s, gerr, unit) st" where
  "SetSnapshot ops now r snap =
     put_doc ops ''store: encode snapshot'' now CollSnapshots (ref_key r) (DocSnapshot snap) 0"

definition OriginTag :: "ref \<Rightarrow> string \<Rightarrow> string" where
  "OriginTag r hash = ref_key r @ nul # hash"

definition PutOrigin ::
  "('s, doc) store_ops \<Rightarrow> gotime \<Rightarrow> origin_entry \<Rightarrow> gotime \<Rightarrow> ('s, gerr, unit) st" where
  "PutOrigin ops now e expires =
     put_doc ops ''store: encode origin'' now CollOrigins (OriginTag (o_ref e) (o_hash e))
       (DocOrigin e) expires"

definition TakeOrigin ::
  "('s, doc) store_ops \<Rightarrow> gotime \<Rightarrow> ref \<Rightarrow> string \<Rightarrow> ('s, gerr, origin_entry option) st" where
  "TakeOrigin ops now r hash =
     andThen (so_take ops now CollOrigins (OriginTag r hash))
       (decode ''store: decode origin'' as_origin)"

definition Idem :: "('s, doc) store_ops \<Rightarrow> gotime \<Rightarrow> string \<Rightarrow> ('s, gerr, idem_result option) st" where
  "Idem ops now key = andThen (so_get ops now CollIdem key) (decode ''store: decode idem'' as_idem)"

definition PutIdem ::
  "('s, doc) store_ops \<Rightarrow> gotime \<Rightarrow> string \<Rightarrow> idem_result \<Rightarrow> gotime \<Rightarrow> ('s, gerr, unit) st" where
  "PutIdem ops now key r expires =
     put_doc ops ''store: encode idem'' now CollIdem key (DocIdem r) expires"

definition SeenDelivery ::
  "('s, doc) store_ops \<Rightarrow> gotime \<Rightarrow> string \<Rightarrow> string \<Rightarrow> gotime \<Rightarrow> gotime \<Rightarrow> ('s, gerr, bool) st" where
  "SeenDelivery ops now connector deliveryID at expires =
     (let key = connector @ nul # deliveryID
      in andThen (so_get ops now CollDeliveries key)
           (\<lambda>seen. if seen \<noteq> None then ret True
                    else andThen (put_doc ops ''store: encode delivery'' now CollDeliveries key
                                   (DocNano (unix_nano at)) expires) (\<lambda>_. ret False)))"

text \<open>\<^verbatim>\<open>%020d-%010d\<close>\<close>

definition NewQueueID :: "gotime \<Rightarrow> int \<Rightarrow> string" where
  "NewQueueID at seq = zero_pad_int 20 (unix_nano at) @ ''-'' @ zero_pad_int 10 seq"

definition PutQueueItem ::
  "('s, doc) store_ops \<Rightarrow> gotime \<Rightarrow> string \<Rightarrow> queue_item \<Rightarrow> ('s, gerr, unit) st" where
  "PutQueueItem ops now c item =
     put_doc ops ''store: encode queue item'' now c (q_id item) (DocQueue item) 0"

definition GetQueueItem ::
  "('s, doc) store_ops \<Rightarrow> gotime \<Rightarrow> string \<Rightarrow> string \<Rightarrow> ('s, gerr, queue_item option) st" where
  "GetQueueItem ops now c key =
     andThen (so_get ops now c key) (decode ''store: decode queue item'' as_queue)"

text \<open>The decode loop: the first entry that is not a queue item fails the listing.\<close>

fun decode_items :: "doc entry list \<Rightarrow> gerr + queue_item list" where
  "decode_items [] = Inr []"
| "decode_items (e # es) =
     (case as_queue (e_value e) of
        None \<Rightarrow> Inl (ErrText (''store: decode queue item '' @ e_key e))
      | Some q \<Rightarrow> (case decode_items es of Inl x \<Rightarrow> Inl x | Inr qs \<Rightarrow> Inr (q # qs)))"

definition ListQueueItems ::
  "('s, doc) store_ops \<Rightarrow> gotime \<Rightarrow> string \<Rightarrow> int \<Rightarrow> ('s, gerr, queue_item list) st" where
  "ListQueueItems ops now c limit =
     andThen (so_list ops now c 0)
       (\<lambda>es. case decode_items es of
               Inl e \<Rightarrow> throw e
             | Inr qs \<Rightarrow> ret (limited limit (sort_key (\<lambda>q. (q_created_at q, q_id q)) qs)))"

definition DeleteQueueItem ::
  "('s, doc) store_ops \<Rightarrow> gotime \<Rightarrow> string \<Rightarrow> string \<Rightarrow> ('s, gerr, unit) st" where
  "DeleteQueueItem ops now c key = so_delete ops now c key"

section \<open>Keys\<close>

text \<open>
  A ref's key joins its parts with NUL bytes. A connector name and a kind come from configuration
  and hold none; a remote identifier may be any text.
\<close>

definition wf_ref :: "ref \<Rightarrow> bool" where
  "wf_ref r \<longleftrightarrow> nul \<notin> set (ref_connector r) \<and> nul \<notin> set (ref_kind r)"

lemma ref_key_inj: "wf_ref r \<Longrightarrow> wf_ref s \<Longrightarrow> ref_key r = ref_key s \<longleftrightarrow> r = s"
  by (cases r; cases s) (auto simp: wf_ref_def ref_key_def sep_eq_iff)

text \<open>The hash is a hex digest or the recent marker: it holds no NUL, so the split is at the last one.\<close>

lemma OriginTag_inj:
  assumes "wf_ref r" "wf_ref s" "nul \<notin> set h" "nul \<notin> set g"
  shows "OriginTag r h = OriginTag s g \<longleftrightarrow> r = s \<and> h = g"
proof
  assume "OriginTag r h = OriginTag s g"
  then have "rev h @ nul # rev (ref_key r) = rev g @ nul # rev (ref_key s)"
    by (metis OriginTag_def rev.simps(2) rev_append append.assoc append_Cons append_Nil)
  then have "rev h = rev g \<and> rev (ref_key r) = rev (ref_key s)"
    by (subst (asm) sep_eq_iff) (simp_all add: assms)
  with assms ref_key_inj show "r = s \<and> h = g" by simp
qed simp

section \<open>The accessors over any store\<close>

fun as_refs :: "doc \<Rightarrow> ref list option" where
  "as_refs (DocRefs rs) = Some rs" | "as_refs _ = None"
fun as_keys :: "doc \<Rightarrow> string list option" where
  "as_keys (DocKeys ks) = Some ks" | "as_keys _ = None"

lemma stored_simps [simp]:
  "as_link (stored d) = as_link d" "as_nano (stored d) = as_nano d"
  "as_origin (stored d) = as_origin d" "as_idem (stored d) = as_idem d"
  "as_refs (stored d) = as_refs d" "as_keys (stored d) = as_keys d"
  "as_snapshot (stored d) = None \<longleftrightarrow> as_snapshot d = None"
  "as_queue (stored d) = None \<longleftrightarrow> as_queue d = None"
  by (cases d; simp)+

lemma decode_simps [simp]:
  "decode w f None s = (Inr None, s)"
  "f d = Some y \<Longrightarrow> decode w f (Some d) s = (Inr (Some y), s)"
  by (simp_all add: decode_def)

text \<open>The document type each collection holds.\<close>

definition fits :: "string \<Rightarrow> doc \<Rightarrow> bool" where
  "fits c d \<longleftrightarrow>
     (c = CollLinks \<longrightarrow> as_link d \<noteq> None) \<and>
     (c = CollWatermarks \<or> c = CollDeliveries \<longrightarrow> as_nano d \<noteq> None) \<and>
     (c = CollSnapshots \<longrightarrow> as_snapshot d \<noteq> None) \<and>
     (c = CollOrigins \<longrightarrow> as_origin d \<noteq> None) \<and>
     (c = CollIdem \<longrightarrow> as_idem d \<noteq> None) \<and>
     (c = CollDLQ \<or> c = CollReview \<longrightarrow> as_queue d \<noteq> None) \<and>
     (c = CollKeys \<longrightarrow> as_refs d \<noteq> None) \<and>
     (c = CollKeyOwner \<longrightarrow> as_keys d \<noteq> None)"

lemma fits_stored [simp]: "fits c (stored d) = fits c d"
  unfolding fits_def by (simp only: stored_simps)

lemma colls_differ [simp]:
  "CollLinks \<noteq> CollWatermarks" "CollLinks \<noteq> CollSnapshots" "CollLinks \<noteq> CollOrigins"
  "CollLinks \<noteq> CollIdem" "CollLinks \<noteq> CollDeliveries" "CollLinks \<noteq> CollDLQ" "CollLinks \<noteq> CollReview"
  "CollLinks \<noteq> CollKeys" "CollLinks \<noteq> CollKeyOwner" "CollWatermarks \<noteq> CollSnapshots"
  "CollWatermarks \<noteq> CollOrigins" "CollWatermarks \<noteq> CollIdem" "CollWatermarks \<noteq> CollDeliveries"
  "CollWatermarks \<noteq> CollDLQ" "CollWatermarks \<noteq> CollReview" "CollWatermarks \<noteq> CollKeys"
  "CollWatermarks \<noteq> CollKeyOwner" "CollSnapshots \<noteq> CollOrigins" "CollSnapshots \<noteq> CollIdem"
  "CollSnapshots \<noteq> CollDeliveries" "CollSnapshots \<noteq> CollDLQ" "CollSnapshots \<noteq> CollReview"
  "CollSnapshots \<noteq> CollKeys" "CollSnapshots \<noteq> CollKeyOwner" "CollOrigins \<noteq> CollIdem"
  "CollOrigins \<noteq> CollDeliveries" "CollOrigins \<noteq> CollDLQ" "CollOrigins \<noteq> CollReview"
  "CollOrigins \<noteq> CollKeys" "CollOrigins \<noteq> CollKeyOwner" "CollIdem \<noteq> CollDeliveries"
  "CollIdem \<noteq> CollDLQ" "CollIdem \<noteq> CollReview" "CollIdem \<noteq> CollKeys" "CollIdem \<noteq> CollKeyOwner"
  "CollDeliveries \<noteq> CollDLQ" "CollDeliveries \<noteq> CollReview" "CollDeliveries \<noteq> CollKeys"
  "CollDeliveries \<noteq> CollKeyOwner" "CollDLQ \<noteq> CollReview" "CollDLQ \<noteq> CollKeys"
  "CollDLQ \<noteq> CollKeyOwner" "CollReview \<noteq> CollKeys" "CollReview \<noteq> CollKeyOwner"
  "CollKeys \<noteq> CollKeyOwner"
  by (simp_all add: coll_defs)

declare colls_differ [symmetric, simp]

lemma fits_simps [simp]:
  "fits CollLinks d \<longleftrightarrow> as_link d \<noteq> None"
  "fits CollWatermarks d \<longleftrightarrow> as_nano d \<noteq> None" "fits CollDeliveries d \<longleftrightarrow> as_nano d \<noteq> None"
  "fits CollSnapshots d \<longleftrightarrow> as_snapshot d \<noteq> None" "fits CollOrigins d \<longleftrightarrow> as_origin d \<noteq> None"
  "fits CollIdem d \<longleftrightarrow> as_idem d \<noteq> None"
  "fits CollDLQ d \<longleftrightarrow> as_queue d \<noteq> None" "fits CollReview d \<longleftrightarrow> as_queue d \<noteq> None"
  "fits CollKeys d \<longleftrightarrow> as_refs d \<noteq> None" "fits CollKeyOwner d \<longleftrightarrow> as_keys d \<noteq> None"
  by (simp_all add: fits_def)

locale doc_store = kv_store_strict ops view ok
  for ops :: "('s, doc) store_ops" and view ok
begin

text \<open>An open store whose collections hold the documents they are for.\<close>

definition good :: "'s \<Rightarrow> bool" where
  "good s \<longleftrightarrow> ok s \<and> (\<forall>t c k d. coll_name c \<longrightarrow> view s t c k = Some d \<longrightarrow> fits c d)"

text \<open>Only the named keys may have changed.\<close>

definition only_at :: "(string \<times> string) set \<Rightarrow> 's \<Rightarrow> 's \<Rightarrow> bool" where
  "only_at K s s' \<longleftrightarrow>
     (\<forall>t c k. coll_name c \<longrightarrow> (c, k) \<notin> K \<longrightarrow> view s' t c k = view s t c k)"

lemma good_ok: "good s \<Longrightarrow> ok s"
  by (simp add: good_def)

lemma good_fits: "good s \<Longrightarrow> coll_name c \<Longrightarrow> view s t c k = Some d \<Longrightarrow> fits c d"
  by (simp add: good_def)

lemma only_at_refl [simp]: "only_at K s s"
  by (simp add: only_at_def)

lemma only_at_trans: "only_at K s s' \<Longrightarrow> only_at L s' s'' \<Longrightarrow> only_at (K \<union> L) s s''"
  by (simp add: only_at_def)

lemma only_at_mono: "only_at K s s' \<Longrightarrow> K \<subseteq> L \<Longrightarrow> only_at L s s'"
  by (auto simp: only_at_def)

lemma only_atD: "only_at K s s' \<Longrightarrow> coll_name c \<Longrightarrow> (c, k) \<notin> K \<Longrightarrow> view s' t c k = view s t c k"
  by (simp add: only_at_def)

lemma good_only_at:
  assumes "good s" "ok s'" "only_at {(c, k)} s s'" "\<And>t d. view s' t c k = Some d \<Longrightarrow> fits c d"
  shows "good s'"
  unfolding good_def
proof (intro conjI allI impI)
  fix t c' k' d assume "coll_name c'" "view s' t c' k' = Some d"
  then show "fits c' d"
    using assms(3,4) good_fits [OF assms(1), of c' t k' d]
    by (cases "(c', k') = (c, k)") (auto simp: only_at_def)
qed (rule assms(2))

lemma put_doc_ok:
  assumes "good s" "coll_name c" "marshals d" "fits c d"
  obtains s' where "put_doc ops w now c k d e s = (Inr (), s')" "good s'" "only_at {(c, k)} s s'"
    "\<And>t. view s' t c k = (if live e t then Some (stored d) else None)"
proof -
  from put [OF good_ok [OF assms(1)] assms(2), of now k "stored d" e] obtain s' where
    s': "so_put ops now c k (stored d) e s = (Inr (), s')" "ok s'"
      "\<And>t. live e t \<Longrightarrow> view s' t c k = Some (stored d)"
      "\<And>t c' k'. coll_name c' \<Longrightarrow> (c', k') \<noteq> (c, k) \<Longrightarrow> view s' t c' k' = view s t c' k'" by blast
  have v: "view s' t c k = (if live e t then Some (stored d) else None)" for t
    using s'(3) put_expired [OF good_ok [OF assms(1)], of e t now c k "stored d"] s'(1) by simp
  have o: "only_at {(c, k)} s s'" using s'(4) by (auto simp: only_at_def)
  have "good s'" by (rule good_only_at [OF assms(1) s'(2) o]) (auto simp: v assms(4) split: if_splits)
  with s'(1) v o assms(3) that show thesis by (simp add: put_doc_def)
qed

lemma delete_ok:
  assumes "good s" "coll_name c"
  obtains s' where "so_delete ops now c k s = (Inr (), s')" "good s'" "only_at {(c, k)} s s'"
    "\<And>t. view s' t c k = None"
proof -
  from delete [OF good_ok [OF assms(1)] assms(2), of now k] obtain s' where
    s': "so_delete ops now c k s = (Inr (), s')" "ok s'" "\<And>t. view s' t c k = None"
      "only_at {(c, k)} s s'" by (auto simp: only_at_def)
  moreover have "good s'" by (rule good_only_at [OF assms(1) s'(2,4)]) (simp add: s'(3))
  ultimately show thesis using that by blast
qed

lemma take_ok:
  assumes "good s" "coll_name c"
  obtains s' where "so_take ops now c k s = (Inr (view s now c k), s')" "good s'"
    "only_at {(c, k)} s s'" "\<And>t. view s' t c k = None"
proof -
  from take [OF good_ok [OF assms(1)] assms(2), of now k] obtain s' where
    s': "so_take ops now c k s = (Inr (view s now c k), s')" "ok s'" "only_at {(c, k)} s s'"
    by (auto simp: only_at_def)
  have v: "view s' t c k = None" for t
    using take_gone [OF good_ok [OF assms(1)] assms(2), of now k t] s'(1) by simp
  have "good s'" by (rule good_only_at [OF assms(1) s'(2,3)]) (simp add: v)
  with s' v that show thesis by blast
qed

lemma get_decode:
  assumes "good s"
  shows "andThen (so_get ops now c k) (decode w f) s = decode w f (view s now c k) s"
  by (simp add: andThen_def get [OF good_ok [OF assms]])

lemma decode_view:
  assumes "good s" "coll_name c" "\<And>d. fits c d \<Longrightarrow> f d \<noteq> None"
  shows "decode w f (view s t c k) s' = (Inr (Option.bind (view s t c k) f), s')"
proof (cases "view s t c k")
  case (Some d)
  with assms good_fits [OF assms(1,2)] obtain y where "f d = Some y" by blast
  with Some show ?thesis by simp
qed simp

text \<open>What the link table shows for a ref.\<close>

definition linked :: "'s \<Rightarrow> gotime \<Rightarrow> ref \<Rightarrow> link option" where
  "linked s now r = Option.bind (view s now CollLinks (ref_key r)) as_link"

lemma GetLink_ok: "good s \<Longrightarrow> GetLink ops now r s = (Inr (linked s now r), s)"
  unfolding GetLink_def linked_def get_decode by (rule decode_view) simp_all

lemma PutLink_ok:
  assumes "good s" "json_time (l_linked_at l)"
  obtains s' where "PutLink ops now l s = (Inr (), s')" "good s'"
    "only_at {(CollLinks, ref_key (l_left l)), (CollLinks, ref_key (l_right l))} s s'"
    "\<And>t. view s' t CollLinks (ref_key (l_left l)) = Some (DocLink l)"
    "\<And>t. view s' t CollLinks (ref_key (l_right l)) = Some (DocLink l)"
proof -
  have m: "marshals (DocLink l)" "fits CollLinks (DocLink l)" using assms(2) by simp_all
  obtain s1 where s1: "put_doc ops ''store: encode link'' now CollLinks (ref_key (l_left l)) (DocLink l) 0 s
      = (Inr (), s1)" "good s1" "only_at {(CollLinks, ref_key (l_left l))} s s1"
    "\<And>t. view s1 t CollLinks (ref_key (l_left l)) = Some (DocLink l)"
    by (rule put_doc_ok [OF assms(1) coll_name_simps(2) m, of "''store: encode link''" now
          "ref_key (l_left l)" 0]) auto
  obtain s2 where s2: "put_doc ops ''store: encode link'' now CollLinks (ref_key (l_right l)) (DocLink l) 0 s1
      = (Inr (), s2)" "good s2" "only_at {(CollLinks, ref_key (l_right l))} s1 s2"
    "\<And>t. view s2 t CollLinks (ref_key (l_right l)) = Some (DocLink l)"
    by (rule put_doc_ok [OF s1(2) coll_name_simps(2) m, of "''store: encode link''" now
          "ref_key (l_right l)" 0]) auto
  have "view s2 t CollLinks (ref_key (l_left l)) = Some (DocLink l)" for t
    using s1(4) s2(3,4) by (cases "ref_key (l_left l) = ref_key (l_right l)") (auto simp: only_at_def)
  moreover have "only_at {(CollLinks, ref_key (l_left l)), (CollLinks, ref_key (l_right l))} s s2"
    by (rule only_at_mono [OF only_at_trans [OF s1(3) s2(3)]]) auto
  moreover have "PutLink ops now l s = (Inr (), s2)"
    using s1(1) s2(1) by (simp add: PutLink_def andThen_def)
  ultimately show thesis using s2(2,4) that by blast
qed

lemma DeleteLink_ok:
  assumes "good s"
  obtains s' where "DeleteLink ops now l s = (Inr (), s')" "good s'"
    "only_at {(CollLinks, ref_key (l_left l)), (CollLinks, ref_key (l_right l))} s s'"
    "\<And>t. view s' t CollLinks (ref_key (l_left l)) = None"
    "\<And>t. view s' t CollLinks (ref_key (l_right l)) = None"
proof -
  obtain s1 where s1: "so_delete ops now CollLinks (ref_key (l_left l)) s = (Inr (), s1)" "good s1"
    "only_at {(CollLinks, ref_key (l_left l))} s s1"
    "\<And>t. view s1 t CollLinks (ref_key (l_left l)) = None"
    by (rule delete_ok [OF assms coll_name_simps(2), of now "ref_key (l_left l)"]) auto
  obtain s2 where s2: "so_delete ops now CollLinks (ref_key (l_right l)) s1 = (Inr (), s2)" "good s2"
    "only_at {(CollLinks, ref_key (l_right l))} s1 s2"
    "\<And>t. view s2 t CollLinks (ref_key (l_right l)) = None"
    by (rule delete_ok [OF s1(2) coll_name_simps(2), of now "ref_key (l_right l)"]) auto
  have "view s2 t CollLinks (ref_key (l_left l)) = None" for t
    using s1(4) s2(3,4) by (cases "ref_key (l_left l) = ref_key (l_right l)") (auto simp: only_at_def)
  moreover have "only_at {(CollLinks, ref_key (l_left l)), (CollLinks, ref_key (l_right l))} s s2"
    by (rule only_at_mono [OF only_at_trans [OF s1(3) s2(3)]]) auto
  moreover have "DeleteLink ops now l s = (Inr (), s2)"
    using s1(1) s2(1) by (simp add: DeleteLink_def andThen_def)
  ultimately show thesis using s2(2,4) that by blast
qed

text \<open>A snapshot is read back with its values as JSON returns them.\<close>

definition snapped :: "'s \<Rightarrow> gotime \<Rightarrow> ref \<Rightarrow> snapshot option" where
  "snapped s now r = Option.bind (view s now CollSnapshots (ref_key r)) as_snapshot"

lemma Snapshot_ok: "good s \<Longrightarrow> Snapshot ops now r s = (Inr (snapped s now r), s)"
  unfolding Snapshot_def snapped_def get_decode by (rule decode_view) simp_all

lemma SetSnapshot_ok:
  assumes "good s" "json_fields_ok (sn_values snap)" "json_time (sn_at snap)"
  obtains s' where "SetSnapshot ops now r snap s = (Inr (), s')" "good s'"
    "only_at {(CollSnapshots, ref_key r)} s s'"
    "\<And>t. snapped s' t r = Some (snap\<lparr>sn_values := json_fields (sn_values snap)\<rparr>)"
proof -
  have m: "marshals (DocSnapshot snap)" "fits CollSnapshots (DocSnapshot snap)"
    using assms(2,3) by simp_all
  obtain s' where "SetSnapshot ops now r snap s = (Inr (), s')" "good s'"
    "only_at {(CollSnapshots, ref_key r)} s s'"
    "\<And>t. view s' t CollSnapshots (ref_key r) = Some (stored (DocSnapshot snap))"
    unfolding SetSnapshot_def
    by (rule put_doc_ok [OF assms(1) coll_name_simps(3) m, of "''store: encode snapshot''" now
          "ref_key r" 0]) auto
  with that show thesis by (simp add: snapped_def)
qed

text \<open>A delivery is reported new once, and seen until its entry expires.\<close>

lemma delivery_seen_once:
  assumes "good s" "live e t" "view s now CollDeliveries (c @ nul # d) = None"
  shows "\<exists>s'. SeenDelivery ops now c d at e s = (Inr False, s') \<and>
    SeenDelivery ops t c d at' e' s' = (Inr True, s')"
proof -
  obtain s' where s': "put_doc ops ''store: encode delivery'' now CollDeliveries (c @ nul # d)
      (DocNano (unix_nano at)) e s = (Inr (), s')" "good s'"
    "\<And>t. live e t \<Longrightarrow> view s' t CollDeliveries (c @ nul # d) = Some (DocNano (unix_nano at))"
    by (rule put_doc_ok [OF assms(1) coll_name_simps(6), of "DocNano (unix_nano at)"
          "''store: encode delivery''" now "c @ nul # d" e]) auto
  then show ?thesis using assms
    by (intro exI [of _ s']) (simp add: SeenDelivery_def Let_def andThen_def get good_ok)
qed

end

interpretation mem_docs: doc_store mem_ops mem_view mem_ok
  by unfold_locales

lemma good_NewMem [simp]: "mem_docs.good NewMem"
  by (simp add: mem_docs.good_def)

section \<open>Properties\<close>

definition example_ref :: "string \<Rightarrow> string \<Rightarrow> ref" where
  "example_ref connector rid = \<lparr>ref_connector = connector, ref_kind = ''contact'', ref_remote_id = rid\<rparr>"

definition example_link :: link where
  "example_link =
     \<lparr>l_left = example_ref ''hub'' ''1'', l_right = example_ref ''sales'' ''7'',
      l_linked_at = unix_epoch\<rparr>"

lemma example_ref_wf: "nul \<notin> set connector \<Longrightarrow> wf_ref (example_ref connector rid)"
  by (simp add: wf_ref_def example_ref_def)

text \<open>
  A link is found from either of its records at any later time, and names the other one as
  the peer; after it is deleted neither record finds it. The links of other records are not
  affected by either call.
\<close>

theorem link_roundtrip:
  assumes "mem_docs.good s" and "json_time (l_linked_at l)"
    and "wf_ref (l_left l)" and "wf_ref (l_right l)" and "l_left l \<noteq> l_right l"
  shows "\<exists>s' s''. PutLink mem_ops now l s = (Inr (), s') \<and>
    GetLink mem_ops t (l_left l) s' = (Inr (Some l), s') \<and>
    GetLink mem_ops t (l_right l) s' = (Inr (Some l), s') \<and>
    Peer l (l_left l) = Some (l_right l) \<and> Peer l (l_right l) = Some (l_left l) \<and>
    DeleteLink mem_ops now l s' = (Inr (), s'') \<and>
    GetLink mem_ops t (l_left l) s'' = (Inr None, s'') \<and>
    GetLink mem_ops t (l_right l) s'' = (Inr None, s'') \<and>
    (\<forall>r. wf_ref r \<longrightarrow> r \<noteq> l_left l \<longrightarrow> r \<noteq> l_right l \<longrightarrow>
       fst (GetLink mem_ops t r s') = fst (GetLink mem_ops t r s) \<and>
       fst (GetLink mem_ops t r s'') = fst (GetLink mem_ops t r s))"
proof -
  obtain s' where s': "PutLink mem_ops now l s = (Inr (), s')" "mem_docs.good s'"
    "mem_docs.only_at {(CollLinks, ref_key (l_left l)), (CollLinks, ref_key (l_right l))} s s'"
    "\<And>t. mem_view s' t CollLinks (ref_key (l_left l)) = Some (DocLink l)"
    "\<And>t. mem_view s' t CollLinks (ref_key (l_right l)) = Some (DocLink l)"
    by (rule mem_docs.PutLink_ok [OF assms(1,2), of now]) auto
  obtain s'' where s'': "DeleteLink mem_ops now l s' = (Inr (), s'')" "mem_docs.good s''"
    "mem_docs.only_at {(CollLinks, ref_key (l_left l)), (CollLinks, ref_key (l_right l))} s' s''"
    "\<And>t. mem_view s'' t CollLinks (ref_key (l_left l)) = None"
    "\<And>t. mem_view s'' t CollLinks (ref_key (l_right l)) = None"
    by (rule mem_docs.DeleteLink_ok [OF s'(2), of now l]) auto
  have other: "mem_docs.linked s' t r = mem_docs.linked s t r \<and>
      mem_docs.linked s'' t r = mem_docs.linked s t r"
    if "wf_ref r" "r \<noteq> l_left l" "r \<noteq> l_right l" for r
    using that assms(3,4) s'(3) s''(3)
    by (simp add: mem_docs.linked_def mem_docs.only_at_def ref_key_inj)
  have "ref_key (l_right l) \<noteq> ref_key (l_left l)" using assms(3-5) by (simp add: ref_key_inj)
  then have "Peer l (l_left l) = Some (l_right l)" "Peer l (l_right l) = Some (l_left l)"
    by (simp_all add: Peer_def)
  with s' s'' other assms(1) show ?thesis
    by (intro exI [of _ s'] exI [of _ s''])
       (simp add: mem_docs.GetLink_ok, simp add: mem_docs.linked_def)
qed

theorem link_roundtrip_witness:
  "\<exists>s'. PutLink mem_ops 5 example_link NewMem = (Inr (), s') \<and>
    GetLink mem_ops 9 (example_ref ''sales'' ''7'') s' = (Inr (Some example_link), s')"
proof -
  have j: "json_time (l_linked_at example_link)" by code_simp
  have w: "wf_ref (l_left example_link)" "wf_ref (l_right example_link)"
    "l_left example_link \<noteq> l_right example_link" by code_simp+
  show ?thesis using link_roundtrip [OF good_NewMem j w, of 5 9]
    by (auto simp: example_link_def)
qed

end
