(* ===== verification/Origin.thy ===== *)
theory Origin
  imports Typed_Store
begin

text \<open>
  \<^verbatim>\<open>internal/origin/origin.go\<close>: recognising the engine's own writes when they come back.
  The state of the suppressor is the store together with its counters.
\<close>

section \<open>The suppressor\<close>

definition recentMarker :: string where
  "recentMarker = ''*recent''"

datatype verdict = Foreign | Echo | NearMiss

definition verdict_string :: "verdict \<Rightarrow> string" where
  "verdict_string v = (case v of Echo \<Rightarrow> ''echo'' | NearMiss \<Rightarrow> ''near_miss'' | Foreign \<Rightarrow> ''foreign'')"

definition Processed :: "verdict \<Rightarrow> bool" where
  "Processed v \<longleftrightarrow> v \<noteq> Echo"

record origin_stats =
  os_foreign :: int
  os_echoes :: int
  os_near_miss :: int
  os_recorded :: int
  os_swept :: int
  os_unmatched :: int

definition no_origin_stats :: origin_stats where
  "no_origin_stats =
     \<lparr>os_foreign = 0, os_echoes = 0, os_near_miss = 0, os_recorded = 0, os_swept = 0,
      os_unmatched = 0\<rparr>"

definition Window :: "(string, duration) gomap \<Rightarrow> string \<Rightarrow> duration" where
  "Window window connector =
     (case map_of window connector of
        Some d \<Rightarrow> if d > 0 then d else 5 * minute
      | None \<Rightarrow> 5 * minute)"

definition Record ::
  "('s, doc) store_ops \<Rightarrow> (string, duration) gomap \<Rightarrow> gotime \<Rightarrow> ref \<Rightarrow> string \<Rightarrow>
     ('s \<times> origin_stats, gerr, unit) st" where
  "Record ops window now r hash =
     (let expires = now + Window window (ref_connector r)
      in andThen (on_fst (PutOrigin ops now \<lparr>o_ref = r, o_hash = hash, o_written_at = now\<rparr> expires))
        (\<lambda>_. andThen (on_fst (PutOrigin ops now
                         \<lparr>o_ref = r, o_hash = recentMarker, o_written_at = now\<rparr> expires))
        (\<lambda>_. count (\<lambda>st. st\<lparr>os_recorded := os_recorded st + 1\<rparr>))))"

definition wroteRecently :: "('s, doc) store_ops \<Rightarrow> gotime \<Rightarrow> ref \<Rightarrow> ('s, gerr, bool) st" where
  "wroteRecently ops now r =
     andThen (so_get ops now CollOrigins (OriginTag r recentMarker)) (\<lambda>v. ret (v \<noteq> None))"

definition Classify ::
  "('s, doc) store_ops \<Rightarrow> gotime \<Rightarrow> ref \<Rightarrow> string \<Rightarrow> ('s \<times> origin_stats, gerr, verdict) st" where
  "Classify ops now r hash =
     andThen (on_fst (TakeOrigin ops now r hash)) (\<lambda>taken.
       if taken \<noteq> None then
         andThen (count (\<lambda>st. st\<lparr>os_echoes := os_echoes st + 1\<rparr>)) (\<lambda>_. ret Echo)
       else
         andThen (on_fst (wroteRecently ops now r)) (\<lambda>recent.
           if recent then
             andThen (count (\<lambda>st. st\<lparr>os_near_miss := os_near_miss st + 1\<rparr>)) (\<lambda>_. ret NearMiss)
           else
             andThen (count (\<lambda>st. st\<lparr>os_foreign := os_foreign st + 1\<rparr>)) (\<lambda>_. ret Foreign)))"

definition Sweep :: "('s, doc) store_ops \<Rightarrow> gotime \<Rightarrow> ('s \<times> origin_stats, gerr, int) st" where
  "Sweep ops now =
     andThen (on_fst (so_sweep ops now))
       (\<lambda>n. andThen (count (\<lambda>st. st\<lparr>os_swept := os_swept st + n\<rparr>)) (\<lambda>_. ret n))"

section \<open>The write log over any store\<close>

lemma Window_pos: "0 < Window window c"
  by (auto simp: Window_def split: option.split)

lemma recentMarker_nul: "nul \<notin> set recentMarker"
  by (simp add: recentMarker_def)

context doc_store
begin

text \<open>What the write log shows for a payload at a time.\<close>

definition tagged :: "'s \<Rightarrow> gotime \<Rightarrow> ref \<Rightarrow> string \<Rightarrow> bool" where
  "tagged s now r h \<longleftrightarrow> view s now CollOrigins (OriginTag r h) \<noteq> None"

lemma tagged_only_at:
  "only_at K s s' \<Longrightarrow> (CollOrigins, OriginTag r h) \<notin> K \<Longrightarrow> tagged s' t r h = tagged s t r h"
  by (simp add: tagged_def only_at_def)

lemma PutOrigin_ok:
  assumes "good s" "json_time (o_written_at e)"
  obtains s' where "PutOrigin ops now e x s = (Inr (), s')" "good s'"
    "only_at {(CollOrigins, OriginTag (o_ref e) (o_hash e))} s s'"
    "\<And>t. tagged s' t (o_ref e) (o_hash e) = live x t"
proof -
  have m: "marshals (DocOrigin e)" "fits CollOrigins (DocOrigin e)" using assms(2) by simp_all
  obtain s' where "PutOrigin ops now e x s = (Inr (), s')" "good s'"
    "only_at {(CollOrigins, OriginTag (o_ref e) (o_hash e))} s s'"
    "\<And>t. view s' t CollOrigins (OriginTag (o_ref e) (o_hash e)) =
      (if live x t then Some (stored (DocOrigin e)) else None)"
    unfolding PutOrigin_def
    by (rule put_doc_ok [OF assms(1) coll_name_simps(4) m, of "''store: encode origin''"
          now "OriginTag (o_ref e) (o_hash e)" x]) auto
  with that show thesis by (simp add: tagged_def)
qed

text \<open>Recording a write leaves the payload tag and the recent marker, both for the window.\<close>

lemma Record_ok:
  assumes "good s" "json_time now"
  obtains s' where
    "Record ops window now r h (s, st) = (Inr (), (s', st\<lparr>os_recorded := os_recorded st + 1\<rparr>))"
    "good s'"
    "only_at {(CollOrigins, OriginTag r h), (CollOrigins, OriginTag r recentMarker)} s s'"
    "\<And>t. tagged s' t r h = live (now + Window window (ref_connector r)) t"
    "\<And>t. tagged s' t r recentMarker = live (now + Window window (ref_connector r)) t"
proof -
  let ?x = "now + Window window (ref_connector r)"
  let ?e = "\<lparr>o_ref = r, o_hash = h, o_written_at = now\<rparr>"
  let ?m = "\<lparr>o_ref = r, o_hash = recentMarker, o_written_at = now\<rparr>"
  obtain s1 where s1: "PutOrigin ops now ?e ?x s = (Inr (), s1)" "good s1"
    "only_at {(CollOrigins, OriginTag r h)} s s1" "\<And>t. tagged s1 t r h = live ?x t"
    by (rule PutOrigin_ok [OF assms(1), of ?e now ?x]) (use assms(2) in auto)
  obtain s2 where s2: "PutOrigin ops now ?m ?x s1 = (Inr (), s2)" "good s2"
    "only_at {(CollOrigins, OriginTag r recentMarker)} s1 s2"
    "\<And>t. tagged s2 t r recentMarker = live ?x t"
    by (rule PutOrigin_ok [OF s1(2), of ?m now ?x]) (use assms(2) in auto)
  show thesis
  proof (rule that [OF _ s2(2)])
    show "Record ops window now r h (s, st) = (Inr (), (s2, st\<lparr>os_recorded := os_recorded st + 1\<rparr>))"
      using s1(1) s2(1) by (simp add: Record_def andThen_def Let_def)
    show "only_at {(CollOrigins, OriginTag r h), (CollOrigins, OriginTag r recentMarker)} s s2"
      by (rule only_at_mono [OF only_at_trans [OF s1(3) s2(3)]]) auto
    show "tagged s2 t r h = live ?x t" for t
      using s1(4) s2(4) tagged_only_at [OF s2(3), of r h t]
      by (cases "OriginTag r h = OriginTag r recentMarker") (auto simp: tagged_def)
  qed (rule s2(4))
qed

lemma Classify_ok:
  assumes "good s"
  obtains s' st' where "good s'" "only_at {(CollOrigins, OriginTag r h)} s s'"
    "\<And>t. \<not> tagged s' t r h"
    "Classify ops now r h (s, st) =
       (Inr (if tagged s now r h then Echo
             else if tagged s' now r recentMarker then NearMiss else Foreign), (s', st'))"
proof -
  let ?k = "OriginTag r h"
  obtain s' where s': "so_take ops now CollOrigins ?k s = (Inr (view s now CollOrigins ?k), s')"
    "good s'" "only_at {(CollOrigins, ?k)} s s'" "\<And>t. view s' t CollOrigins ?k = None"
    by (rule take_ok [OF assms(1) coll_name_simps(4), of now ?k]) auto
  have fit: "view s now CollOrigins ?k = Some d \<Longrightarrow> as_origin d \<noteq> None" for d
    using good_fits [OF assms coll_name_simps(4)] by simp
  have "decode ''store: decode origin'' as_origin (view s now CollOrigins ?k) s' =
      (Inr (Option.bind (view s now CollOrigins ?k) as_origin), s')"
    by (rule decode_view [OF assms]) simp_all
  then have t: "TakeOrigin ops now r h s = (Inr (Option.bind (view s now CollOrigins ?k) as_origin), s')"
    using s'(1) by (simp add: TakeOrigin_def andThen_def)
  have b: "Option.bind (view s now CollOrigins ?k) as_origin \<noteq> None \<longleftrightarrow> tagged s now r h"
    using fit by (cases "view s now CollOrigins ?k") (auto simp: tagged_def)
  have w: "wroteRecently ops now r s' = (Inr (tagged s' now r recentMarker), s')"
    by (simp add: wroteRecently_def andThen_def get good_ok s'(2) tagged_def)
  have nt: "\<not> tagged s' t r h" for t using s'(4) by (simp add: tagged_def)
  show thesis
    by (rule that [OF s'(2,3) nt,
          of "snd (snd (Classify ops now r h (s, st)))"])
       (use b t w in \<open>simp add: Classify_def andThen_def\<close>)
qed

text \<open>
  A recorded write is recognised once: the first event with its payload is the echo, and the
  payload counts as a change afterwards.
\<close>

lemma echo_once:
  assumes g: "good s" and j: "json_time now" and h: "h \<noteq> recentMarker" "nul \<notin> set h" "wf_ref r"
    and t: "live (now + Window window (ref_connector r)) t"
  shows "\<exists>s1 s2 s3 st1 st2 st3. Record ops window now r h (s, st) = (Inr (), (s1, st1)) \<and>
    Classify ops t r h (s1, st1) = (Inr Echo, (s2, st2)) \<and>
    Classify ops t r h (s2, st2) = (Inr NearMiss, (s3, st3)) \<and>
    (\<forall>r' h'. OriginTag r' h' \<noteq> OriginTag r h \<longrightarrow> OriginTag r' h' \<noteq> OriginTag r recentMarker \<longrightarrow>
       tagged s2 t r' h' = tagged s t r' h')"
proof -
  have ne: "OriginTag r recentMarker \<noteq> OriginTag r h"
    using h OriginTag_inj [OF h(3,3) recentMarker_nul h(2)] by simp
  obtain s1 st1 where s1: "Record ops window now r h (s, st) = (Inr (), (s1, st1))" "good s1"
    "only_at {(CollOrigins, OriginTag r h), (CollOrigins, OriginTag r recentMarker)} s s1"
    "\<And>t. tagged s1 t r h = live (now + Window window (ref_connector r)) t"
    "\<And>t. tagged s1 t r recentMarker = live (now + Window window (ref_connector r)) t"
    by (rule Record_ok [OF g j, of window r h st]) auto
  obtain s2 st2 where s2: "good s2" "only_at {(CollOrigins, OriginTag r h)} s1 s2"
    "\<And>t. \<not> tagged s2 t r h"
    "Classify ops t r h (s1, st1) = (Inr (if tagged s1 t r h then Echo
       else if tagged s2 t r recentMarker then NearMiss else Foreign), (s2, st2))"
    by (rule Classify_ok [OF s1(2), of r h t st1]) auto
  obtain s3 st3 where s3: "only_at {(CollOrigins, OriginTag r h)} s2 s3"
    "Classify ops t r h (s2, st2) = (Inr (if tagged s2 t r h then Echo
       else if tagged s3 t r recentMarker then NearMiss else Foreign), (s3, st3))"
    by (rule Classify_ok [OF s2(1), of r h t st2]) auto
  have "tagged s3 t r recentMarker"
    using tagged_only_at [OF s3(1)] tagged_only_at [OF s2(2)] ne s1(5) t by simp
  moreover have "tagged s2 t r' h' = tagged s t r' h'"
    if "OriginTag r' h' \<noteq> OriginTag r h" "OriginTag r' h' \<noteq> OriginTag r recentMarker" for r' h'
    using that tagged_only_at [OF s2(2)] tagged_only_at [OF s1(3)] by simp
  ultimately show ?thesis using s1(1,4) s2(3,4) s3(2) t by auto
qed

text \<open>
  A different payload, or one that comes back after the window, is never swallowed.
\<close>

lemma other_payload_processed:
  assumes g: "good s" and j: "json_time now" and h: "h \<noteq> h'" "nul \<notin> set h" "nul \<notin> set h'" "wf_ref r"
    and fresh: "\<not> tagged s t r h'" "h' \<noteq> recentMarker"
  shows "\<exists>s1 st1 v s2 st2. Record ops window now r h (s, st) = (Inr (), (s1, st1)) \<and>
    Classify ops t r h' (s1, st1) = (Inr v, (s2, st2)) \<and> Processed v \<and>
    (live (now + Window window (ref_connector r)) t \<longleftrightarrow> v = NearMiss) \<and>
    (tagged s2 t r h \<longleftrightarrow> live (now + Window window (ref_connector r)) t)"
proof -
  have ne: "OriginTag r h' \<noteq> OriginTag r h" "OriginTag r h' \<noteq> OriginTag r recentMarker"
    using h fresh(2) OriginTag_inj [OF h(4,4) h(3,2)] OriginTag_inj [OF h(4,4) h(3) recentMarker_nul]
    by simp_all
  obtain s1 st1 where s1: "Record ops window now r h (s, st) = (Inr (), (s1, st1))" "good s1"
    "only_at {(CollOrigins, OriginTag r h), (CollOrigins, OriginTag r recentMarker)} s s1"
    "\<And>t. tagged s1 t r h = live (now + Window window (ref_connector r)) t"
    "\<And>t. tagged s1 t r recentMarker = live (now + Window window (ref_connector r)) t"
    by (rule Record_ok [OF g j, of window r h st]) auto
  obtain s2 st2 where s2: "only_at {(CollOrigins, OriginTag r h')} s1 s2"
    "Classify ops t r h' (s1, st1) = (Inr (if tagged s1 t r h' then Echo
       else if tagged s2 t r recentMarker then NearMiss else Foreign), (s2, st2))"
    by (rule Classify_ok [OF s1(2), of r h' t st1]) auto
  have "\<not> tagged s1 t r h'" using tagged_only_at [OF s1(3)] ne fresh(1) by simp
  moreover have "tagged s2 t r recentMarker = live (now + Window window (ref_connector r)) t"
    "tagged s2 t r h = live (now + Window window (ref_connector r)) t"
    using tagged_only_at [OF s2(1)] ne s1(4,5) by simp_all
  ultimately show ?thesis using s1(1) s2(2) by (auto simp: Processed_def)
qed

end

section \<open>Properties\<close>

text \<open>
  An engine write is suppressed exactly once. After a write is recorded, the first event that
  carries its payload inside the echo window is an echo; the next one with the same payload is a
  change again (a near miss), so a genuine second edit with the same content is never dropped.
  No other record's log entries are touched.
\<close>

theorem echo_suppressed_once:
  assumes "mem_docs.good s" and "json_time now" and "wf_ref r" and "nul \<notin> set h"
    and "h \<noteq> recentMarker" and "t < now + Window window (ref_connector r)"
  shows "\<exists>s1 s2 s3 st1 st2 st3. Record mem_ops window now r h (s, st) = (Inr (), (s1, st1)) \<and>
    Classify mem_ops t r h (s1, st1) = (Inr Echo, (s2, st2)) \<and>
    Classify mem_ops t r h (s2, st2) = (Inr NearMiss, (s3, st3)) \<and>
    (\<forall>r' h'. OriginTag r' h' \<noteq> OriginTag r h \<longrightarrow> OriginTag r' h' \<noteq> OriginTag r recentMarker \<longrightarrow>
       mem_view s2 t CollOrigins (OriginTag r' h') \<noteq> None \<longleftrightarrow>
       mem_view s t CollOrigins (OriginTag r' h') \<noteq> None)"
  using mem_docs.echo_once [OF assms(1,2,5,4,3), of window t st] assms(6)
  by (simp add: live_def mem_docs.tagged_def)

theorem echo_suppressed_once_witness:
  "\<exists>s1 s2 st1 st2.
     Record mem_ops [] unix_epoch (example_ref ''hub'' ''1'') ''ab'' (NewMem, no_origin_stats) =
       (Inr (), (s1, st1)) \<and>
     Classify mem_ops (unix_epoch + 60000000000) (example_ref ''hub'' ''1'') ''ab'' (s1, st1) =
       (Inr Echo, (s2, st2))"
proof -
  let ?r = "example_ref ''hub'' ''1''"
  have j: "json_time unix_epoch" by code_simp
  have w: "wf_ref ?r" "nul \<notin> set ''ab''" "''ab'' \<noteq> recentMarker"
    "unix_epoch + 60000000000 < unix_epoch + Window [] (ref_connector ?r)" by code_simp+
  show ?thesis using echo_suppressed_once [OF good_NewMem j w, of no_origin_stats] by blast
qed

text \<open>
  Nothing but the engine's own payload is suppressed. After a write is recorded, an event on
  the same record with another payload is processed: as a near miss inside the window, as
  foreign after it; and the recorded payload can still be recognised for the rest of the window.
\<close>

theorem foreign_change_processed:
  assumes "mem_docs.good s" and "json_time now" and "wf_ref r"
    and "h \<noteq> h'" and "nul \<notin> set h" and "nul \<notin> set h'" and "h' \<noteq> recentMarker"
    and "mem_view s t CollOrigins (OriginTag r h') = None" and "0 \<le> now"
  shows "\<exists>s1 st1 v s2 st2. Record mem_ops window now r h (s, st) = (Inr (), (s1, st1)) \<and>
    Classify mem_ops t r h' (s1, st1) = (Inr v, (s2, st2)) \<and> Processed v \<and>
    (v = NearMiss \<longleftrightarrow> t < now + Window window (ref_connector r)) \<and>
    (mem_view s2 t CollOrigins (OriginTag r h) \<noteq> None \<longleftrightarrow> t < now + Window window (ref_connector r))"
proof -
  have l: "live (now + Window window (ref_connector r)) t \<longleftrightarrow> t < now + Window window (ref_connector r)"
    using assms(9) Window_pos [of window "ref_connector r"] by (auto simp: live_def)
  have f: "\<not> mem_docs.tagged s t r h'" using assms(8) by (simp add: mem_docs.tagged_def)
  show ?thesis
    using mem_docs.other_payload_processed [OF assms(1,2,4,5,6,3) f assms(7), of window st]
    unfolding l mem_docs.tagged_def by blast
qed

theorem foreign_change_processed_witness:
  "\<exists>s1 st1 v s2 st2.
     Record mem_ops [] unix_epoch (example_ref ''hub'' ''1'') ''ab'' (NewMem, no_origin_stats) =
       (Inr (), (s1, st1)) \<and>
     Classify mem_ops (unix_epoch + 60000000000) (example_ref ''hub'' ''1'') ''cd'' (s1, st1) =
       (Inr v, (s2, st2)) \<and> Processed v"
proof -
  let ?r = "example_ref ''hub'' ''1''"
  have j: "json_time unix_epoch" by code_simp
  have w: "wf_ref ?r" "''ab'' \<noteq> ''cd''" "nul \<notin> set ''ab''" "nul \<notin> set ''cd''" "''cd'' \<noteq> recentMarker"
    "mem_view (NewMem :: doc mem) (unix_epoch + 60000000000) CollOrigins (OriginTag ?r ''cd'') = None"
    "0 \<le> unix_epoch" by code_simp+
  show ?thesis using foreign_change_processed [OF good_NewMem j w, of "[]" no_origin_stats] by blast
qed

end
