(* ===== verification/Idempotency.thy ===== *)
theory Idempotency
  imports Typed_Store
begin

text \<open>
  \<^verbatim>\<open>internal/idem/idem.go\<close>: the replay cache that makes writes safe to repeat. As in
  \<^const>\<open>SnapshotHash\<close>, SHA-256 with hex encoding is the parameter \<open>H\<close>.
\<close>

section \<open>Keys and the cache\<close>

datatype decision = Proceed | Replayed | Recheck

definition decision_string :: "decision \<Rightarrow> string" where
  "decision_string d = (case d of Replayed \<Rightarrow> ''replayed'' | Recheck \<Rightarrow> ''recheck'' | Proceed \<Rightarrow> ''proceed'')"

text \<open>The bytes fed to the hash: every part with its length in front.\<close>

definition key_stream :: "string \<Rightarrow> string \<Rightarrow> ref \<Rightarrow> ref \<Rightarrow> string \<Rightarrow> string" where
  "key_stream sync kind source target payloadHash =
     concat (map (\<lambda>part. dec (int (length part)) @ '':'' @ part)
       [sync, kind, ref_connector source, ref_remote_id source,
        ref_connector target, ref_remote_id target, payloadHash])"

definition Key ::
  "(string \<Rightarrow> string) \<Rightarrow> string \<Rightarrow> string \<Rightarrow> ref \<Rightarrow> ref \<Rightarrow> string \<Rightarrow> string" where
  "Key H sync kind source target payloadHash = H (key_stream sync kind source target payloadHash)"

definition DefaultTTL :: duration where
  "DefaultTTL = hour"

text \<open>The lifetime \<^verbatim>\<open>NewCache\<close> settles on.\<close>

definition NewCache :: "duration \<Rightarrow> duration" where
  "NewCache ttl = (if ttl \<le> 0 then DefaultTTL else ttl)"

definition Begin ::
  "('s, doc) store_ops \<Rightarrow> duration \<Rightarrow> gotime \<Rightarrow> string \<Rightarrow> ('s, gerr, idem_result \<times> decision) st" where
  "Begin ops ttl now key =
     andThen (Idem ops now key) (\<lambda>prev.
       case prev of
         Some r \<Rightarrow> if \<not> i_in_flight r then ret (r, Replayed) else ret (no_result, Recheck)
       | None \<Rightarrow>
           andThen (PutIdem ops now key (no_result\<lparr>i_in_flight := True, i_written_at := now\<rparr>) (now + ttl))
             (\<lambda>_. ret (no_result, Proceed)))"

definition Commit ::
  "('s, doc) store_ops \<Rightarrow> duration \<Rightarrow> gotime \<Rightarrow> string \<Rightarrow> idem_result \<Rightarrow> ('s, gerr, unit) st" where
  "Commit ops ttl now key res =
     (let res' = res\<lparr>i_in_flight := False\<rparr>;
          res'' = (if i_written_at res' = zero_time then res'\<lparr>i_written_at := now\<rparr> else res')
      in PutIdem ops now key res'' (now + ttl))"

definition Abandon :: "('s, doc) store_ops \<Rightarrow> gotime \<Rightarrow> string \<Rightarrow> ('s, gerr, unit) st" where
  "Abandon ops now key = so_delete ops now CollIdem key"

definition Lookup :: "('s, doc) store_ops \<Rightarrow> gotime \<Rightarrow> string \<Rightarrow> ('s, gerr, idem_result option) st" where
  "Lookup ops now key =
     andThen (Idem ops now key) (\<lambda>r.
       case r of
         Some res \<Rightarrow> if i_in_flight res then ret None else ret (Some res)
       | None \<Rightarrow> ret None)"

section \<open>The lifecycle of one key\<close>

text \<open>
  What the cache promises about one key, independent of how it is stored: a write is fresh, in
  flight, or done with its result.
\<close>

datatype phase = Fresh | InFlight | Finished idem_result

fun begin_phase :: "phase \<Rightarrow> decision \<times> phase" where
  "begin_phase Fresh = (Proceed, InFlight)"
| "begin_phase InFlight = (Recheck, InFlight)"
| "begin_phase (Finished r) = (Replayed, Finished r)"

context doc_store
begin

definition phase :: "'s \<Rightarrow> gotime \<Rightarrow> string \<Rightarrow> phase" where
  "phase s now key =
     (case Option.bind (view s now CollIdem key) as_idem of
        None \<Rightarrow> Fresh
      | Some r \<Rightarrow> if i_in_flight r then InFlight else Finished r)"

lemma phase_only_at: "only_at K s s' \<Longrightarrow> (CollIdem, key) \<notin> K \<Longrightarrow> phase s' t key = phase s t key"
  by (simp add: phase_def only_at_def)

lemma Idem_ok: "good s \<Longrightarrow> Idem ops now key s = (Inr (Option.bind (view s now CollIdem key) as_idem), s)"
  unfolding Idem_def get_decode by (rule decode_view) simp_all

lemma PutIdem_ok:
  assumes "good s" "json_time (i_written_at r)"
  obtains s' where "PutIdem ops now key r x s = (Inr (), s')" "good s'"
    "only_at {(CollIdem, key)} s s'"
    "\<And>t. phase s' t key =
      (if live x t then if i_in_flight r then InFlight else Finished r else Fresh)"
proof -
  have m: "marshals (DocIdem r)" "fits CollIdem (DocIdem r)" using assms(2) by simp_all
  obtain s' where "PutIdem ops now key r x s = (Inr (), s')" "good s'"
    "only_at {(CollIdem, key)} s s'"
    "\<And>t. view s' t CollIdem key = (if live x t then Some (stored (DocIdem r)) else None)"
    unfolding PutIdem_def
    by (rule put_doc_ok [OF assms(1) coll_name_simps(5) m, of "''store: encode idem''" now key x]) auto
  with that show thesis by (simp add: phase_def)
qed

lemma Abandon_ok:
  assumes "good s"
  obtains s' where "Abandon ops now key s = (Inr (), s')" "good s'"
    "only_at {(CollIdem, key)} s s'" "\<And>t. phase s' t key = Fresh"
proof -
  obtain s' where "Abandon ops now key s = (Inr (), s')" "good s'"
    "only_at {(CollIdem, key)} s s'" "\<And>t. view s' t CollIdem key = None"
    unfolding Abandon_def by (rule delete_ok [OF assms coll_name_simps(5), of now key]) auto
  with that show thesis by (simp add: phase_def)
qed

lemma Begin_ok:
  assumes "good s" "json_time now"
  obtains s' where
    "Begin ops ttl now key s =
       (Inr (case phase s now key of Finished r \<Rightarrow> (r, Replayed)
             | p \<Rightarrow> (no_result, fst (begin_phase p))), s')"
    "good s'" "only_at {(CollIdem, key)} s s'"
    "phase s now key \<noteq> Fresh \<Longrightarrow> s' = s"
    "phase s now key = Fresh \<Longrightarrow>
       \<forall>t. phase s' t key = (if live (now + ttl) t then InFlight else Fresh)"
proof (cases "Option.bind (view s now CollIdem key) as_idem")
  case None
  let ?m = "no_result\<lparr>i_in_flight := True, i_written_at := now\<rparr>"
  obtain s' where s': "PutIdem ops now key ?m (now + ttl) s = (Inr (), s')" "good s'"
    "only_at {(CollIdem, key)} s s'"
    "\<And>t. phase s' t key = (if live (now + ttl) t then InFlight else Fresh)"
    by (rule PutIdem_ok [OF assms(1), of ?m now key "now + ttl"]) (use assms(2) in auto)
  have "phase s now key = Fresh" using None by (simp add: phase_def)
  with None s' show thesis
    by (intro that [of s']) (simp_all add: Begin_def andThen_def Idem_ok [OF assms(1)])
next
  case (Some r)
  then show thesis
    by (intro that [of s])
       (simp_all add: Begin_def andThen_def Idem_ok [OF assms(1)] phase_def assms(1) split: if_splits)
qed

lemma Commit_ok:
  assumes "good s" "json_time now" "json_time (i_written_at r)"
  obtains s' where "Commit ops ttl now key r s = (Inr (), s')" "good s'"
    "only_at {(CollIdem, key)} s s'"
    "\<And>t. phase s' t key =
      (if live (now + ttl) t
       then Finished (r\<lparr>i_in_flight := False,
                        i_written_at := if i_written_at r = 0 then now else i_written_at r\<rparr>)
       else Fresh)"
proof -
  let ?r = "r\<lparr>i_in_flight := False,
              i_written_at := if i_written_at r = 0 then now else i_written_at r\<rparr>"
  have c: "Commit ops ttl now key r = PutIdem ops now key ?r (now + ttl)"
    by (cases r) (simp add: Commit_def Let_def)
  have j: "json_time (i_written_at ?r)" using assms(2,3) by simp
  obtain s' where "PutIdem ops now key ?r (now + ttl) s = (Inr (), s')" "good s'"
    "only_at {(CollIdem, key)} s s'"
    "\<And>t. phase s' t key = (if live (now + ttl) t then Finished ?r else Fresh)"
    by (rule PutIdem_ok [OF assms(1) j, of now key "now + ttl"]) simp
  then show thesis using that c by simp
qed

end

section \<open>Properties\<close>

text \<open>
  An idempotency key separates writes. The hashed bytes determine the sync, the kind, both
  records and the payload digest, so two writes share a key only if they are the same write or
  the hash collides.
\<close>

theorem key_stream_injective:
  assumes "key_stream sync kind source target h = key_stream sync' kind' source' target' h'"
  shows "sync = sync' \<and> kind = kind' \<and> h = h' \<and>
    ref_connector source = ref_connector source' \<and> ref_remote_id source = ref_remote_id source' \<and>
    ref_connector target = ref_connector target' \<and> ref_remote_id target = ref_remote_id target'"
  using assms unfolding key_stream_def writeChunk_def [symmetric]
  using writeChunk_split [of h "''''" h' "''''"]
  by (auto dest!: writeChunk_split)

theorem key_stream_injective_witness:
  "key_stream ''ab'' ''c'' (example_ref ''hub'' ''1'') (example_ref ''sales'' '''') ''x'' \<noteq>
   key_stream ''a'' ''bc'' (example_ref ''hub'' ''1'') (example_ref ''sales'' '''') ''x''"
  using key_stream_injective [of "''ab''" "''c''" "example_ref ''hub'' ''1''"
      "example_ref ''sales'' ''''" "''x''" "''a''" "''bc''" "example_ref ''hub'' ''1''"
      "example_ref ''sales'' ''''" "''x''"] by fastforce



text \<open>
  A write that never reported back is not repeated blindly. Once a write has been begun, every
  later attempt within the time to live is told to recheck, however often it is tried, until the
  first attempt is committed or abandoned.
\<close>

theorem no_blind_repeat:
  assumes "mem_docs.good s" and "json_time now" and "mem_docs.phase s now key = Fresh"
    and "json_time t" and "now \<le> t" and "t < now + ttl"
  shows "\<exists>s'. Begin mem_ops ttl now key s = (Inr (no_result, Proceed), s') \<and>
    Begin mem_ops ttl t key s' = (Inr (no_result, Recheck), s') \<and>
    Lookup mem_ops t key s' = (Inr None, s')"
proof -
  obtain s' where s': "Begin mem_ops ttl now key s =
      (Inr (case mem_docs.phase s now key of Finished r \<Rightarrow> (r, Replayed)
            | p \<Rightarrow> (no_result, fst (begin_phase p))), s')" "mem_docs.good s'"
    "mem_docs.phase s now key = Fresh \<Longrightarrow>
       \<forall>t. mem_docs.phase s' t key = (if live (now + ttl) t then InFlight else Fresh)"
    by (rule mem_docs.Begin_ok [OF assms(1,2), of ttl key]) auto
  have f: "mem_docs.phase s' t key = InFlight" using s'(3) assms(3,6) by (simp add: live_def)
  obtain s'' where s'': "Begin mem_ops ttl t key s' =
      (Inr (case mem_docs.phase s' t key of Finished r \<Rightarrow> (r, Replayed)
            | p \<Rightarrow> (no_result, fst (begin_phase p))), s'')"
    "mem_docs.phase s' t key \<noteq> Fresh \<Longrightarrow> s'' = s'"
    by (rule mem_docs.Begin_ok [OF s'(2) assms(4), of ttl key]) auto
  have "Lookup mem_ops t key s' = (Inr None, s')"
    using f by (auto simp: Lookup_def andThen_def mem_docs.Idem_ok [OF s'(2)] mem_docs.phase_def
        split: option.splits if_splits)
  with s'(1) s'' f assms(3) show ?thesis by (intro exI [of _ s']) simp
qed

theorem no_blind_repeat_witness:
  "\<exists>s'. Begin mem_ops DefaultTTL unix_epoch ''k'' NewMem = (Inr (no_result, Proceed), s') \<and>
     Begin mem_ops DefaultTTL (unix_epoch + 5) ''k'' s' = (Inr (no_result, Recheck), s')"
proof -
  have j: "json_time unix_epoch" "json_time (unix_epoch + 5)" "unix_epoch \<le> unix_epoch + 5"
    "unix_epoch + 5 < unix_epoch + DefaultTTL" by code_simp+
  have f: "mem_docs.phase NewMem unix_epoch ''k'' = Fresh" by (simp add: mem_docs.phase_def)
  show ?thesis using no_blind_repeat [OF good_NewMem j(1) f j(2-4)] by blast
qed

end
