(* ===== verification/Identity.thy ===== *)
theory Identity
  imports Typed_Store
begin

text \<open>
  \<^verbatim>\<open>internal/identity/identity.go\<close>: which record on one peer is the same thing as a record
  on the other. Three tiers: the link table, deterministic keys, and an ambiguity policy.

  \<^verbatim>\<open>sort.Slice\<close> by remote identifier is the stable \<^const>\<open>sort_key\<close>: the refs filed
  under one key share connector and kind, so no two of them have equal identifiers.
\<close>

section \<open>The resolver\<close>

datatype outcome = Linked | Matched | Create | Review | Skip

definition outcome_string :: "outcome \<Rightarrow> string" where
  "outcome_string x =
     (case x of Linked \<Rightarrow> ''linked'' | Matched \<Rightarrow> ''matched'' | Create \<Rightarrow> ''create''
      | Review \<Rightarrow> ''review'' | Skip \<Rightarrow> ''skip'')"

definition no_ref :: ref where
  "no_ref = \<lparr>ref_connector = '''', ref_kind = '''', ref_remote_id = ''''\<rparr>"

record id_resolution =
  ir_outcome :: outcome
  ir_peer :: ref
  ir_candidates :: "ref list"
  ir_reason :: string

definition OnAmbiguousReview :: string where "OnAmbiguousReview = ''review''"
definition OnAmbiguousCreate :: string where "OnAmbiguousCreate = ''create''"
definition OnAmbiguousSkip :: string where "OnAmbiguousSkip = ''skip''"

record id_resolver =
  id_kind :: string
  id_keys :: "string list"
  id_on_ambiguous :: string

definition identity_New :: "string \<Rightarrow> string list \<Rightarrow> string \<Rightarrow> id_resolver" where
  "identity_New kind keys onAmbiguous =
     \<lparr>id_kind = kind, id_keys = keys,
      id_on_ambiguous = (if onAmbiguous = '''' then OnAmbiguousReview else onAmbiguous)\<rparr>"

definition keyString :: "string \<Rightarrow> string \<Rightarrow> string \<Rightarrow> val \<Rightarrow> string" where
  "keyString connector kind name v = connector @ nul # kind @ nul # name @ nul # sprint v"

definition ownerKey :: "ref \<Rightarrow> string" where
  "ownerKey r = ref_connector r @ nul # ref_kind r @ nul # ref_remote_id r"

definition isEmpty :: "val \<Rightarrow> bool" where
  "isEmpty v = (case v of VNil \<Rightarrow> True | VStr s \<Rightarrow> s = '''' | _ \<Rightarrow> False)"

definition loadKey :: "('s, doc) store_ops \<Rightarrow> gotime \<Rightarrow> string \<Rightarrow> ('s, gerr, ref list) st" where
  "loadKey ops now key =
     andThen (andThen (so_get ops now CollKeys key) (decode ''identity: decode key entry'' as_refs))
       (\<lambda>r. ret (case r of Some refs \<Rightarrow> refs | None \<Rightarrow> []))"

definition saveKey :: "('s, doc) store_ops \<Rightarrow> gotime \<Rightarrow> string \<Rightarrow> ref list \<Rightarrow> ('s, gerr, unit) st" where
  "saveKey ops now key refs =
     put_doc ops ''identity: encode key entry'' now CollKeys key (DocRefs refs) 0"

definition addRef :: "('s, doc) store_ops \<Rightarrow> gotime \<Rightarrow> string \<Rightarrow> ref \<Rightarrow> ('s, gerr, unit) st" where
  "addRef ops now key r =
     andThen (loadKey ops now key) (\<lambda>refs.
       if r \<in> set refs then ret ()
       else saveKey ops now key (sort_key ref_remote_id (refs @ [r])))"

definition removeRef :: "('s, doc) store_ops \<Rightarrow> gotime \<Rightarrow> string \<Rightarrow> ref \<Rightarrow> ('s, gerr, unit) st" where
  "removeRef ops now key r =
     andThen (loadKey ops now key) (\<lambda>refs.
       let kept = filter (\<lambda>e. e \<noteq> r) refs
       in if kept = [] then so_delete ops now CollKeys key else saveKey ops now key kept)"

definition releaseKeys :: "('s, doc) store_ops \<Rightarrow> gotime \<Rightarrow> ref \<Rightarrow> ('s, gerr, unit) st" where
  "releaseKeys ops now r =
     andThen (andThen (so_get ops now CollKeyOwner (ownerKey r))
                (decode ''identity: decode key owner'' as_keys))
       (\<lambda>owner. case owner of
          None \<Rightarrow> ret ()
        | Some ks \<Rightarrow> andThen (for_each (\<lambda>k. removeRef ops now k r) ks)
                      (\<lambda>_. so_delete ops now CollKeyOwner (ownerKey r)))"

text \<open>The keys a record holds: one per configured name that has a value.\<close>

definition held_keys :: "id_resolver \<Rightarrow> string \<Rightarrow> string \<Rightarrow> fields \<Rightarrow> string list" where
  "held_keys res connector kind canonical =
     List.map_filter (\<lambda>name.
       case map_of canonical name of
         None \<Rightarrow> None
       | Some v \<Rightarrow> if isEmpty v then None else Some (keyString connector kind name v))
     (id_keys res)"

definition Index ::
  "('s, doc) store_ops \<Rightarrow> gotime \<Rightarrow> id_resolver \<Rightarrow> ref \<Rightarrow> fields \<Rightarrow> ('s, gerr, unit) st" where
  "Index ops now res r canonical =
     andThen (releaseKeys ops now r) (\<lambda>_.
       let held = held_keys res (ref_connector r) (ref_kind r) canonical
       in andThen (for_each (\<lambda>k. addRef ops now k r) held) (\<lambda>_.
            if held = [] then ret ()
            else put_doc ops ''identity: encode key owner'' now CollKeyOwner (ownerKey r)
                   (DocKeys (sort_strings held)) 0))"

definition Deindex :: "('s, doc) store_ops \<Rightarrow> gotime \<Rightarrow> ref \<Rightarrow> ('s, gerr, unit) st" where
  "Deindex ops now r = releaseKeys ops now r"

definition joinNames :: "string list \<Rightarrow> string" where
  "joinNames names = join_strings '', '' (sort_strings names)"

text \<open>
  The loop of \<^verbatim>\<open>candidates\<close>: the records found so far, without repetition, and the names
  that found something.
\<close>

fun gather ::
  "('s, doc) store_ops \<Rightarrow> gotime \<Rightarrow> string \<Rightarrow> string \<Rightarrow> fields \<Rightarrow> string list \<Rightarrow>
     ref list \<times> string list \<Rightarrow> ('s, gerr, ref list \<times> string list) st" where
  "gather ops now connector kind canonical [] acc = ret acc"
| "gather ops now connector kind canonical (name # names) (out, matchedOn) =
     (case map_of canonical name of
        None \<Rightarrow> gather ops now connector kind canonical names (out, matchedOn)
      | Some v \<Rightarrow>
          if isEmpty v then gather ops now connector kind canonical names (out, matchedOn)
          else andThen (loadKey ops now (keyString connector kind name v)) (\<lambda>refs.
                 if refs = [] then gather ops now connector kind canonical names (out, matchedOn)
                 else gather ops now connector kind canonical names
                        (fold (\<lambda>r out. if r \<in> set out then out else out @ [r]) refs out,
                         matchedOn @ [name])))"

definition candidates ::
  "('s, doc) store_ops \<Rightarrow> gotime \<Rightarrow> id_resolver \<Rightarrow> string \<Rightarrow> fields \<Rightarrow>
     ('s, gerr, ref list \<times> string) st" where
  "candidates ops now res peerConnector canonical =
     andThen (gather ops now peerConnector (id_kind res) canonical (id_keys res) ([], []))
       (\<lambda>(out, matchedOn).
          if matchedOn = [] then ret ([], '''')
          else ret (sort_key ref_remote_id out, joinNames matchedOn))"

definition noMatch :: "id_resolver \<Rightarrow> id_resolution" where
  "noMatch res =
     (if id_on_ambiguous res = OnAmbiguousSkip then
        \<lparr>ir_outcome = Skip, ir_peer = no_ref, ir_candidates = [], ir_reason = ''no match''\<rparr>
      else \<lparr>ir_outcome = Create, ir_peer = no_ref, ir_candidates = [], ir_reason = ''no match''\<rparr>)"

definition by_keys ::
  "('s, doc) store_ops \<Rightarrow> gotime \<Rightarrow> id_resolver \<Rightarrow> string \<Rightarrow> fields \<Rightarrow>
     ('s, gerr, id_resolution) st" where
  "by_keys ops now res peerConnector canonical =
     andThen (candidates ops now res peerConnector canonical) (\<lambda>(cands, matchedOn).
       case cands of
         [c] \<Rightarrow> ret \<lparr>ir_outcome = Matched, ir_peer = c, ir_candidates = [],
                      ir_reason = ''matched on '' @ matchedOn\<rparr>
       | [] \<Rightarrow> ret (noMatch res)
       | _ \<Rightarrow> ret \<lparr>ir_outcome =
                       (if id_on_ambiguous res = OnAmbiguousCreate then Create
                        else if id_on_ambiguous res = OnAmbiguousSkip then Skip else Review),
                    ir_peer = no_ref, ir_candidates = cands,
                    ir_reason = itoa (int (length cands)) @ '' records on '' @ peerConnector
                      @ '' match on '' @ matchedOn\<rparr>)"

definition identity_Resolve ::
  "('s, doc) store_ops \<Rightarrow> gotime \<Rightarrow> id_resolver \<Rightarrow> ref \<Rightarrow> string \<Rightarrow> fields \<Rightarrow>
     ('s, gerr, id_resolution) st" where
  "identity_Resolve ops now res from peerConnector canonical =
     andThen (GetLink ops now from) (\<lambda>link.
       case Option.bind link (\<lambda>l. Peer l from) of
         Some peer \<Rightarrow> ret \<lparr>ir_outcome = Linked, ir_peer = peer, ir_candidates = [], ir_reason = ''linked''\<rparr>
       | None \<Rightarrow> by_keys ops now res peerConnector canonical)"

section \<open>The key index over any store\<close>

lemma ownerKey_ref_key: "ownerKey r = ref_key r"
  by (simp add: ownerKey_def ref_key_def)

context doc_store
begin

text \<open>The records filed under a key, and the keys a record owns. Neither kind of entry expires.\<close>

definition refs_at :: "'s \<Rightarrow> gotime \<Rightarrow> string \<Rightarrow> ref list" where
  "refs_at s t k = (case Option.bind (view s t CollKeys k) as_refs of Some rs \<Rightarrow> rs | None \<Rightarrow> [])"

definition owned :: "'s \<Rightarrow> gotime \<Rightarrow> ref \<Rightarrow> string list" where
  "owned s t r = (case Option.bind (view s t CollKeyOwner (ownerKey r)) as_keys of Some ks \<Rightarrow> ks | None \<Rightarrow> [])"

text \<open>
  The index of a record \<open>r\<close> is exact at a time: \<open>r\<close> is filed under a key exactly when it owns the
  key.
\<close>

definition indexed :: "'s \<Rightarrow> gotime \<Rightarrow> ref \<Rightarrow> bool" where
  "indexed s t r \<longleftrightarrow> (\<forall>k. r \<in> set (refs_at s t k) \<longleftrightarrow> k \<in> set (owned s t r))"

lemma refs_at_only_at:
  "only_at K s s' \<Longrightarrow> (CollKeys, k) \<notin> K \<Longrightarrow> refs_at s' t k = refs_at s t k"
  by (simp add: refs_at_def only_at_def)

lemma owned_only_at:
  "only_at K s s' \<Longrightarrow> (CollKeyOwner, ownerKey r) \<notin> K \<Longrightarrow> owned s' t r = owned s t r"
  by (simp add: owned_def only_at_def)

lemma loadKey_ok:
  assumes "good s"
  shows "loadKey ops now k s = (Inr (refs_at s now k), s)"
proof -
  have "decode w as_refs (view s now CollKeys k) s =
      (Inr (Option.bind (view s now CollKeys k) as_refs), s)" for w
    by (rule decode_view [OF assms]) simp_all
  then show ?thesis
    by (simp add: loadKey_def andThen_def get good_ok assms refs_at_def split: option.split)
qed

lemma saveKey_ok:
  assumes "good s"
  obtains s' where "saveKey ops now k rs s = (Inr (), s')" "good s'" "only_at {(CollKeys, k)} s s'"
    "\<And>t. refs_at s' t k = rs"
proof -
  have m: "marshals (DocRefs rs)" "fits CollKeys (DocRefs rs)" by simp_all
  obtain s' where "saveKey ops now k rs s = (Inr (), s')" "good s'" "only_at {(CollKeys, k)} s s'"
    "\<And>t. view s' t CollKeys k = Some (stored (DocRefs rs))"
    unfolding saveKey_def
    by (rule put_doc_ok [OF assms coll_name_simps(9) m, of "''identity: encode key entry''" now k 0]) auto
  with that show thesis by (simp add: refs_at_def)
qed

lemma addRef_ok:
  assumes "good s"
  obtains s' where "addRef ops now k r s = (Inr (), s')" "good s'" "only_at {(CollKeys, k)} s s'"
    "set (refs_at s' now k) = insert r (set (refs_at s now k))"
proof (cases "r \<in> set (refs_at s now k)")
  case True
  with assms show thesis
    by (intro that [of s]) (auto simp: addRef_def andThen_def loadKey_ok)
next
  case False
  let ?rs = "sort_key ref_remote_id (refs_at s now k @ [r])"
  obtain s' where "saveKey ops now k ?rs s = (Inr (), s')" "good s'" "only_at {(CollKeys, k)} s s'"
    "\<And>t. refs_at s' t k = ?rs" by (rule saveKey_ok [OF assms, of now k ?rs]) auto
  with False that assms show thesis by (simp add: addRef_def andThen_def loadKey_ok)
qed

lemma removeRef_ok:
  assumes "good s"
  obtains s' where "removeRef ops now k r s = (Inr (), s')" "good s'" "only_at {(CollKeys, k)} s s'"
    "set (refs_at s' now k) = set (refs_at s now k) - {r}"
proof (cases "filter (\<lambda>e. e \<noteq> r) (refs_at s now k) = []")
  case True
  obtain s' where s': "so_delete ops now CollKeys k s = (Inr (), s')" "good s'"
    "only_at {(CollKeys, k)} s s'" "\<And>t. view s' t CollKeys k = None"
    by (rule delete_ok [OF assms coll_name_simps(9), of now k]) auto
  have "set (refs_at s now k) - {r} = {}" using True by (auto simp: filter_empty_conv)
  with s' True that assms show thesis
    by (simp add: removeRef_def andThen_def loadKey_ok refs_at_def)
next
  case False
  let ?rs = "filter (\<lambda>e. e \<noteq> r) (refs_at s now k)"
  obtain s' where s': "saveKey ops now k ?rs s = (Inr (), s')" "good s'" "only_at {(CollKeys, k)} s s'"
    "\<And>t. refs_at s' t k = ?rs" by (rule saveKey_ok [OF assms, of now k ?rs]) auto
  have "set ?rs = set (refs_at s now k) - {r}" by auto
  with s' False that assms show thesis by (simp add: removeRef_def andThen_def loadKey_ok Let_def)
qed

text \<open>The two loops of the index: file a record under keys, take it away from keys.\<close>

abbreviation key_cells :: "string list \<Rightarrow> (string \<times> string) set" where
  "key_cells ks \<equiv> Pair CollKeys ` set ks"

lemma add_loop:
  assumes "good s"
  obtains s' where "for_each (\<lambda>k. addRef ops now k r) ks s = (Inr (), s')" "good s'"
    "only_at (key_cells ks) s s'"
    "\<And>k. set (refs_at s' now k) = (if k \<in> set ks then insert r (set (refs_at s now k)) else set (refs_at s now k))"
  using assms
proof (induction ks arbitrary: s thesis)
  case (Cons k ks)
  obtain s1 where s1: "addRef ops now k r s = (Inr (), s1)" "good s1" "only_at {(CollKeys, k)} s s1"
    "set (refs_at s1 now k) = insert r (set (refs_at s now k))"
    by (rule addRef_ok [OF Cons.prems(2), of now k r]) auto
  obtain s2 where s2: "for_each (\<lambda>k. addRef ops now k r) ks s1 = (Inr (), s2)" "good s2"
    "only_at (key_cells ks) s1 s2"
    "\<And>k. set (refs_at s2 now k) = (if k \<in> set ks then insert r (set (refs_at s1 now k)) else set (refs_at s1 now k))"
    by (rule Cons.IH [OF _ s1(2)]) auto
  have r1: "set (refs_at s1 now k') = (if k' = k then insert r (set (refs_at s now k)) else set (refs_at s now k'))" for k'
    using s1(4) refs_at_only_at [OF s1(3), of k' now] by auto
  show ?case
  proof (rule Cons.prems(1) [OF _ s2(2)])
    show "for_each (\<lambda>k. addRef ops now k r) (k # ks) s = (Inr (), s2)"
      using s1(1) s2(1) by (simp add: andThen_def)
    show "only_at (key_cells (k # ks)) s s2"
      by (rule only_at_mono [OF only_at_trans [OF s1(3) s2(3)]]) auto
    show "set (refs_at s2 now k') = (if k' \<in> set (k # ks) then insert r (set (refs_at s now k'))
        else set (refs_at s now k'))" for k'
      unfolding s2(4) r1 by auto
  qed
qed auto

lemma remove_loop:
  assumes "good s"
  obtains s' where "for_each (\<lambda>k. removeRef ops now k r) ks s = (Inr (), s')" "good s'"
    "only_at (key_cells ks) s s'"
    "\<And>k. set (refs_at s' now k) = (if k \<in> set ks then set (refs_at s now k) - {r} else set (refs_at s now k))"
  using assms
proof (induction ks arbitrary: s thesis)
  case (Cons k ks)
  obtain s1 where s1: "removeRef ops now k r s = (Inr (), s1)" "good s1" "only_at {(CollKeys, k)} s s1"
    "set (refs_at s1 now k) = set (refs_at s now k) - {r}"
    by (rule removeRef_ok [OF Cons.prems(2), of now k r]) auto
  obtain s2 where s2: "for_each (\<lambda>k. removeRef ops now k r) ks s1 = (Inr (), s2)" "good s2"
    "only_at (key_cells ks) s1 s2"
    "\<And>k. set (refs_at s2 now k) = (if k \<in> set ks then set (refs_at s1 now k) - {r} else set (refs_at s1 now k))"
    by (rule Cons.IH [OF _ s1(2)]) auto
  have r1: "set (refs_at s1 now k') = (if k' = k then set (refs_at s now k) - {r} else set (refs_at s now k'))" for k'
    using s1(4) refs_at_only_at [OF s1(3), of k' now] by auto
  show ?case
  proof (rule Cons.prems(1) [OF _ s2(2)])
    show "for_each (\<lambda>k. removeRef ops now k r) (k # ks) s = (Inr (), s2)"
      using s1(1) s2(1) by (simp add: andThen_def)
    show "only_at (key_cells (k # ks)) s s2"
      by (rule only_at_mono [OF only_at_trans [OF s1(3) s2(3)]]) auto
    show "set (refs_at s2 now k') = (if k' \<in> set (k # ks) then set (refs_at s now k') - {r}
        else set (refs_at s now k'))" for k'
      unfolding s2(4) r1 by auto
  qed
qed auto

text \<open>Releasing removes the record from every key it owns, and only there.\<close>

definition index_cells :: "ref \<Rightarrow> string list \<Rightarrow> (string \<times> string) set" where
  "index_cells r ks = insert (CollKeyOwner, ownerKey r) (key_cells ks)"

lemma releaseKeys_ok:
  assumes "good s"
  obtains s' where "releaseKeys ops now r s = (Inr (), s')" "good s'"
    "only_at (index_cells r (owned s now r)) s s'" "owned s' now r = []"
    "\<And>k. set (refs_at s' now k) =
      (if k \<in> set (owned s now r) then set (refs_at s now k) - {r} else set (refs_at s now k))"
proof -
  let ?v = "Option.bind (view s now CollKeyOwner (ownerKey r)) as_keys"
  have "decode w as_keys (view s now CollKeyOwner (ownerKey r)) s = (Inr ?v, s)" for w
    by (rule decode_view [OF assms]) simp_all
  then have v: "andThen (so_get ops now CollKeyOwner (ownerKey r)) (decode w as_keys) s = (Inr ?v, s)" for w
    by (simp add: andThen_def get good_ok assms)
  show thesis
  proof (cases ?v)
    case None
    then have "releaseKeys ops now r s = (Inr (), s)" "owned s now r = []"
      using v by (simp_all add: releaseKeys_def andThen_def [of "andThen _ _"] owned_def)
    with assms show thesis by (intro that [of s]) simp_all
  next
    case (Some ks)
    then have ks: "owned s now r = ks" by (simp add: owned_def)
    obtain s1 where s1: "for_each (\<lambda>k. removeRef ops now k r) ks s = (Inr (), s1)" "good s1"
      "only_at (key_cells ks) s s1"
      "\<And>k. set (refs_at s1 now k) = (if k \<in> set ks then set (refs_at s now k) - {r} else set (refs_at s now k))"
      by (rule remove_loop [OF assms, of now r ks]) auto
    obtain s2 where s2: "so_delete ops now CollKeyOwner (ownerKey r) s1 = (Inr (), s2)" "good s2"
      "only_at {(CollKeyOwner, ownerKey r)} s1 s2" "\<And>t. view s2 t CollKeyOwner (ownerKey r) = None"
      by (rule delete_ok [OF s1(2) coll_name_simps(10), of now "ownerKey r"]) auto
    show thesis
    proof (rule that [OF _ s2(2)])
      show "releaseKeys ops now r s = (Inr (), s2)"
        using v s1(1) s2(1) Some by (simp add: releaseKeys_def andThen_def)
      show "only_at (index_cells r (owned s now r)) s s2"
        unfolding ks by (rule only_at_mono [OF only_at_trans [OF s1(3) s2(3)]]) (auto simp: index_cells_def)
      show "owned s2 now r = []" using s2(4) by (simp add: owned_def)
      show "set (refs_at s2 now k) =
        (if k \<in> set (owned s now r) then set (refs_at s now k) - {r} else set (refs_at s now k))" for k
        using refs_at_only_at [OF s2(3), of k now] s1(4) ks by simp
    qed
  qed
qed

end

context doc_store
begin

lemma Index_ok:
  assumes "good s"
    and held_def: "held = held_keys res (ref_connector r) (ref_kind r) canonical"
  obtains s' where "Index ops now res r canonical s = (Inr (), s')" "good s'"
    "only_at (index_cells r (owned s now r @ held)) s s'" "set (owned s' now r) = set held"
    "\<And>k. set (refs_at s' now k) =
      (if k \<in> set held then insert r (set (refs_at s now k))
       else if k \<in> set (owned s now r) then set (refs_at s now k) - {r} else set (refs_at s now k))"
proof -
  obtain s1 where s1: "releaseKeys ops now r s = (Inr (), s1)" "good s1"
    "only_at (index_cells r (owned s now r)) s s1" "owned s1 now r = []"
    "\<And>k. set (refs_at s1 now k) =
      (if k \<in> set (owned s now r) then set (refs_at s now k) - {r} else set (refs_at s now k))"
    by (rule releaseKeys_ok [OF assms(1), of now r]) auto
  obtain s2 where s2: "for_each (\<lambda>k. addRef ops now k r) held s1 = (Inr (), s2)" "good s2"
    "only_at (key_cells held) s1 s2"
    "\<And>k. set (refs_at s2 now k) = (if k \<in> set held then insert r (set (refs_at s1 now k)) else set (refs_at s1 now k))"
    by (rule add_loop [OF s1(2), of now r held]) auto
  have refs: "set (refs_at s2 now k) =
      (if k \<in> set held then insert r (set (refs_at s now k))
       else if k \<in> set (owned s now r) then set (refs_at s now k) - {r} else set (refs_at s now k))" for k
    by (auto simp: s2(4) s1(5))
  have "(CollKeyOwner, ownerKey r) \<notin> key_cells held" by (simp add: image_iff)
  then have own: "owned s2 now r = []" using owned_only_at [OF s2(3), of r now] s1(4) by simp
  have o2: "only_at (index_cells r (owned s now r @ held)) s s2"
    by (rule only_at_mono [OF only_at_trans [OF s1(3) s2(3)]]) (auto simp: index_cells_def)
  show thesis
  proof (cases "held = []")
    case True
    with s1(1) s2(1) have "Index ops now res r canonical s = (Inr (), s2)"
      by (simp add: Index_def andThen_def held_def [symmetric] Let_def)
    from that [OF this s2(2) o2 _ refs] True own show thesis by simp
  next
    case False
    have m: "marshals (DocKeys (sort_strings held))" "fits CollKeyOwner (DocKeys (sort_strings held))"
      by simp_all
    obtain s3 where s3: "put_doc ops ''identity: encode key owner'' now CollKeyOwner (ownerKey r)
        (DocKeys (sort_strings held)) 0 s2 = (Inr (), s3)" "good s3"
      "only_at {(CollKeyOwner, ownerKey r)} s2 s3"
      "\<And>t. view s3 t CollKeyOwner (ownerKey r) = Some (stored (DocKeys (sort_strings held)))"
      by (rule put_doc_ok [OF s2(2) coll_name_simps(10) m, of "''identity: encode key owner''" now
            "ownerKey r" 0]) auto
    have "Index ops now res r canonical s = (Inr (), s3)"
      using s1(1) s2(1) s3(1) False by (simp add: Index_def andThen_def held_def [symmetric] Let_def)
    moreover have "only_at (index_cells r (owned s now r @ held)) s s3"
      by (rule only_at_mono [OF only_at_trans [OF o2 s3(3)]]) (auto simp: index_cells_def)
    moreover have "set (owned s3 now r) = set held" using s3(4) by (simp add: owned_def)
    moreover have "set (refs_at s3 now k) = set (refs_at s2 now k)" for k
      using refs_at_only_at [OF s3(3), of k now] by simp
    ultimately show thesis using s3(2) refs that by simp
  qed
qed

text \<open>Every record of the peer filed under one of the record's keys.\<close>

definition matches :: "'s \<Rightarrow> gotime \<Rightarrow> id_resolver \<Rightarrow> string \<Rightarrow> fields \<Rightarrow> ref set" where
  "matches s now res connector canonical =
     (\<Union>k \<in> set (held_keys res connector (id_kind res) canonical). set (refs_at s now k))"

text \<open>What the second and third tier decide from the set of matches.\<close>

definition decided :: "id_resolver \<Rightarrow> ref set \<Rightarrow> id_resolution \<Rightarrow> bool" where
  "decided res M r \<longleftrightarrow> ir_outcome r \<noteq> Linked \<and>
     (ir_outcome r = Matched \<longleftrightarrow> (\<exists>p. M = {p})) \<and> (ir_outcome r = Matched \<longrightarrow> M = {ir_peer r}) \<and>
     (M = {} \<longrightarrow> ir_outcome r = (if id_on_ambiguous res = OnAmbiguousSkip then Skip else Create)) \<and>
     ((\<exists>p q. p \<in> M \<and> q \<in> M \<and> p \<noteq> q) \<longrightarrow> set (ir_candidates r) = M \<and>
        ir_outcome r = (if id_on_ambiguous res = OnAmbiguousCreate then Create
                        else if id_on_ambiguous res = OnAmbiguousSkip then Skip else Review))"

lemma fold_dedup:
  "set (fold (\<lambda>r out. if r \<in> set out then out else out @ [r]) rs out) = set out \<union> set rs \<and>
   (distinct out \<longrightarrow> distinct (fold (\<lambda>r out. if r \<in> set out then out else out @ [r]) rs out))"
  by (induction rs arbitrary: out) auto

lemma held_keys_simps:
  "held_keys res c k f = List.map_filter (\<lambda>name. case map_of f name of None \<Rightarrow> None
     | Some v \<Rightarrow> if isEmpty v then None else Some (keyString c k name v)) (id_keys res)"
  by (simp add: held_keys_def)

lemma gather_ok:
  assumes "good s"
  shows "\<exists>out' m'. gather ops now c kind canonical names (out, m) s = (Inr (out', m'), s) \<and>
    set out' = set out \<union> (\<Union>k \<in> set (held_keys \<lparr>id_kind = kind, id_keys = names, id_on_ambiguous = a\<rparr>
       c kind canonical). set (refs_at s now k)) \<and>
    (distinct out \<longrightarrow> distinct out') \<and> (m' = [] \<longrightarrow> m = [] \<and> set out' = set out)"
proof (induction names arbitrary: out m)
  case Nil
  then show ?case by (simp add: held_keys_def List.map_filter_def)
next
  case (Cons n names)
  let ?h = "\<lambda>ns. held_keys \<lparr>id_kind = kind, id_keys = ns, id_on_ambiguous = a\<rparr> c kind canonical"
  show ?case
  proof (cases "map_of canonical n")
    case None
    then have "?h (n # names) = ?h names" by (simp add: held_keys_def List.map_filter_def)
    with None Cons.IH [of out m] show ?thesis by simp
  next
    case (Some v)
    show ?thesis
    proof (cases "isEmpty v")
      case True
      with Some have "?h (n # names) = ?h names" by (simp add: held_keys_def List.map_filter_def)
      with Some True Cons.IH [of out m] show ?thesis by simp
    next
      case False
      let ?k = "keyString c kind n v"
      have h: "?h (n # names) = ?k # ?h names"
        using Some False by (simp add: held_keys_def List.map_filter_def)
      have l: "loadKey ops now ?k s = (Inr (refs_at s now ?k), s)" by (rule loadKey_ok [OF assms])
      show ?thesis
      proof (cases "refs_at s now ?k = []")
        case True
        with Some False Cons.IH [of out m] show ?thesis by (simp add: andThen_def l h)
      next
        case nonempty: False
        let ?out = "fold (\<lambda>r out. if r \<in> set out then out else out @ [r]) (refs_at s now ?k) out"
        from Cons.IH [of ?out "m @ [n]"] obtain out' m' where
          "gather ops now c kind canonical names (?out, m @ [n]) s = (Inr (out', m'), s)"
          "set out' = set ?out \<union> (\<Union>k \<in> set (?h names). set (refs_at s now k))"
          "distinct ?out \<longrightarrow> distinct out'" "m' = [] \<longrightarrow> m @ [n] = []" by auto
        then show ?thesis using Some False nonempty fold_dedup [of "refs_at s now ?k" out]
          by (auto simp: andThen_def l h)
      qed
    qed
  qed
qed

lemma candidates_ok:
  assumes "good s"
  obtains cs m where "candidates ops now res c canonical s = (Inr (cs, m), s)"
    "set cs = matches s now res c canonical" "distinct cs"
proof -
  obtain kind keys a where res: "res = \<lparr>id_kind = kind, id_keys = keys, id_on_ambiguous = a\<rparr>"
    by (cases res)
  from gather_ok [OF assms, of now c kind canonical keys "[]" "[]" a] obtain out m where
    g: "gather ops now c kind canonical keys ([], []) s = (Inr (out, m), s)"
      "set out = matches s now res c canonical" "distinct out" "m = [] \<longrightarrow> out = []"
    by (auto simp: matches_def res)
  show thesis
  proof (cases "m = []")
    case True
    with g show thesis by (intro that [of "[]" "''''"]) (simp_all add: candidates_def andThen_def res)
  next
    case False
    with g show thesis
      by (intro that [of "sort_key ref_remote_id out" "joinNames m"])
         (simp_all add: candidates_def andThen_def res)
  qed
qed

lemma by_keys_ok:
  assumes "good s"
  shows "\<exists>r. by_keys ops now res c canonical s = (Inr r, s) \<and>
    decided res (matches s now res c canonical) r"
proof -
  obtain cs m where cs: "candidates ops now res c canonical s = (Inr (cs, m), s)"
    "set cs = matches s now res c canonical" "distinct cs" by (rule candidates_ok [OF assms])
  consider "cs = []" | p where "cs = [p]" | p q rs where "cs = p # q # rs"
    by (metis list.exhaust)
  then show ?thesis
  proof cases
    case 1
    then have "matches s now res c canonical = {}" using cs(2) by simp
    moreover have "by_keys ops now res c canonical s = (Inr (noMatch res), s)"
      using 1 cs(1) by (simp add: by_keys_def andThen_def)
    ultimately show ?thesis by (auto simp: noMatch_def decided_def)
  next
    case 2
    then have "matches s now res c canonical = {p}" using cs(2) by simp
    with 2 cs(1) show ?thesis by (auto simp: by_keys_def andThen_def decided_def)
  next
    case 3
    with cs(2,3) have m: "p \<in> matches s now res c canonical" "q \<in> matches s now res c canonical" "p \<noteq> q"
      by auto
    let ?o = "if id_on_ambiguous res = OnAmbiguousCreate then Create
              else if id_on_ambiguous res = OnAmbiguousSkip then Skip else Review"
    obtain r where r: "by_keys ops now res c canonical s = (Inr r, s)" "ir_outcome r = ?o"
      "ir_candidates r = cs"
      using 3 cs(1) by (auto simp: by_keys_def andThen_def)
    have "ir_outcome r \<noteq> Matched" "ir_outcome r \<noteq> Linked" using r(2) by simp_all
    with r m cs(2) show ?thesis by (auto simp: decided_def)
  qed
qed

lemma identity_Resolve_ok:
  assumes "good s"
  shows "identity_Resolve ops now res from c canonical s =
    (case Option.bind (linked s now from) (\<lambda>l. Peer l from) of
       Some p \<Rightarrow> (Inr \<lparr>ir_outcome = Linked, ir_peer = p, ir_candidates = [], ir_reason = ''linked''\<rparr>, s)
     | None \<Rightarrow> by_keys ops now res c canonical s)"
  by (simp add: identity_Resolve_def andThen_def GetLink_ok [OF assms] split: option.split)

end

section \<open>Properties\<close>

text \<open>
  C23: Identity is never guessed. A linked record resolves to its link, whatever the keys say.
  Otherwise the answer depends only on the set of peer records filed under the record's own key
  values: it is a match exactly when that set has one element, and then that element; with none
  the record is created (or skipped by policy), and with several the operator's policy decides,
  which by default is review and never one of them. Resolving changes nothing.
\<close>

theorem identity_never_guesses:
  assumes "mem_docs.good s"
  shows "\<exists>r. identity_Resolve mem_ops now res from c canonical s = (Inr r, s) \<and>
    (case Option.bind (mem_docs.linked s now from) (\<lambda>l. Peer l from) of
       Some p \<Rightarrow> ir_outcome r = Linked \<and> ir_peer r = p
     | None \<Rightarrow>
         let M = mem_docs.matches s now res c canonical
         in (ir_outcome r = Matched \<longleftrightarrow> (\<exists>p. M = {p})) \<and> (ir_outcome r = Matched \<longrightarrow> M = {ir_peer r}) \<and>
            (M = {} \<longrightarrow> ir_outcome r = (if id_on_ambiguous res = OnAmbiguousSkip then Skip else Create)) \<and>
            ((\<exists>p q. p \<in> M \<and> q \<in> M \<and> p \<noteq> q) \<longrightarrow> set (ir_candidates r) = M \<and>
               ir_outcome r = (if id_on_ambiguous res = OnAmbiguousCreate then Create
                               else if id_on_ambiguous res = OnAmbiguousSkip then Skip else Review)))"
proof (cases "Option.bind (mem_docs.linked s now from) (\<lambda>l. Peer l from)")
  case None
  then show ?thesis
    using mem_docs.by_keys_ok [OF assms, of now res c canonical]
    unfolding mem_docs.identity_Resolve_ok [OF assms] mem_docs.decided_def None option.case Let_def
    by blast
next
  case (Some p)
  then show ?thesis unfolding mem_docs.identity_Resolve_ok [OF assms] by simp
qed

definition example_resolver :: id_resolver where
  "example_resolver = identity_New ''contact'' [''email''] ''''"

theorem identity_never_guesses_witness:
  "\<exists>r. identity_Resolve mem_ops 5 example_resolver (example_ref ''hub'' ''1'') ''sales''
      [(''email'', VStr ''a@b'')] NewMem = (Inr r, NewMem) \<and> ir_outcome r = Create"
proof -
  have m: "mem_docs.matches NewMem 5 example_resolver ''sales'' [(''email'', VStr ''a@b'')] = {}"
    by (simp add: mem_docs.matches_def mem_docs.refs_at_def)
  have l: "Option.bind (mem_docs.linked NewMem 5 (example_ref ''hub'' ''1''))
      (\<lambda>l. Peer l (example_ref ''hub'' ''1'')) = None" by (simp add: mem_docs.linked_def)
  have a: "id_on_ambiguous example_resolver \<noteq> OnAmbiguousSkip" by code_simp
  show ?thesis
    using identity_never_guesses [OF good_NewMem, of 5 example_resolver "example_ref ''hub'' ''1''"
        "''sales''" "[(''email'', VStr ''a@b'')]"] m a
    unfolding l option.case Let_def by auto
qed

text \<open>
  A record answers to its current keys only. Indexing a record whose entries are exact leaves
  them exact: it is filed under precisely the key values it now has, no longer under any it had
  before, and no other record is filed or removed anywhere. Deindexing leaves it under no key.
\<close>

theorem index_releases_old_keys:
  assumes "mem_docs.good s" and "mem_docs.indexed s now r"
  shows "\<exists>s' s''. Index mem_ops now res r canonical s = (Inr (), s') \<and>
    (\<forall>k. r \<in> set (mem_docs.refs_at s' now k) \<longleftrightarrow>
       k \<in> set (held_keys res (ref_connector r) (ref_kind r) canonical)) \<and>
    (\<forall>k q. q \<noteq> r \<longrightarrow> q \<in> set (mem_docs.refs_at s' now k) \<longleftrightarrow> q \<in> set (mem_docs.refs_at s now k)) \<and>
    mem_docs.indexed s' now r \<and>
    Deindex mem_ops now r s' = (Inr (), s'') \<and>
    (\<forall>k q. q \<in> set (mem_docs.refs_at s'' now k) \<longleftrightarrow> q \<noteq> r \<and> q \<in> set (mem_docs.refs_at s now k))"
proof -
  let ?held = "held_keys res (ref_connector r) (ref_kind r) canonical"
  obtain s' where s': "Index mem_ops now res r canonical s = (Inr (), s')" "mem_docs.good s'"
    "set (mem_docs.owned s' now r) = set ?held"
    "\<And>k. set (mem_docs.refs_at s' now k) =
      (if k \<in> set ?held then insert r (set (mem_docs.refs_at s now k))
       else if k \<in> set (mem_docs.owned s now r) then set (mem_docs.refs_at s now k) - {r}
       else set (mem_docs.refs_at s now k))"
    by (rule mem_docs.Index_ok [OF assms(1) refl, of now res r canonical]) auto
  obtain s'' where s'': "releaseKeys mem_ops now r s' = (Inr (), s'')"
    "\<And>k. set (mem_docs.refs_at s'' now k) =
      (if k \<in> set (mem_docs.owned s' now r) then set (mem_docs.refs_at s' now k) - {r}
       else set (mem_docs.refs_at s' now k))"
    by (rule mem_docs.releaseKeys_ok [OF s'(2), of now r]) auto
  have ix: "r \<in> set (mem_docs.refs_at s now k) \<longleftrightarrow> k \<in> set (mem_docs.owned s now r)" for k
    using assms(2) by (simp add: mem_docs.indexed_def)
  have r: "r \<in> set (mem_docs.refs_at s' now k) \<longleftrightarrow> k \<in> set ?held" for k
    using ix by (simp add: s'(4))
  have q: "q \<in> set (mem_docs.refs_at s' now k) \<longleftrightarrow> q \<in> set (mem_docs.refs_at s now k)"
    if "q \<noteq> r" for k q using that by (simp add: s'(4))
  have "mem_docs.indexed s' now r" using r s'(3) by (simp add: mem_docs.indexed_def)
  moreover have "q \<in> set (mem_docs.refs_at s'' now k) \<longleftrightarrow> q \<noteq> r \<and> q \<in> set (mem_docs.refs_at s now k)" for k q
    using r [of k] q [of q k] s'(3) by (cases "q = r") (auto simp: s''(2))
  ultimately show ?thesis using s'(1) r q s''(1) by (auto simp: Deindex_def)
qed

theorem index_releases_old_keys_witness:
  "\<exists>s'. Index mem_ops 5 example_resolver (example_ref ''hub'' ''1'') [(''email'', VStr ''a@b'')] NewMem
       = (Inr (), s') \<and>
     example_ref ''hub'' ''1'' \<in> set (mem_docs.refs_at s' 5 (keyString ''hub'' ''contact'' ''email'' (VStr ''a@b'')))"
proof -
  let ?r = "example_ref ''hub'' ''1''" and ?c = "[(''email'', VStr ''a@b'')]"
  have i: "mem_docs.indexed NewMem 5 ?r"
    by (simp add: mem_docs.indexed_def mem_docs.refs_at_def mem_docs.owned_def)
  have "held_keys example_resolver (ref_connector ?r) (ref_kind ?r) ?c =
      [keyString ''hub'' ''contact'' ''email'' (VStr ''a@b'')]" by code_simp
  then show ?thesis using index_releases_old_keys [OF good_NewMem i, of example_resolver ?c] by auto
qed

end
