(* ===== verification/Rate_Limit.thy ===== *)
theory Rate_Limit
  imports Errors Complex_Main
begin

text \<open>
  \<^verbatim>\<open>internal/ratelimit/ratelimit.go\<close>: the adaptive token bucket. The \<^verbatim>\<open>float64\<close>
  quantities are exact rationals; the constants of the algorithm are powers of two, so the only
  rounding left out is that of products and quotients. \<^verbatim>\<open>time.Duration(x)\<close> of a positive
  number truncates, which is the floor. Counters are unbounded.

  A method reads the clock once, so it takes the time. \<^verbatim>\<open>Wait\<close> sleeps on the clock: its
  state is the bucket with the clock, and a sleep that is not cut short ends when it is due.
\<close>

section \<open>The bucket\<close>

definition shrinkFactor :: rat where "shrinkFactor = 1 / 2"
definition minRateFraction :: rat where "minRateFraction = 1 / 8"
definition recoverFactor :: rat where "recoverFactor = 5 / 4"
definition recoverAfter :: int where "recoverAfter = 20"

record bucket =
  bk_configured :: rat
  bk_rate :: rat
  bk_burst :: rat
  bk_tokens :: rat
  bk_last :: gotime
  bk_blocked_until :: gotime
  bk_successes :: int
  bk_granted :: int
  bk_waited :: int
  bk_wait_total :: duration
  bk_rejections :: int

definition bucket_New :: "gotime \<Rightarrow> rat \<Rightarrow> int \<Rightarrow> bucket" where
  "bucket_New now ratePerSec burst0 =
     (let rate = (if ratePerSec \<le> 0 then 1 else ratePerSec);
          burst = (if burst0 < 1 then 1 else burst0)
      in \<lparr>bk_configured = rate, bk_rate = rate, bk_burst = of_int burst, bk_tokens = of_int burst,
          bk_last = now, bk_blocked_until = zero_time, bk_successes = 0, bk_granted = 0,
          bk_waited = 0, bk_wait_total = 0, bk_rejections = 0\<rparr>)"

definition seconds :: "duration \<Rightarrow> rat" where
  "seconds d = of_int d / 1000000000"

definition refill :: "gotime \<Rightarrow> bucket \<Rightarrow> bucket" where
  "refill now b =
     (let elapsed = time_sub now (bk_last b)
      in if elapsed \<le> 0 then b
         else b\<lparr>bk_last := now,
                bk_tokens := min (bk_burst b) (bk_tokens b + seconds elapsed * bk_rate b)\<rparr>)"

text \<open>The truncated time a negative balance takes to earn back.\<close>

definition owed_wait :: "rat \<Rightarrow> rat \<Rightarrow> duration" where
  "owed_wait tokens rate = \<lfloor>- tokens / rate * 1000000000\<rfloor>"

definition Reserve :: "gotime \<Rightarrow> bucket \<Rightarrow> duration \<times> bucket" where
  "Reserve now b0 =
     (let b = refill now b0;
          wait0 = (if bk_blocked_until b > now then time_sub (bk_blocked_until b) now else 0);
          tokens = bk_tokens b - 1;
          owed = owed_wait tokens (bk_rate b);
          wait = (if tokens < 0 \<and> owed > wait0 then owed else wait0);
          b' = b\<lparr>bk_tokens := tokens, bk_granted := bk_granted b + 1\<rparr>
      in (wait, if wait > 0 then b'\<lparr>bk_waited := bk_waited b' + 1, bk_wait_total := bk_wait_total b' + wait\<rparr>
                else b'))"

definition Wait :: "bool \<Rightarrow> (bucket \<times> gotime, gerr, unit) st" where
  "Wait cancelled = (\<lambda>(b, now).
     case Reserve now b of (wait, b') \<Rightarrow>
       if cancelled then (Inl ErrCtx, (b', now))
       else (Inr (), (b', if wait \<le> 0 then now else now + wait)))"

definition Allow :: "gotime \<Rightarrow> bucket \<Rightarrow> bool \<times> bucket" where
  "Allow now b0 =
     (let b = refill now b0
      in if bk_blocked_until b > now \<or> bk_tokens b < 1 then (False, b)
         else (True, b\<lparr>bk_tokens := bk_tokens b - 1, bk_granted := bk_granted b + 1\<rparr>))"

definition Reject :: "gotime \<Rightarrow> duration \<Rightarrow> bucket \<Rightarrow> bucket" where
  "Reject now retryAfter b =
     (let rate = max (bk_configured b * minRateFraction) (bk_rate b * shrinkFactor);
          wait = (if retryAfter \<le> 0 then \<lfloor>1000000000 / rate\<rfloor> else retryAfter);
          until = now + wait
      in b\<lparr>bk_rejections := bk_rejections b + 1, bk_successes := 0, bk_rate := rate,
           bk_tokens := (if bk_tokens b > 0 then 0 else bk_tokens b), bk_last := now,
           bk_blocked_until := (if until > bk_blocked_until b then until else bk_blocked_until b)\<rparr>)"

definition Success :: "bucket \<Rightarrow> bucket" where
  "Success b =
     (if bk_rate b \<ge> bk_configured b then b
      else let n = bk_successes b + 1
      in if n < recoverAfter then b\<lparr>bk_successes := n\<rparr>
         else b\<lparr>bk_successes := 0, bk_rate := min (bk_configured b) (bk_rate b * recoverFactor)\<rparr>)"

definition BlockedFor :: "gotime \<Rightarrow> bucket \<Rightarrow> duration" where
  "BlockedFor now b = (let d = time_sub (bk_blocked_until b) now in if d > 0 then d else 0)"

text \<open>A bucket per connector.\<close>

type_synonym bucket_set = "(string, bucket) gomap"

definition set_Add :: "gotime \<Rightarrow> string \<Rightarrow> rat \<Rightarrow> int \<Rightarrow> bucket_set \<Rightarrow> bucket \<times> bucket_set" where
  "set_Add now connector ratePerSec burst s =
     (let b = bucket_New now ratePerSec burst in (b, AList.update connector b s))"

definition set_For :: "gotime \<Rightarrow> string \<Rightarrow> bucket_set \<Rightarrow> bucket \<times> bucket_set" where
  "set_For now connector s =
     (case map_of s connector of
        Some b \<Rightarrow> (b, s)
      | None \<Rightarrow> (let b = bucket_New now 5 10 in (b, AList.update connector b s)))"

section \<open>Invariants\<close>

text \<open>The rate stays between an eighth of the configured one and the configured one.\<close>

definition wf_bucket :: "bucket \<Rightarrow> bool" where
  "wf_bucket b \<longleftrightarrow>
     0 < bk_configured b \<and> bk_configured b * minRateFraction \<le> bk_rate b \<and> bk_rate b \<le> bk_configured b \<and>
     1 \<le> bk_burst b \<and> bk_tokens b \<le> bk_burst b \<and> 0 \<le> bk_successes b \<and> bk_successes b < recoverAfter"

text \<open>The calls a bucket sees, at times that do not go back.\<close>

inductive bucket_run :: "gotime \<Rightarrow> rat \<Rightarrow> int \<Rightarrow> bucket \<Rightarrow> bool" for start rate burst where
  fresh: "bucket_run start rate burst (bucket_New start rate burst)"
| reserve: "bucket_run start rate burst b \<Longrightarrow> bk_last b \<le> now \<Longrightarrow>
    bucket_run start rate burst (snd (Reserve now b))"
| allow: "bucket_run start rate burst b \<Longrightarrow> bk_last b \<le> now \<Longrightarrow>
    bucket_run start rate burst (snd (Allow now b))"
| reject: "bucket_run start rate burst b \<Longrightarrow> bk_last b \<le> now \<Longrightarrow>
    bucket_run start rate burst (Reject now d b)"
| success: "bucket_run start rate burst b \<Longrightarrow> bucket_run start rate burst (Success b)"

lemma wf_rate_pos: "wf_bucket b \<Longrightarrow> 0 < bk_rate b"
  by (auto simp: wf_bucket_def minRateFraction_def intro: less_le_trans)

lemma wf_New: "wf_bucket (bucket_New now r n)"
  by (simp add: wf_bucket_def bucket_New_def minRateFraction_def recoverAfter_def Let_def)

lemma wf_refill: "wf_bucket b \<Longrightarrow> wf_bucket (refill now b)"
  by (simp add: wf_bucket_def refill_def Let_def)

lemma Reserve_bucket:
  "\<exists>w t. snd (Reserve now b) = (refill now b)\<lparr>bk_tokens := bk_tokens (refill now b) - 1,
     bk_granted := bk_granted (refill now b) + 1, bk_waited := w, bk_wait_total := t\<rparr>"
proof -
  obtain w where "fst (Reserve now b) = w" by simp
  then show ?thesis unfolding Reserve_def Let_def by (cases "refill now b") auto
qed

lemma wf_Reserve: "wf_bucket b \<Longrightarrow> wf_bucket (snd (Reserve now b))"
  using wf_refill [of b now] Reserve_bucket [of now b] by (auto simp: wf_bucket_def)

lemma wf_Allow: "wf_bucket b \<Longrightarrow> wf_bucket (snd (Allow now b))"
  using wf_refill [of b now] by (auto simp: Allow_def Let_def wf_bucket_def)

lemma wf_Reject: "wf_bucket b \<Longrightarrow> wf_bucket (Reject now d b)"
  by (auto simp: wf_bucket_def Reject_def Let_def shrinkFactor_def minRateFraction_def recoverAfter_def)

lemma wf_Success: "wf_bucket b \<Longrightarrow> wf_bucket (Success b)"
  by (auto simp: wf_bucket_def Success_def Let_def recoverFactor_def minRateFraction_def recoverAfter_def
      min_def)

lemma bucket_run_wf: "bucket_run start rate burst b \<Longrightarrow> wf_bucket b"
  by (induction rule: bucket_run.induct) (auto intro: wf_New wf_Reserve wf_Allow wf_Reject wf_Success)

section \<open>The credit argument\<close>

text \<open>
  Every grant is paid for: what has been granted, with what is left, is at most the burst plus
  what the configured rate earns since the start.
\<close>

definition credit :: "gotime \<Rightarrow> bucket \<Rightarrow> bool" where
  "credit start b \<longleftrightarrow> start \<le> bk_last b \<and>
     bk_tokens b + of_int (bk_granted b) \<le> bk_burst b + seconds (bk_last b - start) * bk_configured b"

lemma seconds_add: "seconds (a + b) = seconds a + seconds b"
  by (simp add: seconds_def add_divide_distrib)

lemma seconds_mono: "a \<le> b \<Longrightarrow> seconds a \<le> seconds b"
  by (simp add: seconds_def divide_right_mono)

lemma seconds_nonneg: "0 \<le> a \<Longrightarrow> 0 \<le> seconds a"
  by (simp add: seconds_def)

lemma time_sub_le: "t \<le> now \<Longrightarrow> time_sub now t \<le> now - t"
  by (simp add: time_sub_def)

lemma refill_last: "bk_last b \<le> now \<Longrightarrow> bk_last (refill now b) = now"
  by (auto simp: refill_def Let_def time_sub_def)

lemma refill_fields [simp]:
  "bk_configured (refill now b) = bk_configured b" "bk_burst (refill now b) = bk_burst b"
  "bk_granted (refill now b) = bk_granted b" "bk_rate (refill now b) = bk_rate b"
  by (simp_all add: refill_def Let_def)

lemma earned:
  assumes "wf_bucket b" "bk_last b \<le> now"
  shows "bk_tokens (refill now b) \<le> bk_tokens b + seconds (now - bk_last b) * bk_configured b"
proof -
  let ?e = "time_sub now (bk_last b)"
  have "seconds ?e * bk_rate b \<le> seconds (now - bk_last b) * bk_configured b" if "0 < ?e"
    using assms that wf_rate_pos [OF assms(1)]
    by (intro mult_mono seconds_mono time_sub_le seconds_nonneg) (auto simp: wf_bucket_def)
  moreover have "0 \<le> seconds (now - bk_last b) * bk_configured b"
    using assms by (intro mult_nonneg_nonneg seconds_nonneg) (auto simp: wf_bucket_def)
  ultimately show ?thesis by (auto simp: refill_def Let_def)
qed

lemma credit_refill:
  assumes "wf_bucket b" "bk_last b \<le> now" "credit start b"
  shows "credit start (refill now b)"
proof -
  have "seconds (now - start) = seconds (now - bk_last b) + seconds (bk_last b - start)"
    by (simp add: seconds_add [symmetric])
  with earned [OF assms(1,2)] assms(2,3) show ?thesis
    by (simp add: credit_def refill_last [OF assms(2)] distrib_right)
qed

lemma credit_Reserve:
  assumes "wf_bucket b" "bk_last b \<le> now" "credit start b"
  shows "credit start (snd (Reserve now b))"
  using credit_refill [OF assms] Reserve_bucket [of now b] by (auto simp: credit_def)

lemma credit_Allow:
  assumes "wf_bucket b" "bk_last b \<le> now" "credit start b"
  shows "credit start (snd (Allow now b))"
  using credit_refill [OF assms] by (auto simp: Allow_def Let_def credit_def)

lemma credit_Reject:
  assumes "wf_bucket b" "bk_last b \<le> now" "credit start b"
  shows "credit start (Reject now d b)"
proof -
  have "seconds (bk_last b - start) * bk_configured b \<le> seconds (now - start) * bk_configured b"
    using assms by (intro mult_right_mono seconds_mono) (auto simp: wf_bucket_def)
  with assms show ?thesis by (auto simp: credit_def Reject_def Let_def)
qed

lemma credit_Success: "credit start b \<Longrightarrow> credit start (Success b)"
  by (simp add: credit_def Success_def Let_def)

lemma bucket_run_credit: "bucket_run start rate burst b \<Longrightarrow> credit start b"
proof (induction rule: bucket_run.induct)
  case fresh
  then show ?case by (simp add: credit_def bucket_New_def seconds_def Let_def)
qed (auto intro: credit_Reserve credit_Allow credit_Reject credit_Success dest: bucket_run_wf)

lemma Reserve_wait:
  assumes "bk_tokens (snd (Reserve now b)) < 0"
  shows "- bk_tokens (snd (Reserve now b)) / bk_rate b * 1000000000 < of_int (fst (Reserve now b)) + 1"
proof -
  let ?t = "bk_tokens (refill now b) - 1"
  have t: "bk_tokens (snd (Reserve now b)) = ?t" using Reserve_bucket [of now b] by auto
  have "owed_wait ?t (bk_rate b) \<le> fst (Reserve now b)"
    using assms unfolding t by (simp add: Reserve_def Let_def)
  then have "- ?t / bk_rate b * 1000000000 < of_int (fst (Reserve now b) + 1)"
    unfolding owed_wait_def by linarith
  then show ?thesis unfolding t by simp
qed

lemma Reserve_nonneg: "0 \<le> fst (Reserve now b)"
proof -
  have "0 \<le> (if bk_blocked_until (refill now b) > now then time_sub (bk_blocked_until (refill now b)) now else 0)"
    by (simp add: time_sub_def)
  then show ?thesis by (auto simp: Reserve_def Let_def)
qed

section \<open>Properties\<close>

text \<open>
  The effective rate adapts within fixed bounds. Whatever calls a bucket sees, in whatever
  order, its rate never exceeds the configured one and never falls below an eighth of it, the
  balance never exceeds the burst, a rejection halves the rate down to that floor and empties
  the bucket, and a success never lowers the rate.
\<close>

theorem rate_bounded:
  assumes "bucket_run start rate burst b"
  shows "bk_configured b / 8 \<le> bk_rate b \<and> bk_rate b \<le> bk_configured b \<and> 0 < bk_rate b \<and>
    bk_tokens b \<le> bk_burst b \<and>
    bk_rate (Reject now d b) = max (bk_configured b / 8) (bk_rate b / 2) \<and>
    bk_tokens (Reject now d b) \<le> 0 \<and>
    bk_rate b \<le> bk_rate (Success b)"
  using bucket_run_wf [OF assms] wf_rate_pos [OF bucket_run_wf [OF assms]]
  by (auto simp: wf_bucket_def minRateFraction_def shrinkFactor_def Reject_def Success_def Let_def
      recoverFactor_def)

theorem rate_bounded_witness:
  "bk_rate (Reject 7 0 (Reject 5 0 (bucket_New 0 8 10))) = 2"
proof -
  have "bucket_run 0 8 10 (bucket_New 0 8 10)" by (rule bucket_run.fresh)
  then have r: "bucket_run 0 8 10 (Reject 5 0 (bucket_New 0 8 10))"
    by (rule bucket_run.reject) (simp add: bucket_New_def)
  show ?thesis using rate_bounded [OF r, of 7 0]
    by (simp add: Reject_def bucket_New_def Let_def minRateFraction_def shrinkFactor_def)
qed



text \<open>
  A peer that says when to come back is obeyed. After a rejection with a positive hint no
  token is given out before that time, and every reservation is told to wait at least until then.
\<close>

theorem retry_after_honoured:
  assumes "0 < retryAfter" and "now \<le> t" and "t < now + retryAfter" and "retryAfter < 2 ^ 63"
    and "bk_blocked_until b < now + 2 ^ 63"
  shows "\<not> fst (Allow t (Reject now retryAfter b)) \<and>
    now + retryAfter \<le> t + fst (Reserve t (Reject now retryAfter b))"
proof -
  let ?b = "Reject now retryAfter b"
  have u: "now + retryAfter \<le> bk_blocked_until ?b" "bk_blocked_until ?b \<le> now + 2 ^ 63 - 1"
    using assms by (auto simp: Reject_def Let_def)
  have r: "bk_blocked_until (refill t ?b) = bk_blocked_until ?b" by (simp add: refill_def Let_def)
  have "time_sub (bk_blocked_until ?b) t = bk_blocked_until ?b - t"
    using u assms by (intro time_sub_exact) (auto simp: int64_def)
  moreover have "time_sub (bk_blocked_until ?b) t \<le> fst (Reserve t ?b)"
    using u(1) assms(3) r by (auto simp: Reserve_def Let_def)
  ultimately show ?thesis using u(1) assms(3) r by (simp add: Allow_def Let_def)
qed

theorem retry_after_honoured_witness:
  "10 \<le> 4 + fst (Reserve 4 (Reject 2 8 (bucket_New 0 2 1)))"
  using retry_after_honoured [of 8 2 4 "bucket_New 0 2 1"] by (simp add: bucket_New_def)

end
