(* ===== verification/Watermarks.thy ===== *)
theory Watermarks
  imports Typed_Store
begin

text \<open>
  \<^verbatim>\<open>internal/watermark/watermark.go\<close>: how far a delta read has got. A mark is stored as
  nanoseconds of the Unix epoch in an \<^verbatim>\<open>int64\<close>, so a time is kept exactly between the
  years 1678 and 2262.
\<close>

section \<open>The tracker\<close>

definition DefaultOverlap :: duration where
  "DefaultOverlap = 2 * minute"

definition CoarseOverlap :: duration where
  "CoarseOverlap = 5 * minute"

record peer_config =
  pc_overlap :: duration
  pc_exact_timestamps :: bool

definition Overlap :: "(string, peer_config) gomap \<Rightarrow> string \<Rightarrow> duration" where
  "Overlap peers connector =
     (let cfg = (case map_of peers connector of
                   Some c \<Rightarrow> c
                 | None \<Rightarrow> \<lparr>pc_overlap = 0, pc_exact_timestamps = False\<rparr>);
          overlap = (if pc_overlap cfg \<le> 0 then DefaultOverlap else pc_overlap cfg)
      in if \<not> pc_exact_timestamps cfg \<and> overlap < CoarseOverlap then CoarseOverlap else overlap)"

definition Since ::
  "('s, doc) store_ops \<Rightarrow> (string, peer_config) gomap \<Rightarrow> gotime \<Rightarrow> string \<Rightarrow> string \<Rightarrow>
     ('s, gerr, gotime option) st" where
  "Since ops peers now connector kind =
     andThen (Watermark ops now connector kind)
       (\<lambda>mark. ret (map_option (\<lambda>m. m - Overlap peers connector) mark))"

definition Mark ::
  "('s, doc) store_ops \<Rightarrow> gotime \<Rightarrow> string \<Rightarrow> string \<Rightarrow> ('s, gerr, gotime option) st" where
  "Mark ops now connector kind = Watermark ops now connector kind"

definition Advance ::
  "('s, doc) store_ops \<Rightarrow> gotime \<Rightarrow> string \<Rightarrow> string \<Rightarrow> gotime \<Rightarrow> ('s, gerr, unit) st" where
  "Advance ops now connector kind highest0 =
     (if highest0 = zero_time then ret ()
      else let highest = (if highest0 > now then now else highest0)
      in andThen (Watermark ops now connector kind) (\<lambda>current.
           case current of
             Some c \<Rightarrow> if \<not> highest > c then ret () else SetWatermark ops now connector kind highest
           | None \<Rightarrow> SetWatermark ops now connector kind highest))"

definition highest_step :: "gotime \<Rightarrow> gotime \<Rightarrow> gotime" where
  "highest_step t out = (if t = zero_time then out else if out = zero_time \<or> t > out then t else out)"

definition Highest :: "gotime list \<Rightarrow> gotime" where
  "Highest ts = fold highest_step ts zero_time"

definition Lag ::
  "('s, doc) store_ops \<Rightarrow> gotime \<Rightarrow> string \<Rightarrow> string \<Rightarrow> ('s, gerr, duration option) st" where
  "Lag ops now connector kind =
     andThen (Watermark ops now connector kind) (\<lambda>mark. ret (map_option (time_sub now) mark))"

definition Reset :: "('s, doc) store_ops \<Rightarrow> gotime \<Rightarrow> string \<Rightarrow> string \<Rightarrow> ('s, gerr, unit) st" where
  "Reset ops now connector kind = so_delete ops now CollWatermarks (mark_key connector kind)"

section \<open>Marks over any store\<close>

context doc_store
begin

definition marked :: "'s \<Rightarrow> gotime \<Rightarrow> string \<Rightarrow> string \<Rightarrow> gotime option" where
  "marked s now c k =
     Option.bind (view s now CollWatermarks (mark_key c k)) (\<lambda>d. map_option from_unix_nano (as_nano d))"

lemma Watermark_ok: "good s \<Longrightarrow> Watermark ops now c k s = (Inr (marked s now c k), s)"
  unfolding Watermark_def marked_def get_decode by (rule decode_view) simp_all

lemma SetWatermark_ok:
  assumes "good s" "int64 (at - unix_epoch)"
  obtains s' where "SetWatermark ops now c k at s = (Inr (), s')" "good s'"
    "only_at {(CollWatermarks, mark_key c k)} s s'" "\<And>t. marked s' t c k = Some at"
proof -
  have m: "marshals (DocNano (unix_nano at))" "fits CollWatermarks (DocNano (unix_nano at))"
    by simp_all
  obtain s' where "SetWatermark ops now c k at s = (Inr (), s')" "good s'"
    "only_at {(CollWatermarks, mark_key c k)} s s'"
    "\<And>t. view s' t CollWatermarks (mark_key c k) = Some (stored (DocNano (unix_nano at)))"
    unfolding SetWatermark_def
    by (rule put_doc_ok [OF assms(1) coll_name_simps(1) m, of "''store: encode watermark''" now
          "mark_key c k" 0]) auto
  with that assms(2) show thesis by (simp add: marked_def unix_nano_roundtrip)
qed

lemma Advance_ok:
  assumes "good s" "highest \<noteq> 0" "int64 (min highest now - unix_epoch)"
  obtains s' where "Advance ops now c k highest s = (Inr (), s')" "good s'"
    "only_at {(CollWatermarks, mark_key c k)} s s'"
    "\<And>t. (\<forall>t. marked s t c k = marked s now c k) \<Longrightarrow>
      marked s' t c k = Some (case marked s now c k of
        None \<Rightarrow> min highest now | Some m \<Rightarrow> max m (min highest now))"
proof (cases "\<exists>m. marked s now c k = Some m \<and> min highest now \<le> m")
  case True
  then obtain m where m: "marked s now c k = Some m" "min highest now \<le> m" by blast
  then have "Advance ops now c k highest s = (Inr (), s)"
    using assms(2)
    by (auto simp: Advance_def Let_def andThen_def Watermark_ok [OF assms(1)] min_def split: if_splits)
  with m assms(1) show thesis by (intro that [of s]) simp_all
next
  case False
  obtain s' where s': "SetWatermark ops now c k (min highest now) s = (Inr (), s')" "good s'"
    "only_at {(CollWatermarks, mark_key c k)} s s'" "\<And>t. marked s' t c k = Some (min highest now)"
    by (rule SetWatermark_ok [OF assms(1,3), of now c k]) auto
  have h: "(if highest > now then now else highest) = min highest now" by (simp add: min_def)
  have "Advance ops now c k highest s = (Inr (), s')"
    using assms(2) False s'(1)
    by (auto simp: Advance_def Let_def h andThen_def Watermark_ok [OF assms(1)] split: option.split)
  with s' False show thesis by (intro that [of s']) (auto split: option.split)
qed

end

lemma Overlap_cases:
  "Overlap peers c =
     (case map_of peers c of
        None \<Rightarrow> CoarseOverlap
      | Some cfg \<Rightarrow>
          if pc_overlap cfg \<le> 0 then if pc_exact_timestamps cfg then DefaultOverlap else CoarseOverlap
          else if pc_exact_timestamps cfg then pc_overlap cfg else max (pc_overlap cfg) CoarseOverlap)"
  by (simp add: Overlap_def Let_def DefaultOverlap_def CoarseOverlap_def max_def split: option.split)

lemma highest_fold:
  assumes "\<forall>t \<in> set ts. 0 \<le> t" "0 \<le> x"
  shows "fold highest_step ts x \<in> set (x # ts) \<and> (\<forall>t \<in> set (x # ts). t \<le> fold highest_step ts x)"
  using assms
proof (induction ts arbitrary: x)
  case (Cons t ts)
  have "highest_step t x = max x t" using Cons.prems by (auto simp: highest_step_def max_def)
  with Cons.IH [of "max x t"] Cons.prems show ?case by (auto simp: max_def split: if_splits)
qed simp

section \<open>Properties\<close>

text \<open>
  C24: A mark moves only forward, never past the clock, and only to times that were seen. For
  times an \<^verbatim>\<open>int64\<close> of nanoseconds holds, advancing with the highest time of a page
  leaves the larger of the old mark and that time cut at now; other marks are not affected, and
  a page with no times changes nothing.
\<close>

theorem mark_monotone:
  assumes "mem_docs.good s" and "highest \<noteq> 0" and "int64 (min highest now - unix_epoch)"
    and "\<forall>t. mem_docs.marked s t c k = old"
  shows "\<exists>s'. Advance mem_ops now c k highest s = (Inr (), s') \<and>
    fst (Mark mem_ops t c k s') = Inr (Some (case old of
        None \<Rightarrow> min highest now | Some m \<Rightarrow> max m (min highest now))) \<and>
    (\<forall>c' k'. mark_key c' k' \<noteq> mark_key c k \<longrightarrow> fst (Mark mem_ops t c' k' s') = fst (Mark mem_ops t c' k' s)) \<and>
    Advance mem_ops now c k 0 s = (Inr (), s)"
proof -
  obtain s' where s': "Advance mem_ops now c k highest s = (Inr (), s')" "mem_docs.good s'"
    "mem_docs.only_at {(CollWatermarks, mark_key c k)} s s'"
    "\<And>t. mem_docs.marked s' t c k = Some (case old of
        None \<Rightarrow> min highest now | Some m \<Rightarrow> max m (min highest now))"
    by (rule mem_docs.Advance_ok [OF assms(1-3), of c k]) (use assms(4) in auto)
  have "mem_docs.marked s' t c' k' = mem_docs.marked s t c' k'" if "mark_key c' k' \<noteq> mark_key c k" for c' k'
    using s'(3) that by (simp add: mem_docs.marked_def mem_docs.only_at_def)
  with s' assms(1) show ?thesis
    by (intro exI [of _ s']) (simp add: Mark_def mem_docs.Watermark_ok, simp add: Advance_def)
qed

theorem mark_monotone_witness:
  "\<exists>s'. Advance mem_ops (unix_epoch + 9) ''hub'' ''contact'' (unix_epoch + 50) NewMem = (Inr (), s') \<and>
     fst (Mark mem_ops 0 ''hub'' ''contact'' s') = Inr (Some (unix_epoch + 9))"
proof -
  have a: "unix_epoch + 50 \<noteq> 0" "int64 (min (unix_epoch + 50) (unix_epoch + 9) - unix_epoch)"
    by code_simp+
  have m: "\<forall>t. mem_docs.marked NewMem t ''hub'' ''contact'' = None"
    by (simp add: mem_docs.marked_def)
  show ?thesis using mark_monotone [OF good_NewMem a m, of 0] by auto
qed

text \<open>
  Every delta read reaches back past the mark by an overlap that is positive, is at least five
  minutes unless the peer's timestamps are exact, and is never smaller than what was configured;
  the time handed to the next mark is the largest of the page's times.
\<close>

theorem read_overlaps:
  assumes "mem_docs.good s" and "mem_docs.marked s now c k = Some m" and "\<forall>t \<in> set ts. 0 \<le> t" and "ts \<noteq> []"
  shows "Since mem_ops peers now c k s = (Inr (Some (m - Overlap peers c)), s) \<and>
    0 < Overlap peers c \<and>
    ((\<forall>cfg. map_of peers c = Some cfg \<longrightarrow> \<not> pc_exact_timestamps cfg) \<longrightarrow> CoarseOverlap \<le> Overlap peers c) \<and>
    (\<forall>cfg. map_of peers c = Some cfg \<longrightarrow> pc_overlap cfg \<le> Overlap peers c) \<and>
    Highest ts = Max (set ts)"
proof -
  have "Highest ts \<in> insert 0 (set ts)" "\<forall>t \<in> insert 0 (set ts). t \<le> Highest ts"
    using highest_fold [OF assms(3), of 0] by (simp_all add: Highest_def)
  then have "Highest ts = Max (insert 0 (set ts))" by (intro Max_eqI [symmetric]) auto
  moreover have "Max (insert 0 (set ts)) = Max (set ts)"
    using assms(3,4) by (simp add: Max_insert max_def)
  ultimately have "Highest ts = Max (set ts)" by simp
  moreover have "0 < Overlap peers c \<and>
    ((\<forall>cfg. map_of peers c = Some cfg \<longrightarrow> \<not> pc_exact_timestamps cfg) \<longrightarrow> CoarseOverlap \<le> Overlap peers c) \<and>
    (\<forall>cfg. map_of peers c = Some cfg \<longrightarrow> pc_overlap cfg \<le> Overlap peers c)"
    unfolding Overlap_cases by (auto simp: DefaultOverlap_def CoarseOverlap_def split: option.split)
  ultimately show ?thesis
    using assms(1,2) by (simp add: Since_def andThen_def mem_docs.Watermark_ok)
qed

theorem read_overlaps_witness:
  "\<exists>s. Since mem_ops [] 0 ''hub'' ''contact'' s = (Inr (Some (unix_epoch - CoarseOverlap)), s)"
proof -
  have j: "int64 (unix_epoch - unix_epoch)" by code_simp
  obtain s where s: "mem_docs.good s" "\<And>t. mem_docs.marked s t ''hub'' ''contact'' = Some unix_epoch"
    by (rule mem_docs.SetWatermark_ok [OF good_NewMem j, of 0 "''hub''" "''contact''"]) blast
  have "Overlap [] ''hub'' = CoarseOverlap" by (simp add: Overlap_cases)
  then show ?thesis using read_overlaps [OF s(1,2), of "[5]" "[]" 0] by auto
qed

end
