(* ===== verification/Pipeline.thy ===== *)
theory Pipeline
  imports Conflict Origin Idempotency Identity Rate_Limit Watermarks
begin

text \<open>
  \<^verbatim>\<open>internal/engine/pipeline.go\<close> with the parts of \<^verbatim>\<open>engine.go\<close>, \<^verbatim>\<open>plan.go\<close>
  and \<^verbatim>\<open>connector.go\<close> it works on: one change run through the pipeline.

  The peers are outside the engine. What the engine calls of the \<^verbatim>\<open>Connector\<close> interface is
  the record \<open>conn_ops\<close>, over a state \<open>'w\<close> of the outside world; the store is any
  \<^typ>\<open>('s, doc) store_ops\<close>; SHA-256 with hex encoding is \<open>pe_hash\<close>. The engine's own state is
  the record \<open>eng\<close>. A task runs while it holds the keyed mutex of its record, so a run of the
  pipeline is one sequence of steps here; \<open>lockKey\<close> is the key it holds. The context is either
  live or cancelled for the whole run. Logging is left out.
\<close>

section \<open>The parts of the engine\<close>

record write_result =
  wr_remote_id :: string
  wr_created :: bool
  wr_version :: string
  wr_updated_at :: gotime

record caps =
  cap_native_idempotency :: bool
  cap_webhooks :: bool
  cap_soft_delete :: bool
  cap_etags :: bool
  cap_max_page_size :: int
  cap_modified_at_exact :: bool

record page =
  pg_records :: "crm_record list"
  pg_deleted :: "string list"
  pg_cursor :: string

definition HasMore :: "page \<Rightarrow> bool" where
  "HasMore p \<longleftrightarrow> pg_cursor p \<noteq> ''''"

text \<open>
  The operations take the name of the connector they are called on. An inbound request is its
  header lookup and its body.
\<close>

record 'w conn_ops =
  co_caps :: "string \<Rightarrow> caps"
  co_describe :: "string \<Rightarrow> gotime \<Rightarrow> string \<Rightarrow> ('w, gerr, schema) st"
  co_list :: "string \<Rightarrow> gotime \<Rightarrow> string \<Rightarrow> gotime \<Rightarrow> string \<Rightarrow> ('w, gerr, page) st"
  co_verify :: "string \<Rightarrow> gotime \<Rightarrow> (string \<Rightarrow> string) \<Rightarrow> string \<Rightarrow> ('w, gerr, change_event list) st"
  co_get :: "string \<Rightarrow> gotime \<Rightarrow> string \<Rightarrow> string \<Rightarrow> ('w, gerr, crm_record) st"
  co_upsert :: "string \<Rightarrow> gotime \<Rightarrow> string \<Rightarrow> crm_record \<Rightarrow> string \<Rightarrow> ('w, gerr, write_result) st"
  co_delete :: "string \<Rightarrow> gotime \<Rightarrow> string \<Rightarrow> string \<Rightarrow> string \<Rightarrow> ('w, gerr, unit) st"

record peer =
  pr_name :: string
  pr_side :: side

record sync =
  sy_name :: string
  sy_kind :: string
  sy_left :: peer
  sy_right :: peer
  sy_mapper :: mapper
  sy_identity :: id_resolver
  sy_conflict :: resolver
  sy_canonical :: "string list"

definition peerByName :: "sync \<Rightarrow> string \<Rightarrow> peer option" where
  "peerByName s name =
     (if name = pr_name (sy_left s) then Some (sy_left s)
      else if name = pr_name (sy_right s) then Some (sy_right s)
      else None)"

definition other_peer :: "sync \<Rightarrow> peer \<Rightarrow> peer" where
  "other_peer s p = (if p = sy_left s then sy_right s else sy_left s)"

datatype poutcome =
    OutcomeEcho | OutcomeNoChange | OutcomeCreated | OutcomeUpdated | OutcomeDeleted
  | OutcomeReviewed | OutcomeSkipped | OutcomeDeadLetter

record stats =
  st_ingested :: int
  st_echoes :: int
  st_near_misses :: int
  st_created :: int
  st_updated :: int
  st_deleted :: int
  st_reviewed :: int
  st_skipped :: int
  st_no_change :: int
  st_retried :: int
  st_dead_lettered :: int

definition no_stats :: stats where
  "no_stats =
     \<lparr>st_ingested = 0, st_echoes = 0, st_near_misses = 0, st_created = 0, st_updated = 0,
      st_deleted = 0, st_reviewed = 0, st_skipped = 0, st_no_change = 0, st_retried = 0,
      st_dead_lettered = 0\<rparr>"

definition ActionCreate :: string where "ActionCreate = ''create''"
definition ActionUpdate :: string where "ActionUpdate = ''update''"
definition ActionDelete :: string where "ActionDelete = ''delete''"

record planned_change =
  pl_sync :: string
  pl_action :: string
  pl_source :: ref
  pl_target :: ref
  pl_fields :: "(string \<times> val) list"

record plan_recorder =
  pn_changes :: "planned_change list"
  pn_next :: int

definition plan_record :: "planned_change \<Rightarrow> plan_recorder \<Rightarrow> string \<times> plan_recorder" where
  "plan_record c p =
     (let n = pn_next p + 1; rid = ''planned-'' @ itoa n;
          c' = (if pl_action c = ActionCreate
                then c\<lparr>pl_target := (pl_target c)\<lparr>ref_remote_id := rid\<rparr>\<rparr> else c)
      in (rid, p\<lparr>pn_next := n, pn_changes := pn_changes p @ [c']\<rparr>))"

definition namedValues :: "fields \<Rightarrow> (string \<times> val) list" where
  "namedValues values = map (\<lambda>n. (n, value_at values n)) (sort_strings (map fst values))"

record ('s, 'w) eng =
  en_store :: 's
  en_world :: 'w
  en_now :: gotime
  en_buckets :: bucket_set
  en_origin_stats :: origin_stats
  en_stats :: stats
  en_plan :: "plan_recorder option"
  en_seq :: int

record ('s, 'w) env =
  pe_hash :: "string \<Rightarrow> string"
  pe_store :: "('s, doc) store_ops"
  pe_conn :: "'w conn_ops"
  pe_windows :: "(string, duration) gomap"
  pe_ttl :: duration
  pe_marks :: "(string, peer_config) gomap"
  pe_sync_list :: "sync list"
  pe_syncs :: "(string, sync) gomap"
  pe_cancelled :: bool
  pe_max_attempts :: int

section \<open>Calls on the parts\<close>

definition on_store ::
  "('s, 'w) env \<Rightarrow> (('s, doc) store_ops \<Rightarrow> gotime \<Rightarrow> ('s, gerr, 'a) st) \<Rightarrow> (('s, 'w) eng, gerr, 'a) st" where
  "on_store env f e = (case f (pe_store env) (en_now e) (en_store e) of (r, s) \<Rightarrow> (r, e\<lparr>en_store := s\<rparr>))"

definition on_origin ::
  "('s, 'w) env \<Rightarrow> (('s, doc) store_ops \<Rightarrow> gotime \<Rightarrow> ('s \<times> origin_stats, gerr, 'a) st) \<Rightarrow>
     (('s, 'w) eng, gerr, 'a) st" where
  "on_origin env f e =
     (case f (pe_store env) (en_now e) (en_store e, en_origin_stats e) of
        (r, (s, st)) \<Rightarrow> (r, e\<lparr>en_store := s, en_origin_stats := st\<rparr>))"

definition on_world :: "(gotime \<Rightarrow> ('w, gerr, 'a) st) \<Rightarrow> (('s, 'w) eng, gerr, 'a) st" where
  "on_world f e = (case f (en_now e) (en_world e) of (r, w) \<Rightarrow> (r, e\<lparr>en_world := w\<rparr>))"

definition bump :: "(stats \<Rightarrow> stats) \<Rightarrow> (('s, 'w) eng, gerr, unit) st" where
  "bump f e = (Inr (), e\<lparr>en_stats := f (en_stats e)\<rparr>)"

definition bucket_wait :: "('s, 'w) env \<Rightarrow> peer \<Rightarrow> (('s, 'w) eng, gerr, unit) st" where
  "bucket_wait env p e =
     (let (b, bs) = set_For (en_now e) (pr_name p) (en_buckets e)
      in case Wait (pe_cancelled env) (b, en_now e) of
           (r, (b', now)) \<Rightarrow> (r, e\<lparr>en_buckets := AList.update (pr_name p) b' bs, en_now := now\<rparr>))"

definition on_bucket :: "peer \<Rightarrow> (gotime \<Rightarrow> bucket \<Rightarrow> bucket) \<Rightarrow> (('s, 'w) eng, gerr, unit) st" where
  "on_bucket p f e =
     (let (b, bs) = set_For (en_now e) (pr_name p) (en_buckets e)
      in (Inr (), e\<lparr>en_buckets := AList.update (pr_name p) (f (en_now e) b) bs\<rparr>))"

definition noteFailure :: "peer \<Rightarrow> gerr \<Rightarrow> (('s, 'w) eng, gerr, unit) st" where
  "noteFailure p err =
     (if KindOf (Some err) = KindRateLimited then on_bucket p (\<lambda>now. Reject now (RetryAfterOf err)) else ret ())"

text \<open>
  A connector call with its failure handling: on an error the handler runs and the error is
  returned, on success the bucket is told.
\<close>

definition guarded ::
  "peer \<Rightarrow> (('s, 'w) eng, gerr, 'a) st \<Rightarrow> (gerr \<Rightarrow> (('s, 'w) eng, gerr, unit) st) \<Rightarrow>
     (('s, 'w) eng, gerr, 'a) st" where
  "guarded p call handler e =
     (case call e of
        (Inl err, e') \<Rightarrow> andThen (handler err) (\<lambda>_. throw err) e'
      | (Inr x, e') \<Rightarrow> andThen (on_bucket p (\<lambda>_. Success)) (\<lambda>_. ret x) e')"

definition engine_get ::
  "('s, 'w) env \<Rightarrow> peer \<Rightarrow> string \<Rightarrow> string \<Rightarrow> (('s, 'w) eng, gerr, crm_record) st" where
  "engine_get env p kind remoteID =
     andThen (bucket_wait env p) (\<lambda>_.
       guarded p (on_world (\<lambda>now. co_get (pe_conn env) (pr_name p) now kind remoteID)) (noteFailure p))"

section \<open>Helpers\<close>

definition sides :: "peer \<Rightarrow> 'a \<Rightarrow> 'a \<Rightarrow> 'a \<times> 'a" where
  "sides from near far = (if pr_side from = Left then (near, far) else (far, near))"

definition only :: "fields \<Rightarrow> string list \<Rightarrow> fields" where
  "only values names = pick values names"

definition merge_values :: "fields \<Rightarrow> fields \<Rightarrow> fields" where
  "merge_values base values = assign_all base values"

definition refKey :: "ref \<Rightarrow> string" where
  "refKey r = ref_connector r @ nul # ref_kind r @ nul # ref_remote_id r"

definition new_ref :: "peer \<Rightarrow> string \<Rightarrow> string \<Rightarrow> ref" where
  "new_ref p kind remoteID = \<lparr>ref_connector = pr_name p, ref_kind = kind, ref_remote_id = remoteID\<rparr>"

definition reviewID :: "(string \<Rightarrow> string) \<Rightarrow> string \<Rightarrow> string \<Rightarrow> string" where
  "reviewID H sync subject = ''review-'' @ take 32 (H (sync @ nul # subject))"

definition lockKey :: "(string \<Rightarrow> string) \<Rightarrow> sync \<Rightarrow> fields \<Rightarrow> ref \<Rightarrow> string" where
  "lockKey H s canonical r =
     (let keys = id_keys (sy_identity s);
          fingerprint = SnapshotHash H canonical keys
      in if keys \<noteq> [] \<and> fingerprint \<noteq> SnapshotHash H [] keys
         then sy_name s @ nul # ''id'' @ nul # fingerprint
         else sy_name s @ nul # ''ref'' @ nul # ref_string r)"

section \<open>Queues\<close>

definition queueReview ::
  "('s, 'w) env \<Rightarrow> sync \<Rightarrow> string \<Rightarrow> ref \<Rightarrow> string \<Rightarrow> val \<Rightarrow> (('s, 'w) eng, gerr, poutcome) st" where
  "queueReview env s subject r reason payload =
     (let rid = reviewID (pe_hash env) (sy_name s) subject
      in andThen (on_store env (\<lambda>ops now. GetQueueItem ops now CollReview rid)) (\<lambda>existing.
           if existing \<noteq> None then ret OutcomeReviewed
           else if \<not> json_ok payload then throw (ErrText ''engine: encode review payload'')
           else andThen (on_store env (\<lambda>ops now. PutQueueItem ops now CollReview
                    \<lparr>q_id = rid, q_sync = sy_name s, q_ref = r, q_reason = reason,
                     q_created_at = now, q_attempts = 0, q_payload = payload\<rparr>)) (\<lambda>_.
                andThen (bump (\<lambda>st. st\<lparr>st_reviewed := st_reviewed st + 1\<rparr>)) (\<lambda>_. ret OutcomeReviewed))))"

definition enqueueItem ::
  "('s, 'w) env \<Rightarrow> string \<Rightarrow> sync option \<Rightarrow> ref \<Rightarrow> string \<Rightarrow> int \<Rightarrow> val \<Rightarrow> (('s, 'w) eng, gerr, unit) st" where
  "enqueueItem env collection s r reason attempts payload =
     (if \<not> json_ok payload then throw (ErrText ''engine: encode queue payload'')
      else (\<lambda>e. on_store env (\<lambda>ops now. PutQueueItem ops now collection
                  \<lparr>q_id = NewQueueID now (en_seq e + 1), q_sync = (case s of None \<Rightarrow> '''' | Some x \<Rightarrow> sy_name x), q_ref = r,
                   q_reason = reason, q_created_at = now, q_attempts = attempts,
                   q_payload = payload\<rparr>) (e\<lparr>en_seq := en_seq e + 1\<rparr>)))"

text \<open>The JSON objects of a record and of an event, with their \<^verbatim>\<open>omitempty\<close> fields.\<close>

definition record_val :: "crm_record \<Rightarrow> val" where
  "record_val r =
     VMap ([(''kind'', VStr (r_kind r)), (''remote_id'', VStr (r_remote_id r)),
            (''fields'', VMap (r_fields r)), (''updated_at'', VTime (r_updated_at r))]
       @ (if r_version r = '''' then [] else [(''version'', VStr (r_version r))]))"

definition event_val :: "change_event \<Rightarrow> val" where
  "event_val ev =
     VMap ([(''source'', VStr (ev_source ev)), (''kind'', VStr (ev_kind ev)),
            (''remote_id'', VStr (ev_remote_id ev))]
       @ (if ev_delivery_id ev = '''' then [] else [(''delivery_id'', VStr (ev_delivery_id ev))])
       @ [(''observed_at'', VTime (ev_observed_at ev))]
       @ (if ev_deleted ev then [(''deleted'', VBool True)] else [])
       @ (case ev_record ev of None \<Rightarrow> [] | Some r \<Rightarrow> [(''record'', record_val r)]))"

definition deadLetter ::
  "('s, 'w) env \<Rightarrow> sync option \<Rightarrow> change_event \<Rightarrow> int \<Rightarrow> gerr \<Rightarrow> (('s, 'w) eng, gerr, unit) st" where
  "deadLetter env s ev attempts cause =
     (let r = \<lparr>ref_connector = ev_source ev, ref_kind = ev_kind ev, ref_remote_id = ev_remote_id ev\<rparr>;
          payload = VMap [(''event'', event_val ev), (''error'', VStr (err_text cause)),
                          (''kind'', VStr (kind_string (KindOf (Some cause))))]
      in andThen (enqueueItem env CollDLQ s r (err_text cause) attempts payload) (\<lambda>_.
           bump (\<lambda>st. st\<lparr>st_dead_lettered := st_dead_lettered st + 1\<rparr>)))"

section \<open>Writing\<close>

definition recordOrigin :: "('s, 'w) env \<Rightarrow> ref \<Rightarrow> string \<Rightarrow> (('s, 'w) eng, gerr, unit) st" where
  "recordOrigin env r payloadHash =
     on_origin env (\<lambda>ops now. Record ops (pe_windows env) now r payloadHash)"

definition idem_begin :: "('s, 'w) env \<Rightarrow> string \<Rightarrow> (('s, 'w) eng, gerr, idem_result \<times> decision) st" where
  "idem_begin env key = on_store env (\<lambda>ops now. Begin ops (pe_ttl env) now key)"

definition idem_commit :: "('s, 'w) env \<Rightarrow> string \<Rightarrow> (gotime \<Rightarrow> idem_result) \<Rightarrow> (('s, 'w) eng, gerr, unit) st" where
  "idem_commit env key res = on_store env (\<lambda>ops now. Commit ops (pe_ttl env) now key (res now))"

definition idem_abandon :: "('s, 'w) env \<Rightarrow> string \<Rightarrow> (('s, 'w) eng, gerr, unit) st" where
  "idem_abandon env key = on_store env (\<lambda>ops now. Abandon ops now key)"

text \<open>A failure of \<^verbatim>\<open>Abandon\<close> after a failed call is only logged.\<close>

definition ignoring_error :: "('st, gerr, unit) st \<Rightarrow> ('st, gerr, unit) st" where
  "ignoring_error m s = (Inr (), snd (m s))"

definition write_failed :: "('s, 'w) env \<Rightarrow> peer \<Rightarrow> string \<Rightarrow> gerr \<Rightarrow> (('s, 'w) eng, gerr, unit) st" where
  "write_failed env target key err =
     andThen (noteFailure target err) (\<lambda>_.
       if Answered err then ignoring_error (idem_abandon env key) else ret ())"

text \<open>What is left of a write once its idempotency mark is taken.\<close>

definition send ::
  "('s, 'w) env \<Rightarrow> sync \<Rightarrow> peer \<Rightarrow> ref \<Rightarrow> fields \<Rightarrow> string \<Rightarrow> string \<Rightarrow>
     (('s, 'w) eng, gerr, write_result \<times> bool) st" where
  "send env s target targetRef fs payloadHash key =
     andThen (if ref_remote_id targetRef \<noteq> '''' then recordOrigin env targetRef payloadHash else ret ()) (\<lambda>_.
     andThen (bucket_wait env target) (\<lambda>_.
     andThen (guarded target
         (on_world (\<lambda>now. co_upsert (pe_conn env) (pr_name target) now (sy_kind s)
            \<lparr>r_kind = sy_kind s, r_remote_id = ref_remote_id targetRef, r_fields = fs,
             r_updated_at = zero_time, r_version = ''''\<rparr> key))
         (write_failed env target key)) (\<lambda>result.
     andThen (if ref_remote_id targetRef = ''''
              then recordOrigin env (new_ref target (sy_kind s) (wr_remote_id result)) payloadHash
              else ret ()) (\<lambda>_.
     andThen (idem_commit env key (\<lambda>now.
         \<lparr>i_remote_id = wr_remote_id result, i_created = wr_created result, i_in_flight = False,
          i_written_at = now\<rparr>)) (\<lambda>_.
     ret (result, True))))))"

definition replayed_result :: "idem_result \<Rightarrow> write_result" where
  "replayed_result previous =
     \<lparr>wr_remote_id = i_remote_id previous, wr_created = i_created previous, wr_version = '''',
      wr_updated_at = zero_time\<rparr>"

definition plan_write ::
  "plan_recorder \<Rightarrow> sync \<Rightarrow> peer \<Rightarrow> ref \<Rightarrow> ref \<Rightarrow> fields \<Rightarrow> (('s, 'w) eng, gerr, write_result \<times> bool) st" where
  "plan_write p s target targetRef sourceRef values e =
     (let (rid, p') = plan_record
            \<lparr>pl_sync = sy_name s,
             pl_action = (if ref_remote_id targetRef = '''' then ActionCreate else ActionUpdate),
             pl_source = sourceRef, pl_target = targetRef,
             pl_fields = namedValues (only values (WritableNames (sy_mapper s) (pr_side target)))\<rparr> p
      in (Inr (\<lparr>wr_remote_id = (if ref_remote_id targetRef = '''' then rid else ref_remote_id targetRef),
                wr_created = (ref_remote_id targetRef = ''''), wr_version = '''',
                wr_updated_at = zero_time\<rparr>, True), e\<lparr>en_plan := Some p'\<rparr>))"

definition engine_write ::
  "('s, 'w) env \<Rightarrow> sync \<Rightarrow> peer \<Rightarrow> ref \<Rightarrow> ref \<Rightarrow> fields \<Rightarrow> fields \<Rightarrow>
     (('s, 'w) eng, gerr, write_result \<times> bool) st" where
  "engine_write env s target targetRef sourceRef values base e =
     (let fs = FromCanonical (sy_mapper s) (pr_side target) values
      in if fs = [] then ret (replayed_result no_result, False) e
         else case en_plan e of
           Some p \<Rightarrow> plan_write p s target targetRef sourceRef values e
         | None \<Rightarrow>
             let payloadHash = SnapshotHash (pe_hash env) (merge_values base values) (sy_canonical s);
                 key = Key (pe_hash env) (sy_name s) (sy_kind s) sourceRef targetRef payloadHash
             in andThen (idem_begin env key) (\<lambda>(previous, decision).
                  case decision of
                    Replayed \<Rightarrow> ret (replayed_result previous, True)
                  | Recheck \<Rightarrow>
                      if ref_remote_id targetRef = '''' then throw ErrRecheck
                      else andThen (idem_abandon env key) (\<lambda>_.
                           andThen (idem_begin env key) (\<lambda>_.
                           send env s target targetRef fs payloadHash key))
                  | Proceed \<Rightarrow> send env s target targetRef fs payloadHash key) e)"

section \<open>Bookkeeping\<close>

definition commit_side :: "('s, 'w) env \<Rightarrow> sync \<Rightarrow> gotime \<Rightarrow> ref \<times> fields \<Rightarrow> (('s, 'w) eng, gerr, unit) st" where
  "commit_side env s linkedAt rv =
     (case rv of (r, values) \<Rightarrow>
        andThen (on_store env (\<lambda>ops now. SetSnapshot ops now r
            \<lparr>sn_hash = SnapshotHash (pe_hash env) values (sy_canonical s), sn_values = values,
             sn_at = linkedAt\<rparr>)) (\<lambda>_.
        on_store env (\<lambda>ops now. Index ops now (sy_identity s) r values)))"

definition commitPair ::
  "('s, 'w) env \<Rightarrow> sync \<Rightarrow> ref \<Rightarrow> ref \<Rightarrow> fields \<Rightarrow> fields \<Rightarrow> (('s, 'w) eng, gerr, unit) st" where
  "commitPair env s leftRef rightRef leftValues rightValues e =
     (let now = en_now e
      in andThen (on_store env (\<lambda>ops t. PutLink ops t
              \<lparr>l_left = leftRef, l_right = rightRef, l_linked_at = now\<rparr>)) (\<lambda>_.
           for_each (commit_side env s now) [(leftRef, leftValues), (rightRef, rightValues)]) e)"

definition drop_ref :: "('s, 'w) env \<Rightarrow> ref \<Rightarrow> (('s, 'w) eng, gerr, unit) st" where
  "drop_ref env r =
     andThen (on_store env (\<lambda>ops now. Deindex ops now r)) (\<lambda>_.
       on_store env (\<lambda>ops now. so_delete ops now CollSnapshots (refKey r)))"

definition dropLink :: "('s, 'w) env \<Rightarrow> ref \<Rightarrow> ref \<Rightarrow> (('s, 'w) eng, gerr, unit) st" where
  "dropLink env a b =
     andThen (on_store env (\<lambda>ops now. GetLink ops now a)) (\<lambda>link.
     andThen (case link of
                Some l \<Rightarrow> on_store env (\<lambda>ops now. DeleteLink ops now l)
              | None \<Rightarrow> ret ()) (\<lambda>_.
     for_each (drop_ref env) [a, b]))"

section \<open>The pipeline\<close>

definition hydrate ::
  "('s, 'w) env \<Rightarrow> sync \<Rightarrow> peer \<Rightarrow> change_event \<Rightarrow> (('s, 'w) eng, gerr, crm_record option) st" where
  "hydrate env s from ev e =
     (case ev_record ev of
        Some r \<Rightarrow> ret (Some r) e
      | None \<Rightarrow>
          (case engine_get env from (sy_kind s) (ev_remote_id ev) e of
             (Inl err, e') \<Rightarrow> if IsNotFound (Some err) then (Inr None, e') else (Inl err, e')
           | (Inr r, e') \<Rightarrow> (Inr (Some r), e')))"

definition create ::
  "('s, 'w) env \<Rightarrow> sync \<Rightarrow> peer \<Rightarrow> peer \<Rightarrow> ref \<Rightarrow> fields \<Rightarrow> (('s, 'w) eng, gerr, poutcome) st" where
  "create env s from to fromRef canonical =
     andThen (engine_write env s to (new_ref to (sy_kind s) '''') fromRef canonical []) (\<lambda>(result, wrote).
       if \<not> wrote then ret OutcomeNoChange
       else let targetRef = new_ref to (sy_kind s) (wr_remote_id result);
                (leftRef, rightRef) = sides from fromRef targetRef
            in andThen (commitPair env s leftRef rightRef canonical canonical) (\<lambda>_.
               andThen (bump (\<lambda>st. st\<lparr>st_created := st_created st + 1\<rparr>)) (\<lambda>_.
               ret OutcomeCreated)))"

definition diff_val :: "field_diff \<Rightarrow> val" where
  "diff_val d =
     VMap [(''Field'', VStr (d_field d)), (''Left'', d_left d), (''Right'', d_right d),
           (''LeftChanged'', VBool (d_left_changed d)), (''RightChanged'', VBool (d_right_changed d)),
           (''Winner'', VInt (case d_winner d of Nothing \<Rightarrow> 0 | WriteLeft \<Rightarrow> 1 | WriteRight \<Rightarrow> 2
              | WriteBoth \<Rightarrow> 3 | Escalate \<Rightarrow> 4))]"

text \<open>
  The writes a resolution asks for, and the state each side is in afterwards.
\<close>

definition apply_resolution ::
  "('s, 'w) env \<Rightarrow> sync \<Rightarrow> ref \<Rightarrow> ref \<Rightarrow> fields \<Rightarrow> fields \<Rightarrow> resolution \<Rightarrow>
     (('s, 'w) eng, gerr, fields \<times> fields) st" where
  "apply_resolution env s leftRef rightRef lf rf res =
     (case res_action res of
        WriteLeft \<Rightarrow>
          andThen (engine_write env s (sy_left s) leftRef rightRef (res_values res) lf) (\<lambda>_.
            ret (merge_values lf (res_values res), rf))
      | WriteRight \<Rightarrow>
          andThen (engine_write env s (sy_right s) rightRef leftRef (res_values res) rf) (\<lambda>_.
            ret (lf, merge_values rf (res_values res)))
      | WriteBoth \<Rightarrow>
          andThen (engine_write env s (sy_left s) leftRef rightRef (res_left_values res) lf) (\<lambda>_.
          andThen (engine_write env s (sy_right s) rightRef leftRef (res_right_values res) rf) (\<lambda>_.
            ret (merge_values lf (res_left_values res), merge_values rf (res_right_values res))))
      | _ \<Rightarrow> ret (lf, rf))"

text \<open>The decision about a pair once both states are known, with everything that follows it.\<close>

definition settle_pair ::
  "('s, 'w) env \<Rightarrow> sync \<Rightarrow> peer \<Rightarrow> ref \<Rightarrow> ref \<Rightarrow> cstate \<Rightarrow> cstate \<Rightarrow> (('s, 'w) eng, gerr, poutcome) st" where
  "settle_pair env s from fromRef targetRef nearState farState =
     (let (leftRef, rightRef) = sides from fromRef targetRef;
          (leftState, rightState) = sides from nearState farState;
          res = Resolve (pe_hash env) (sy_conflict s) leftState rightState (sy_canonical s)
      in if res_action res = Escalate then
           queueReview env s (ref_string leftRef @ '' <-> '' @ ref_string rightRef) fromRef (res_reason res)
             (VMap [(''situation'', VStr (situation_string (res_situation res))),
                    (''policy'', VStr (res_policy res)),
                    (''diffs'', VList (map diff_val (res_diffs res))),
                    (''peer'', VStr (ref_string targetRef))])
         else
           andThen (apply_resolution env s leftRef rightRef (cs_fields leftState) (cs_fields rightState) res)
             (\<lambda>(leftFinal, rightFinal).
           andThen (commitPair env s leftRef rightRef leftFinal rightFinal) (\<lambda>_.
           if res_action res = Nothing then
             andThen (bump (\<lambda>st. st\<lparr>st_no_change := st_no_change st + 1\<rparr>)) (\<lambda>_. ret OutcomeNoChange)
           else
             andThen (bump (\<lambda>st. st\<lparr>st_updated := st_updated st + 1\<rparr>)) (\<lambda>_. ret OutcomeUpdated))))"

definition snapshot_or_none :: "snapshot option \<Rightarrow> snapshot" where
  "snapshot_or_none s = (case s of Some x \<Rightarrow> x | None \<Rightarrow> no_snapshot)"

definition reconcile ::
  "('s, 'w) env \<Rightarrow> sync \<Rightarrow> peer \<Rightarrow> peer \<Rightarrow> ref \<Rightarrow> ref \<Rightarrow> fields \<Rightarrow> string \<Rightarrow> gotime \<Rightarrow>
     (('s, 'w) eng, gerr, poutcome) st" where
  "reconcile env s from to fromRef targetRef canonical fromHash updatedAt =
     andThen (on_store env (\<lambda>ops now. Snapshot ops now fromRef)) (\<lambda>fromSnap0.
     andThen (on_store env (\<lambda>ops now. Snapshot ops now targetRef)) (\<lambda>toSnap0.
       let fromSnap = snapshot_or_none fromSnap0; toSnap = snapshot_or_none toSnap0;
           nearState = \<lparr>cs_fields = canonical, cs_hash = fromHash, cs_base = sn_values fromSnap,
                        cs_synced_hash = sn_hash fromSnap, cs_updated_at = updatedAt, cs_present = True\<rparr>;
           farState = \<lparr>cs_fields = sn_values toSnap, cs_hash = sn_hash toSnap, cs_base = sn_values toSnap,
                       cs_synced_hash = sn_hash toSnap, cs_updated_at = zero_time, cs_present = True\<rparr>
       in if m_direction (sy_mapper s) \<noteq> Bidirectional then
            settle_pair env s from fromRef targetRef nearState farState
          else (\<lambda>e.
            case engine_get env to (sy_kind s) (ref_remote_id targetRef) e of
              (Inl err, e') \<Rightarrow>
                if IsNotFound (Some err) then
                  andThen (dropLink env fromRef targetRef) (\<lambda>_. create env s from to fromRef canonical) e'
                else (Inl err, e')
            | (Inr current, e') \<Rightarrow>
                (case ToCanonical (sy_mapper s) (pr_side to) current of
                   Inl err \<Rightarrow> (Inl (ErrPermanent err), e')
                 | Inr farCanonical \<Rightarrow>
                     settle_pair env s from fromRef targetRef nearState
                       (farState\<lparr>cs_fields := farCanonical,
                                 cs_hash := SnapshotHash (pe_hash env) farCanonical (sy_canonical s),
                                 cs_updated_at := r_updated_at current\<rparr>) e'))))"

text \<open>The delete call itself, once the idempotency cache has said to proceed.\<close>

definition send_delete ::
  "('s, 'w) env \<Rightarrow> sync \<Rightarrow> peer \<Rightarrow> ref \<Rightarrow> string \<Rightarrow> (('s, 'w) eng, gerr, unit) st" where
  "send_delete env s to peer key =
     andThen (bucket_wait env to) (\<lambda>_.
     andThen (guarded to (on_world (\<lambda>now. co_delete (pe_conn env) (pr_name to) now (sy_kind s)
                (ref_remote_id peer) key)) (noteFailure to)) (\<lambda>_.
     idem_commit env key (\<lambda>now. no_result\<lparr>i_remote_id := ref_remote_id peer\<rparr>)))"

definition finish_delete ::
  "('s, 'w) env \<Rightarrow> ref \<Rightarrow> ref \<Rightarrow> (('s, 'w) eng, gerr, poutcome) st" where
  "finish_delete env fromRef peer =
     andThen (dropLink env fromRef peer) (\<lambda>_.
     andThen (bump (\<lambda>st. st\<lparr>st_deleted := st_deleted st + 1\<rparr>)) (\<lambda>_. ret OutcomeDeleted))"

definition processDelete ::
  "('s, 'w) env \<Rightarrow> sync \<Rightarrow> peer \<Rightarrow> peer \<Rightarrow> change_event \<Rightarrow> (('s, 'w) eng, gerr, poutcome) st" where
  "processDelete env s from to ev =
     (let fromRef = new_ref from (sy_kind s) (ev_remote_id ev)
      in andThen (on_store env (\<lambda>ops now. GetLink ops now fromRef)) (\<lambda>link.
           case link of
             None \<Rightarrow> andThen (bump (\<lambda>st. st\<lparr>st_skipped := st_skipped st + 1\<rparr>)) (\<lambda>_. ret OutcomeSkipped)
           | Some l \<Rightarrow>
               (case Peer l fromRef of
                  None \<Rightarrow> throw (ErrPermanent (ErrText (''link for '' @ ref_string fromRef @ '' names no peer'')))
                | Some peer \<Rightarrow> (\<lambda>e.
                    case en_plan e of
                      Some p \<Rightarrow>
                        finish_delete env fromRef peer
                          (e\<lparr>en_plan := Some (snd (plan_record
                             \<lparr>pl_sync = sy_name s, pl_action = ActionDelete, pl_source = fromRef,
                              pl_target = peer, pl_fields = []\<rparr> p))\<rparr>)
                    | None \<Rightarrow>
                        let key = Key (pe_hash env) (sy_name s) (sy_kind s) fromRef peer ''delete''
                        in andThen (idem_begin env key) (\<lambda>(_, decision0).
                           andThen (if decision0 = Recheck
                                    then andThen (idem_abandon env key) (\<lambda>_.
                                         andThen (idem_begin env key) (\<lambda>(_, d). ret d))
                                    else ret decision0) (\<lambda>decision.
                           andThen (if decision = Proceed then send_delete env s to peer key else ret ()) (\<lambda>_.
                           finish_delete env fromRef peer))) e))))"

text \<open>A change whose record is at hand: from the echo filter to the write.\<close>

definition process_record ::
  "('s, 'w) env \<Rightarrow> sync \<Rightarrow> peer \<Rightarrow> peer \<Rightarrow> crm_record \<Rightarrow> fields \<Rightarrow> (('s, 'w) eng, gerr, poutcome) st" where
  "process_record env s from to rec canonical =
     (let hash = SnapshotHash (pe_hash env) canonical (sy_canonical s);
          fromRef = new_ref from (sy_kind s) (r_remote_id rec)
      in andThen (on_origin env (\<lambda>ops now. Classify ops now fromRef hash)) (\<lambda>verdict.
         andThen (if verdict = NearMiss
                  then bump (\<lambda>st. st\<lparr>st_near_misses := st_near_misses st + 1\<rparr>) else ret ()) (\<lambda>_.
         if \<not> Processed verdict then
           andThen (bump (\<lambda>st. st\<lparr>st_echoes := st_echoes st + 1\<rparr>)) (\<lambda>_. ret OutcomeEcho)
         else
           andThen (on_store env (\<lambda>ops now. Index ops now (sy_identity s) fromRef canonical)) (\<lambda>_.
           andThen (on_store env (\<lambda>ops now.
               identity_Resolve ops now (sy_identity s) fromRef (pr_name to) canonical)) (\<lambda>res.
           case ir_outcome res of
             Review \<Rightarrow>
               queueReview env s (ref_string fromRef) fromRef (ir_reason res)
                 (VMap [(''candidates'', VList (map (\<lambda>r. VStr (ref_string r)) (ir_candidates res))),
                        (''values'', VMap canonical)])
           | Skip \<Rightarrow> andThen (bump (\<lambda>st. st\<lparr>st_skipped := st_skipped st + 1\<rparr>)) (\<lambda>_. ret OutcomeSkipped)
           | _ \<Rightarrow>
               (let targetRef = (if ir_outcome res = Linked \<or> ir_outcome res = Matched then ir_peer res
                                 else new_ref to (sy_kind s) '''')
                in if ref_remote_id targetRef = '''' then create env s from to fromRef canonical
                   else reconcile env s from to fromRef targetRef canonical hash (r_updated_at rec)))))))"

definition process ::
  "('s, 'w) env \<Rightarrow> string \<Rightarrow> change_event \<Rightarrow> (('s, 'w) eng, gerr, poutcome) st" where
  "process env syncName ev =
     (case map_of (pe_syncs env) syncName of
        None \<Rightarrow> throw (ErrPermanent (ErrText (''no sync named '' @ quoted syncName)))
      | Some s \<Rightarrow>
          (case peerByName s (ev_source ev) of
             None \<Rightarrow> throw (ErrPermanent (ErrText (sy_name s @ '': no peer named '' @ quoted (ev_source ev))))
           | Some from \<Rightarrow>
               (let to = other_peer s from
                in if \<not> WritesTo (m_direction (sy_mapper s)) (pr_side to) then ret OutcomeSkipped
                   else if ev_deleted ev then processDelete env s from to ev
                   else andThen (hydrate env s from ev) (\<lambda>rec0.
                     case rec0 of
                       None \<Rightarrow> processDelete env s from to ev
                     | Some rec \<Rightarrow>
                         (case ToCanonical (sy_mapper s) (pr_side from) rec of
                            Inl err \<Rightarrow> throw (ErrPermanent err)
                          | Inr canonical \<Rightarrow> process_record env s from to rec canonical)))))"

end
