(* ===== verification/Pipeline_Safety.thy ===== *)
theory Pipeline_Safety
  imports Pipeline
begin

text \<open>
  What one run of the pipeline can do to the peers. A property of the outside world and of the
  plan is kept by every call that stays inside the engine, so it is kept by the pipeline as soon
  as the reads, the writes and the deletes keep it. The dry run and the direction of a sync are
  two instances.
\<close>

section \<open>Calls that stay inside the engine\<close>

definition outside :: "('w \<Rightarrow> plan_recorder option \<Rightarrow> bool) \<Rightarrow> ('s, 'w) eng \<Rightarrow> bool" where
  "outside P e \<longleftrightarrow> P (en_world e) (en_plan e)"

lemma outside_inner [simp]:
  "outside P (e\<lparr>en_store := s\<rparr>) = outside P e"
  "outside P (e\<lparr>en_now := t\<rparr>) = outside P e"
  "outside P (e\<lparr>en_buckets := bs\<rparr>) = outside P e"
  "outside P (e\<lparr>en_origin_stats := os\<rparr>) = outside P e"
  "outside P (e\<lparr>en_stats := st\<rparr>) = outside P e"
  "outside P (e\<lparr>en_seq := n\<rparr>) = outside P e"
  by (simp_all add: outside_def)

named_theorems inner \<open>calls that keep every property of the world and the plan\<close>

lemma keeps_on_store [inner]: "keeps (outside P) (on_store env f)"
  by (simp add: keeps_def on_store_def case_prod_beta)

lemma keeps_on_origin [inner]: "keeps (outside P) (on_origin env f)"
  by (simp add: keeps_def on_origin_def case_prod_beta)

lemma keeps_bump [inner]: "keeps (outside P) (bump f)"
  by (simp add: keeps_def bump_def)

lemma keeps_bucket_wait [inner]: "keeps (outside P) (bucket_wait env p)"
  by (simp add: keeps_def bucket_wait_def case_prod_beta Let_def)

lemma keeps_on_bucket [inner]: "keeps (outside P) (on_bucket p f)"
  by (simp add: keeps_def on_bucket_def case_prod_beta Let_def)

lemma keeps_noteFailure [inner]: "keeps (outside P) (noteFailure p err)"
  by (simp add: noteFailure_def inner)

lemma keeps_recordOrigin [inner]: "keeps (outside P) (recordOrigin env r h)"
  by (simp add: recordOrigin_def inner)

lemma keeps_idem [inner]:
  "keeps (outside P) (idem_begin env key)" "keeps (outside P) (idem_commit env key res)"
  "keeps (outside P) (idem_abandon env key)"
  by (simp_all add: idem_begin_def idem_commit_def idem_abandon_def inner)

lemma keeps_ignoring [inner]: "keeps I m \<Longrightarrow> keeps I (ignoring_error m)"
  by (simp add: keeps_def ignoring_error_def)

lemma keeps_write_failed [inner]: "keeps (outside P) (write_failed env p key err)"
  unfolding write_failed_def by (intro keeps_andThen inner) (auto intro: inner)

lemma keeps_drop_ref [inner]: "keeps (outside P) (drop_ref env r)"
  unfolding drop_ref_def by (intro keeps_andThen inner)

lemma keeps_dropLink [inner]: "keeps (outside P) (dropLink env a b)"
  unfolding dropLink_def
  by (intro keeps_andThen keeps_for_each inner) (auto intro: inner split: option.split)

lemma keeps_commit_side [inner]: "keeps (outside P) (commit_side env s t rv)"
  by (cases rv) (auto simp: commit_side_def intro!: keeps_andThen inner)

lemma keeps_commitPair [inner]: "keeps (outside P) (commitPair env s l r lv rv)"
proof (rule keepsI)
  fix e :: "('a, 'b) eng" assume "outside P e"
  moreover have "keeps (outside P) (andThen (on_store env (\<lambda>ops t. PutLink ops t
      \<lparr>l_left = l, l_right = r, l_linked_at = en_now e\<rparr>))
      (\<lambda>_. for_each (commit_side env s (en_now e)) [(l, lv), (r, rv)]))"
    by (intro keeps_andThen keeps_for_each inner)
  ultimately show "outside P (snd (commitPair env s l r lv rv e))"
    unfolding commitPair_def Let_def by (rule keepsD [rotated])
qed

lemma keeps_queueReview [inner]: "keeps (outside P) (queueReview env s subject r reason payload)"
  unfolding queueReview_def Let_def by (auto intro!: keeps_andThen inner)

lemma keeps_finish_delete [inner]: "keeps (outside P) (finish_delete env a b)"
  unfolding finish_delete_def by (auto intro!: keeps_andThen inner)

lemma keeps_guarded:
  assumes "keeps I call" "\<And>err. keeps I (handler err)" "keeps I (on_bucket p (\<lambda>_. Success))"
  shows "keeps I (guarded p call handler)"
proof (rule keepsI)
  fix e assume e: "I e"
  have k: "keeps I (andThen (handler err) (\<lambda>_. throw err))"
    "keeps I (andThen (on_bucket p (\<lambda>_. Success)) (\<lambda>_. ret x))" for err :: gerr and x :: 'c
    using assms(2,3) by (auto intro!: keeps_andThen)
  have "I (snd (call e))" using assms(1) e by (rule keepsD)
  then show "I (snd (guarded p call handler e))"
    unfolding guarded_def using keepsD [OF k(1)] keepsD [OF k(2)]
    by (auto split: prod.split sum.split)
qed

section \<open>The pipeline keeps what its calls on the peers keep\<close>

text \<open>A call written as a function of the state is kept when it is one of the calls at each state.\<close>

lemma keeps_pointwise: "(\<And>e. I e \<Longrightarrow> \<exists>m. keeps I m \<and> f e = m e) \<Longrightarrow> keeps I f"
  by (force simp: keeps_def)

lemma keeps_after:
  assumes "keeps I m" "\<And>err e. I e \<Longrightarrow> I (snd (f err e))" "\<And>x e. I e \<Longrightarrow> I (snd (g x e))"
  shows "keeps I (\<lambda>e. case m e of (Inl err, e') \<Rightarrow> f err e' | (Inr x, e') \<Rightarrow> g x e')"
  using assms unfolding keeps_def by (auto split: prod.split sum.split)

lemma keeps_hydrate:
  assumes "\<And>p kind rid. keeps I (engine_get env p kind rid)"
  shows "keeps I (hydrate env s from ev)"
proof (cases "ev_record ev")
  case None
  then have "hydrate env s from ev = (\<lambda>e.
      case engine_get env from (sy_kind s) (ev_remote_id ev) e of
        (Inl err, e') \<Rightarrow> if IsNotFound (Some err) then (Inr None, e') else (Inl err, e')
      | (Inr r, e') \<Rightarrow> (Inr (Some r), e'))"
    by (simp add: fun_eq_iff hydrate_def)
  moreover have "keeps I \<dots>" by (rule keeps_after [OF assms]) (simp_all split: if_splits)
  ultimately show ?thesis by simp
qed (simp add: keeps_def hydrate_def)

text \<open>
  \<open>calls_keep\<close> collects what is asked of the calls that reach a peer. The pipeline of a sync
  keeps a property under these.
\<close>

definition calls_keep :: "('s, 'w) env \<Rightarrow> sync \<Rightarrow> (('s, 'w) eng \<Rightarrow> bool) \<Rightarrow> bool" where
  "calls_keep env s I \<longleftrightarrow>
     (\<forall>p kind rid. keeps I (engine_get env p kind rid)) \<and>
     (\<forall>p \<in> {sy_left s, sy_right s}. \<forall>targetRef sourceRef values base.
        keeps I (engine_write env s p targetRef sourceRef values base))"

lemma calls_keepD:
  assumes "calls_keep env s I"
  shows "keeps I (engine_get env p kind rid)"
    and "p = sy_left s \<or> p = sy_right s \<Longrightarrow> keeps I (engine_write env s p targetRef sourceRef values base)"
  using assms by (auto simp: calls_keep_def)

lemma keeps_create:
  assumes "calls_keep env s (outside P)" "to = sy_left s \<or> to = sy_right s"
  shows "keeps (outside P) (create env s from to fromRef canonical)"
  unfolding create_def Let_def
  by (rule keeps_andThen [OF calls_keepD(2) [OF assms]])
     (auto split: prod.split intro!: keeps_andThen inner)

lemma keeps_apply_resolution:
  assumes "calls_keep env s (outside P)"
  shows "keeps (outside P) (apply_resolution env s leftRef rightRef lf rf res)"
  unfolding apply_resolution_def
  by (auto split: action.split intro!: keeps_andThen calls_keepD(2) [OF assms])

lemma keeps_settle_pair:
  assumes "calls_keep env s (outside P)"
  shows "keeps (outside P) (settle_pair env s from fromRef targetRef near far)"
  unfolding settle_pair_def Let_def
  by (auto split: prod.split intro!: keeps_andThen keeps_apply_resolution [OF assms] inner)

lemma keeps_reconcile:
  assumes "calls_keep env s (outside P)" "to = sy_left s \<or> to = sy_right s"
  shows "keeps (outside P) (reconcile env s from to fromRef targetRef canonical hash t)"
proof -
  have drop: "keeps (outside P)
      (andThen (dropLink env fromRef targetRef) (\<lambda>_. create env s from to fromRef canonical))"
    by (intro keeps_andThen inner keeps_create assms)
  show ?thesis
    unfolding reconcile_def Let_def
    by (auto intro!: keeps_andThen inner keeps_settle_pair [OF assms(1)] keepsD [OF drop]
        keeps_after [OF calls_keepD(1) [OF assms(1)]] keepsD [OF keeps_settle_pair [OF assms(1)]]
        split: sum.split)
qed

lemma keeps_process_record:
  assumes "calls_keep env s (outside P)" "to = sy_left s \<or> to = sy_right s"
  shows "keeps (outside P) (process_record env s from to rec canonical)"
  unfolding process_record_def Let_def
  by (auto split: outcome.split
      intro!: keeps_andThen inner keeps_create [OF assms] keeps_reconcile [OF assms])

lemma other_peer_cases: "other_peer s p = sy_left s \<or> other_peer s p = sy_right s"
  by (simp add: other_peer_def)

lemma keeps_process:
  assumes "map_of (pe_syncs env) name = Some s"
    and gate: "\<And>from. peerByName s (ev_source ev) = Some from \<Longrightarrow>
      WritesTo (m_direction (sy_mapper s)) (pr_side (other_peer s from)) \<Longrightarrow>
      keeps (outside P) (processDelete env s from (other_peer s from) ev)"
    and calls: "calls_keep env s (outside P)"
  shows "keeps (outside P) (process env name ev)"
  unfolding process_def Let_def assms(1)
  using gate
  by (auto split: option.split sum.split
      intro!: keeps_andThen keeps_hydrate calls_keepD(1) [OF calls]
        keeps_process_record [OF calls other_peer_cases])

section \<open>The calls on the peers\<close>

lemma keeps_on_world:
  "(\<And>now w p. P w p \<Longrightarrow> P (snd (f now w)) p) \<Longrightarrow> keeps (outside P) (on_world f)"
  by (simp add: keeps_def on_world_def outside_def case_prod_beta)

lemma keeps_engine_get:
  assumes "\<And>n now kind rid w p. P w p \<Longrightarrow> P (snd (co_get (pe_conn env) n now kind rid w)) p"
  shows "keeps (outside P) (engine_get env p kind rid)"
  unfolding engine_get_def
  by (intro keeps_andThen keeps_guarded keeps_on_world inner) (rule assms)

lemma keeps_send:
  assumes "\<And>now rec key w p. r_fields rec = fs \<Longrightarrow> P w p \<Longrightarrow>
    P (snd (co_upsert (pe_conn env) (pr_name target) now (sy_kind s) rec key w)) p"
  shows "keeps (outside P) (send env s target targetRef fs h key)"
  unfolding send_def
  by (auto intro!: keeps_andThen keeps_guarded keeps_on_world inner assms)

definition while_live :: "('w \<Rightarrow> plan_recorder option \<Rightarrow> bool) \<Rightarrow> 'w \<Rightarrow> plan_recorder option \<Rightarrow> bool" where
  "while_live P w p \<longleftrightarrow> P w p \<and> p = None"

lemma outside_while_live: "outside (while_live P) e \<longleftrightarrow> outside P e \<and> en_plan e = None"
  by (simp add: outside_def while_live_def)

lemma keeps_engine_write:
  fixes env :: "('s, 'w) env"
  assumes plan: "\<And>w p p'. P w (Some p) \<Longrightarrow> P w (Some p')"
    and upsert: "\<And>now rec key w. FromCanonical (sy_mapper s) (pr_side target) values \<noteq> [] \<Longrightarrow>
      r_fields rec = FromCanonical (sy_mapper s) (pr_side target) values \<Longrightarrow> P w None \<Longrightarrow>
      P (snd (co_upsert (pe_conn env) (pr_name target) now (sy_kind s) rec key w)) None"
  shows "keeps (outside P) (engine_write env s target targetRef sourceRef values base)"
proof (rule keepsI)
  fix e :: "('s, 'w) eng" assume e: "outside P e"
  let ?fs = "FromCanonical (sy_mapper s) (pr_side target) values"
  let ?I = "outside (while_live P)"
  show "outside P (snd (engine_write env s target targetRef sourceRef values base e))"
  proof (cases "?fs = []")
    case True
    with e show ?thesis by (simp add: engine_write_def)
  next
    case False
    have send: "keeps ?I (send env s target targetRef ?fs h key)" for h key
      by (rule keeps_send) (use upsert False in \<open>auto simp: while_live_def\<close>)
    show ?thesis
    proof (cases "en_plan e")
      case (Some p)
      with e have "P (en_world e) (Some p)" by (simp add: outside_def)
      with False Some plan show ?thesis
        by (auto simp: engine_write_def Let_def plan_write_def case_prod_beta outside_def)
    next
      case None
      let ?h = "SnapshotHash (pe_hash env) (merge_values base values) (sy_canonical s)"
      let ?key = "Key (pe_hash env) (sy_name s) (sy_kind s) sourceRef targetRef ?h"
      have "keeps ?I (andThen (idem_begin env ?key) (\<lambda>(previous, decision).
          case decision of
            Replayed \<Rightarrow> ret (replayed_result previous, True)
          | Recheck \<Rightarrow>
              if ref_remote_id targetRef = '''' then throw ErrRecheck
              else andThen (idem_abandon env ?key) (\<lambda>_.
                   andThen (idem_begin env ?key) (\<lambda>_. send env s target targetRef ?fs ?h ?key))
          | Proceed \<Rightarrow> send env s target targetRef ?fs ?h ?key))" (is "keeps _ ?m")
        by (auto split: decision.split intro!: keeps_andThen inner send)
      moreover from e None have "?I e" by (simp add: outside_while_live)
      ultimately have "?I (snd (?m e))" by (rule keepsD)
      with False None show ?thesis by (simp add: engine_write_def Let_def outside_while_live)
    qed
  qed
qed

lemma keeps_send_delete:
  assumes "\<And>now rid key w p. P w p \<Longrightarrow>
    P (snd (co_delete (pe_conn env) (pr_name to) now (sy_kind s) rid key w)) p"
  shows "keeps (outside P) (send_delete env s to peer key)"
  unfolding send_delete_def
  by (auto intro!: keeps_andThen keeps_guarded keeps_on_world inner assms)

lemma keeps_processDelete:
  assumes plan: "\<And>w p p'. P w (Some p) \<Longrightarrow> P w (Some p')"
    and delete: "\<And>now rid key w. P w None \<Longrightarrow>
      P (snd (co_delete (pe_conn env) (pr_name to) now (sy_kind s) rid key w)) None"
  shows "keeps (outside P) (processDelete env s from to ev)"
proof -
  let ?I = "outside (while_live P)"
  have send: "keeps ?I (send_delete env s to peer key)" for peer key
    by (rule keeps_send_delete) (use delete in \<open>auto simp: while_live_def\<close>)
  have live: "outside P (snd (andThen (idem_begin env key) (\<lambda>(_, decision0).
        andThen (if decision0 = Recheck
                 then andThen (idem_abandon env key) (\<lambda>_.
                      andThen (idem_begin env key) (\<lambda>(_, d). ret d))
                 else ret decision0) (\<lambda>decision.
        andThen (if decision = Proceed then send_delete env s to peer key else ret ()) (\<lambda>_.
        finish_delete env fromRef peer))) e))" (is "outside P (snd (?m e))")
    if "outside P e" "en_plan e = None" for key peer fromRef e
  proof -
    have "keeps ?I ?m" by (auto intro!: keeps_andThen inner send)
    moreover from that have "?I e" by (simp add: outside_while_live)
    ultimately have "?I (snd (?m e))" by (rule keepsD)
    then show ?thesis by (simp add: outside_while_live)
  qed
  have dry: "outside P (snd (finish_delete env fromRef peer (e\<lparr>en_plan := Some p'\<rparr>)))"
    if "outside P e" "en_plan e = Some p" for fromRef peer e p p'
  proof -
    have "outside P (e\<lparr>en_plan := Some p'\<rparr>)" using that plan by (auto simp: outside_def)
    then show ?thesis by (rule keepsD [OF keeps_finish_delete])
  qed
  have peer: "keeps (outside P) (\<lambda>e. case en_plan e of
        Some p \<Rightarrow> finish_delete env fromRef peer (e\<lparr>en_plan := Some (f p)\<rparr>)
      | None \<Rightarrow> g e)"
    if "\<And>e. outside P e \<Longrightarrow> en_plan e = None \<Longrightarrow> outside P (snd (g e))" for fromRef peer f g
    by (rule keepsI) (use that dry in \<open>auto split: option.split\<close>)
  show ?thesis
    unfolding processDelete_def Let_def
    by (auto split: option.split intro!: keeps_andThen inner peer live)
qed

section \<open>An example sync\<close>

text \<open>
  A contact sync between two peers whose world is the list of the writes they received. A record
  is not found, and a created record gets the same identifier every time.
\<close>

definition example_conn :: "(string \<times> string) list conn_ops" where
  "example_conn =
     \<lparr>co_caps = (\<lambda>n. \<lparr>cap_native_idempotency = True, cap_webhooks = False, cap_soft_delete = True,
        cap_etags = False, cap_max_page_size = 0, cap_modified_at_exact = True\<rparr>),
      co_describe = (\<lambda>n now kind w. (Inr \<lparr>sc_kind = kind, sc_fields = []\<rparr>, w)),
      co_list = (\<lambda>n now kind since cursor w.
        (Inr \<lparr>pg_records = [], pg_deleted = [], pg_cursor = ''''\<rparr>, w)),
      co_verify = (\<lambda>n now header body w. (Inr [], w)),
      co_get = (\<lambda>n now kind rid w. (Inl (ErrConn n ''get'' KindNotFound 0 (ErrText ''gone'')), w)),
      co_upsert = (\<lambda>n now kind rec key w.
        (Inr \<lparr>wr_remote_id = (if r_remote_id rec = '''' then ''77'' else r_remote_id rec),
              wr_created = (r_remote_id rec = ''''), wr_version = '''', wr_updated_at = now\<rparr>,
         w @ [(n, ''upsert'')])),
      co_delete = (\<lambda>n now kind rid key w. (Inr (), w @ [(n, ''delete'')]))\<rparr>"

definition example_sync :: "string \<Rightarrow> sync" where
  "example_sync direction =
     \<lparr>sy_name = ''contacts'', sy_kind = ''contact'',
      sy_left = \<lparr>pr_name = ''hub'', pr_side = Left\<rparr>, sy_right = \<lparr>pr_name = ''sales'', pr_side = Right\<rparr>,
      sy_mapper = (case New (example_spec\<lparr>sp_direction := direction\<rparr>) of Inr m \<Rightarrow> m | Inl _ \<Rightarrow> example_mapper),
      sy_identity = example_resolver,
      sy_conflict = \<lparr>rv_default = ReviewPolicy, rv_per_field = [], rv_skew = DefaultSkew\<rparr>,
      sy_canonical = [''created'', ''email'', ''first'']\<rparr>"

definition example_env :: "string \<Rightarrow> (doc mem, (string \<times> string) list) env" where
  "example_env direction =
     \<lparr>pe_hash = (\<lambda>x. x), pe_store = mem_ops, pe_conn = example_conn, pe_windows = [],
      pe_ttl = DefaultTTL, pe_marks = [], pe_sync_list = [example_sync direction], pe_syncs = [(''contacts'', example_sync direction)],
      pe_cancelled = False, pe_max_attempts = 5\<rparr>"

definition example_eng :: "plan_recorder option \<Rightarrow> (doc mem, (string \<times> string) list) eng" where
  "example_eng plan =
     \<lparr>en_store = NewMem, en_world = [], en_now = unix_epoch, en_buckets = [],
      en_origin_stats = no_origin_stats, en_stats = no_stats, en_plan = plan, en_seq = 0\<rparr>"

definition example_event :: "string \<Rightarrow> bool \<Rightarrow> change_event" where
  "example_event source deleted =
     \<lparr>ev_source = source, ev_kind = ''contact'', ev_remote_id = ''1'', ev_delivery_id = '''',
      ev_observed_at = unix_epoch, ev_deleted = deleted,
      ev_record = Some \<lparr>r_kind = ''contact'', r_remote_id = ''1'',
        r_fields = [(''email'', VStr ''a@b.c''), (''firstname'', VStr ''Bo'')],
        r_updated_at = unix_epoch, r_version = ''''\<rparr>\<rparr>"

lemma example_conn_simps [simp]:
  "co_get example_conn n now kind rid w = (Inl (ErrConn n ''get'' KindNotFound 0 (ErrText ''gone'')), w)"
  "snd (co_upsert example_conn n now kind rec key w) = w @ [(n, ''upsert'')]"
  "snd (co_delete example_conn n now kind rid key w) = w @ [(n, ''delete'')]"
  by (simp_all add: example_conn_def)

text \<open>While a plan is recorded only reads reach the peers.\<close>

lemma keeps_process_dry:
  assumes "\<And>n now kind rid w. Q w \<Longrightarrow> Q (snd (co_get (pe_conn env) n now kind rid w))"
  shows "keeps (outside (\<lambda>w p. Q w \<and> p \<noteq> None)) (process env name ev)"
proof (cases "map_of (pe_syncs env) name")
  case None
  then show ?thesis by (simp add: process_def keeps_def)
next
  case (Some s)
  have "calls_keep env s (outside (\<lambda>w p. Q w \<and> p \<noteq> None))"
    unfolding calls_keep_def using assms
    by (intro conjI allI ballI keeps_engine_get keeps_engine_write) auto
  then show ?thesis by (intro keeps_process [OF Some] keeps_processDelete) auto
qed

section \<open>Properties\<close>

text \<open>
  C5: A dry run never writes. While a plan is recorded, the pipeline reaches the peers only to read
  records: whatever the reads leave true of the peers is still true after any change has been
  processed, and the run stays a dry run. No upsert and no delete is ever sent.
\<close>

theorem dry_run_never_writes:
  assumes "en_plan e \<noteq> None" and "Q (en_world e)"
    and reads: "\<And>n now kind rid w. Q w \<Longrightarrow> Q (snd (co_get (pe_conn env) n now kind rid w))"
  shows "Q (en_world (snd (process env name ev e))) \<and> en_plan (snd (process env name ev e)) \<noteq> None"
proof -
  have process: "keeps (outside (\<lambda>w p. Q w \<and> p \<noteq> None)) (process env name ev)"
    by (rule keeps_process_dry) (rule reads)
  have "outside (\<lambda>w p. Q w \<and> p \<noteq> None) e" using assms by (simp add: outside_def)
  then have "outside (\<lambda>w p. Q w \<and> p \<noteq> None) (snd (process env name ev e))"
    by (rule keepsD [OF process])
  then show ?thesis by (simp add: outside_def)
qed

theorem dry_run_never_writes_witness:
  "en_world (snd (process (example_env ''bidirectional'') ''contacts'' (example_event ''hub'' False)
     (example_eng (Some \<lparr>pn_changes = [], pn_next = 0\<rparr>)))) = []"
proof -
  let ?e = "example_eng (Some \<lparr>pn_changes = [], pn_next = 0\<rparr>)"
  have p: "en_plan ?e \<noteq> None" and w: "en_world ?e = []" by (simp_all add: example_eng_def)
  show ?thesis
    by (rule conjunct1 [OF dry_run_never_writes [where Q = "\<lambda>w. w = []", OF p w]])
       (simp add: example_env_def)
qed

lemma no_fields_written:
  assumes "wf_mapper m" "\<not> WritesTo (m_direction m) side"
  shows "FromCanonical m side values = []"
proof -
  have "fold (from_canonical_field side values) fs out = out"
    if "\<forall>f \<in> set fs. \<not> WritesTo (f_direction f) side" for fs out
    using that by (induction fs arbitrary: out) (auto simp: from_canonical_field_def)
  moreover have "\<forall>f \<in> set (m_fields m). \<not> WritesTo (f_direction f) side"
    using assms by (auto simp: wf_mapper_def field_ok_def)
  ultimately show ?thesis by (simp add: FromCanonical_def)
qed

text \<open>
  C6: Writes follow the direction of the sync. With a mapper that \<^const>\<open>New\<close> built, a property of
  the peers that survives every read, and every write with at least one field and every delete on
  a side the direction writes to, survives the pipeline: no request to change anything ever goes
  to a side the sync does not write to, and an empty write is never sent.
\<close>

theorem writes_follow_direction:
  assumes s: "map_of (pe_syncs env) name = Some s" and m: "New spec = Inr (sy_mapper s)"
    and Q: "Q (en_world e)"
    and reads: "\<And>n now kind rid w. Q w \<Longrightarrow> Q (snd (co_get (pe_conn env) n now kind rid w))"
    and upserts: "\<And>p now rec key w. p \<in> {sy_left s, sy_right s} \<Longrightarrow>
      WritesTo (m_direction (sy_mapper s)) (pr_side p) \<Longrightarrow> r_fields rec \<noteq> [] \<Longrightarrow> Q w \<Longrightarrow>
      Q (snd (co_upsert (pe_conn env) (pr_name p) now (sy_kind s) rec key w))"
    and deletes: "\<And>p now rid key w. p \<in> {sy_left s, sy_right s} \<Longrightarrow>
      WritesTo (m_direction (sy_mapper s)) (pr_side p) \<Longrightarrow> Q w \<Longrightarrow>
      Q (snd (co_delete (pe_conn env) (pr_name p) now (sy_kind s) rid key w))"
  shows "Q (en_world (snd (process env name ev e)))"
proof -
  let ?P = "\<lambda>w p. Q w"
  have wf: "wf_mapper (sy_mapper s)" using New_sound [OF m] by simp
  have "calls_keep env s (outside ?P)"
    unfolding calls_keep_def
  proof (intro conjI allI ballI keeps_engine_get keeps_engine_write)
    fix p vs now key w and rec :: crm_record
    assume "p \<in> {sy_left s, sy_right s}" "Q w"
      and "FromCanonical (sy_mapper s) (pr_side p) vs \<noteq> []"
      and "r_fields rec = FromCanonical (sy_mapper s) (pr_side p) vs"
    then show "Q (snd (co_upsert (pe_conn env) (pr_name p) now (sy_kind s) rec key w))"
      using no_fields_written [OF wf] by (intro upserts) auto
  qed (use reads in auto)
  then have "keeps (outside ?P) (process env name ev)"
    using deletes other_peer_cases by (intro keeps_process [OF s] keeps_processDelete) auto
  then show ?thesis using Q by (auto simp: outside_def dest!: keepsD [where s = e])
qed

theorem writes_follow_direction_witness:
  "''hub'' \<notin> fst ` set (en_world (snd (process (example_env ''left_to_right'') ''contacts''
     (example_event ''sales'' False) (example_eng None))))"
proof -
  let ?env = "example_env ''left_to_right''" and ?s = "example_sync ''left_to_right''"
  let ?spec = "example_spec\<lparr>sp_direction := ''left_to_right''\<rparr>"
  have s: "map_of (pe_syncs ?env) ''contacts'' = Some ?s" by (simp add: example_env_def)
  have "case New ?spec of Inr m \<Rightarrow> m_direction m = LeftToRight | Inl e \<Rightarrow> False" by code_simp
  then have m: "New ?spec = Inr (sy_mapper ?s)" and d: "m_direction (sy_mapper ?s) = LeftToRight"
    by (auto simp: example_sync_def split: sum.splits)
  have p: "pr_name p \<noteq> ''hub''"
    if "p \<in> {sy_left ?s, sy_right ?s}" "WritesTo (m_direction (sy_mapper ?s)) (pr_side p)" for p
    using that unfolding d by (auto simp: example_sync_def)
  have c: "pe_conn ?env = example_conn" by (simp add: example_env_def)
  have w: "''hub'' \<notin> fst ` set (en_world (example_eng None))" by (simp add: example_eng_def)
  show ?thesis
  proof (rule writes_follow_direction [where Q = "\<lambda>w. ''hub'' \<notin> fst ` set w", OF s m w])
    show "''hub'' \<notin> fst ` set (snd (co_get (pe_conn ?env) n now kind rid w))"
      if "''hub'' \<notin> fst ` set w" for n now kind rid w
      using that by (simp add: c)
  qed (use p in \<open>force simp: c\<close>)+
qed

end
