(* ===== verification/Pipeline_Effects.thy ===== *)
theory Pipeline_Effects
  imports Pipeline_Safety
begin

text \<open>
  What one run of the pipeline leaves in the store, over any document store, and what the next run
  does with it: the echo of a write is recognised, a create whose answer was lost is not repeated,
  a delete ends after one round trip, a question is asked once, a settled pair stays quiet.
\<close>

section \<open>The steps, one by one\<close>

lemma bucket_wait_eq:
  obtains bs t where
    "bucket_wait env p e =
       (if pe_cancelled env then Inl ErrCtx else Inr (), e\<lparr>en_buckets := bs, en_now := t\<rparr>)"
    "pe_cancelled env \<Longrightarrow> t = en_now e" "en_now e \<le> t"
proof -
  obtain b bs where b: "set_For (en_now e) (pr_name p) (en_buckets e) = (b, bs)" by fastforce
  obtain w b' where r: "Reserve (en_now e) b = (w, b')" by fastforce
  show thesis
    by (rule that [where bs = "AList.update (pr_name p) b' bs"
          and t = "if pe_cancelled env \<or> w \<le> 0 then en_now e else en_now e + w"])
       (auto simp: bucket_wait_def b Wait_def r)
qed

lemma on_bucket_eq:
  obtains bs where "on_bucket p f e = (Inr (), e\<lparr>en_buckets := bs\<rparr>)"
  unfolding on_bucket_def by (cases "set_For (en_now e) (pr_name p) (en_buckets e)") simp

lemma noteFailure_eq:
  obtains bs where "noteFailure p err e = (Inr (), e\<lparr>en_buckets := bs\<rparr>)"
proof (cases "KindOf (Some err) = KindRateLimited")
  case True
  then show thesis
    using that on_bucket_eq [of p "\<lambda>now. Reject now (RetryAfterOf err)" e] by (auto simp: noteFailure_def)
next
  case False
  then have "noteFailure p err e = (Inr (), e\<lparr>en_buckets := en_buckets e\<rparr>)" by (simp add: noteFailure_def)
  then show thesis by (rule that)
qed

lemma guarded_Inr:
  assumes "guarded p call handler e = (Inr x, e')"
  obtains e1 bs where "call e = (Inr x, e1)" "e' = e1\<lparr>en_buckets := bs\<rparr>"
proof -
  obtain r e1 where c: "call e = (r, e1)" by fastforce
  show thesis
  proof (cases r)
    case (Inl err)
    with assms c show thesis by (auto simp: guarded_def andThen_eq_Inr)
  next
    case (Inr y)
    obtain bs where "on_bucket p (\<lambda>_. Success) e1 = (Inr (), e1\<lparr>en_buckets := bs\<rparr>)"
      by (rule on_bucket_eq)
    with assms c Inr that show thesis by (auto simp: guarded_def andThen_def)
  qed
qed

lemma on_world_eq: "on_world f e = (r, e') \<Longrightarrow> e' = e\<lparr>en_world := en_world e'\<rparr>"
  by (auto simp: on_world_def split: prod.splits)

section \<open>The write\<close>

text \<open>The key of a write, and the digest it is tagged with.\<close>

definition write_payload :: "('s, 'w) env \<Rightarrow> sync \<Rightarrow> fields \<Rightarrow> fields \<Rightarrow> string" where
  "write_payload env s base values = SnapshotHash (pe_hash env) (merge_values base values) (sy_canonical s)"

definition write_key :: "('s, 'w) env \<Rightarrow> sync \<Rightarrow> ref \<Rightarrow> ref \<Rightarrow> fields \<Rightarrow> fields \<Rightarrow> string" where
  "write_key env s sourceRef targetRef base values =
     Key (pe_hash env) (sy_name s) (sy_kind s) sourceRef targetRef (write_payload env s base values)"

text \<open>The record a write is about once it has succeeded.\<close>

definition written_ref :: "sync \<Rightarrow> peer \<Rightarrow> ref \<Rightarrow> write_result \<Rightarrow> ref" where
  "written_ref s target targetRef result =
     (if ref_remote_id targetRef = '''' then new_ref target (sy_kind s) (wr_remote_id result) else targetRef)"

context doc_store
begin

lemma on_store_eq:
  "pe_store env = ops \<Longrightarrow>
   on_store env f e = (fst (f ops (en_now e) (en_store e)), e\<lparr>en_store := snd (f ops (en_now e) (en_store e))\<rparr>)"
  by (simp add: on_store_def case_prod_beta)

lemma PutOrigin_Inr:
  "PutOrigin ops now e x s = (Inr (), s') \<Longrightarrow> json_time (o_written_at e)"
  by (auto simp: PutOrigin_def put_doc_def split: if_splits)

lemma recordOrigin_Inr:
  assumes env: "pe_store env = ops" and g: "good (en_store e)"
    and r: "recordOrigin env r h e = (Inr (), e')"
  shows "\<exists>s st. e' = e\<lparr>en_store := s, en_origin_stats := st\<rparr> \<and> good s \<and>
    only_at {(CollOrigins, OriginTag r h), (CollOrigins, OriginTag r recentMarker)} (en_store e) s \<and>
    (\<forall>t. tagged s t r h = live (en_now e + Window (pe_windows env) (ref_connector r)) t)"
proof -
  let ?now = "en_now e"
  have rec: "fst (Record ops (pe_windows env) ?now r h (en_store e, en_origin_stats e)) = Inr ()"
    and e': "e' = (case snd (Record ops (pe_windows env) ?now r h (en_store e, en_origin_stats e)) of
      (s, st) \<Rightarrow> e\<lparr>en_store := s, en_origin_stats := st\<rparr>)"
    using r by (auto simp: recordOrigin_def on_origin_def env split: prod.splits)
  have "json_time ?now"
    using rec PutOrigin_Inr [of ?now "\<lparr>o_ref = r, o_hash = h, o_written_at = ?now\<rparr>"]
    by (auto simp: Record_def Let_def andThen_def on_fst_def split: prod.splits sum.splits)
  then obtain s where "Record ops (pe_windows env) ?now r h (en_store e, en_origin_stats e) =
      (Inr (), (s, (en_origin_stats e)\<lparr>os_recorded := os_recorded (en_origin_stats e) + 1\<rparr>))"
    "good s" "only_at {(CollOrigins, OriginTag r h), (CollOrigins, OriginTag r recentMarker)} (en_store e) s"
    "\<And>t. tagged s t r h = live (?now + Window (pe_windows env) (ref_connector r)) t"
    by (rule Record_ok [OF g, of ?now "pe_windows env" r h "en_origin_stats e"]) auto
  with e' show ?thesis by auto
qed

lemma idem_commit_Inr:
  assumes env: "pe_store env = ops" and g: "good (en_store e)"
    and r: "idem_commit env key res e = (Inr (), e')"
  shows "\<exists>s. e' = e\<lparr>en_store := s\<rparr> \<and> good s \<and> only_at {(CollIdem, key)} (en_store e) s"
proof -
  let ?r = "(res (en_now e))\<lparr>i_in_flight := False\<rparr>"
  let ?d = "if i_written_at ?r = zero_time then ?r\<lparr>i_written_at := en_now e\<rparr> else ?r"
  let ?p = "put_doc ops ''store: encode idem'' (en_now e) CollIdem key (DocIdem ?d) (en_now e + pe_ttl env) (en_store e)"
  have p: "fst ?p = Inr ()" "e' = e\<lparr>en_store := snd ?p\<rparr>"
    using r by (simp_all add: idem_commit_def on_store_eq [OF env] Commit_def PutIdem_def Let_def)
  then have "marshals (DocIdem ?d)" by (simp add: put_doc_def split: if_splits)
  then obtain s where "?p = (Inr (), s)" "good s" "only_at {(CollIdem, key)} (en_store e) s"
    using put_doc_ok [OF g coll_name_simps(5), of "DocIdem ?d" "''store: encode idem''" "en_now e" key
        "en_now e + pe_ttl env"] by auto
  with p(2) show ?thesis by auto
qed

text \<open>
  A write that succeeded has left the tag of its payload on the record it wrote, from the moment
  it was recorded: before the call for a known record, after it for a created one.
\<close>

lemma send_Inr:
  assumes env: "pe_store env = ops" and g: "good (en_store e)"
    and r: "send env s target targetRef fs h key e = (Inr (result, wrote), e')"
  shows "wrote \<and> good (en_store e') \<and> en_now e \<le> en_now e' \<and>
    (\<forall>t. tagged (en_store e') t (written_ref s target targetRef result) h =
       live ((if ref_remote_id targetRef = '''' then en_now e' else en_now e) +
         Window (pe_windows env) (ref_connector (written_ref s target targetRef result))) t)"
proof -
  let ?known = "ref_remote_id targetRef \<noteq> ''''"
  let ?w = "written_ref s target targetRef result"
  note steps = r [unfolded send_def andThen_eq_Inr]
  then obtain u1 u2 u3 u4 :: unit and e1 e2 e3 e4 e5 result' where steps:
    "(if ?known then recordOrigin env targetRef h else ret ()) e = (Inr u1, e1)"
    "bucket_wait env target e1 = (Inr u2, e2)"
    "guarded target (on_world (\<lambda>now. co_upsert (pe_conn env) (pr_name target) now (sy_kind s)
        \<lparr>r_kind = sy_kind s, r_remote_id = ref_remote_id targetRef, r_fields = fs,
         r_updated_at = zero_time, r_version = ''''\<rparr> key)) (write_failed env target key) e2 = (Inr result', e3)"
    "(if ref_remote_id targetRef = ''''
        then recordOrigin env (new_ref target (sy_kind s) (wr_remote_id result')) h else ret ()) e3 = (Inr u3, e4)"
    "idem_commit env key (\<lambda>now. \<lparr>i_remote_id = wr_remote_id result',
        i_created = wr_created result', i_in_flight = False, i_written_at = now\<rparr>) e4 = (Inr u4, e5)"
    "(ret (result', True) :: (_, gerr, _) st) e5 = (Inr (result, wrote), e')"
    by blast
  then have
    s1: "(if ?known then recordOrigin env targetRef h else ret ()) e = (Inr (), e1)"
    and s2: "bucket_wait env target e1 = (Inr (), e2)"
    and s3: "guarded target (on_world (\<lambda>now. co_upsert (pe_conn env) (pr_name target) now (sy_kind s)
        \<lparr>r_kind = sy_kind s, r_remote_id = ref_remote_id targetRef, r_fields = fs,
         r_updated_at = zero_time, r_version = ''''\<rparr> key)) (write_failed env target key) e2 = (Inr result, e3)"
    and s4: "(if ref_remote_id targetRef = ''''
        then recordOrigin env (new_ref target (sy_kind s) (wr_remote_id result)) h else ret ()) e3 = (Inr (), e4)"
    and s5: "idem_commit env key (\<lambda>now. \<lparr>i_remote_id = wr_remote_id result,
        i_created = wr_created result, i_in_flight = False, i_written_at = now\<rparr>) e4 = (Inr (), e')"
    and wrote: "wrote"
    by (auto split: if_splits)
  have e2: "\<exists>bs t. e2 = e1\<lparr>en_buckets := bs, en_now := t\<rparr> \<and> en_now e1 \<le> t"
    using s2 bucket_wait_eq [of env target e1] by (metis Pair_inject)
  obtain e3' bs' where "e3 = e3'\<lparr>en_buckets := bs'\<rparr>" "\<exists>w. e3' = e2\<lparr>en_world := w\<rparr>"
    by (rule guarded_Inr [OF s3]) (blast dest: on_world_eq)
  with e2 have e3: "en_store e3 = en_store e1" and later: "en_now e1 \<le> en_now e3" by auto
  have times: "en_now e1 = en_now e" "en_now e4 = en_now e3"
    using s1 s4 by (auto simp: recordOrigin_def on_origin_def split: if_splits prod.splits)
  show ?thesis
  proof (cases ?known)
    case True
    then obtain st where e1: "good (en_store e1)"
      "\<forall>t. tagged (en_store e1) t ?w h = live (en_now e + Window (pe_windows env) (ref_connector ?w)) t"
      using recordOrigin_Inr [OF env g, of targetRef h e1] s1 by (auto simp: written_ref_def)
    have e4: "en_store e4 = en_store e1" using True s4 e3 by simp
    with e1(1) obtain c where c: "e' = e4\<lparr>en_store := c\<rparr>" "good c" "only_at {(CollIdem, key)} (en_store e4) c"
      using idem_commit_Inr [OF env _ s5] by auto
    then show ?thesis using wrote e1 e4 True times later tagged_only_at [OF c(3)] by simp
  next
    case False
    then have "en_store e1 = en_store e" using s1 by simp
    with g e3 have g3: "good (en_store e3)" by simp
    from False s4 have "recordOrigin env ?w h e3 = (Inr (), e4)" by (simp add: written_ref_def)
    from recordOrigin_Inr [OF env g3 this] obtain sto st where
      sto: "e4 = e3\<lparr>en_store := sto, en_origin_stats := st\<rparr>" "good sto"
        "\<forall>t. tagged sto t ?w h = live (en_now e3 + Window (pe_windows env) (ref_connector ?w)) t"
      by blast
    then have e4: "good (en_store e4)"
      "\<forall>t. tagged (en_store e4) t ?w h = live (en_now e3 + Window (pe_windows env) (ref_connector ?w)) t"
      by simp_all
    then obtain c where c: "e' = e4\<lparr>en_store := c\<rparr>" "good c" "only_at {(CollIdem, key)} (en_store e4) c"
      using idem_commit_Inr [OF env _ s5] by auto
    then show ?thesis using wrote e4 False times later tagged_only_at [OF c(3)] by simp
  qed
qed

lemma idem_begin_ok:
  assumes env: "pe_store env = ops" and g: "good (en_store e)" and j: "json_time (en_now e)"
  obtains c where
    "idem_begin env key e =
       (Inr (case phase (en_store e) (en_now e) key of Finished r \<Rightarrow> (r, Replayed)
             | p \<Rightarrow> (no_result, fst (begin_phase p))), e\<lparr>en_store := c\<rparr>)"
    "good c" "only_at {(CollIdem, key)} (en_store e) c"
    "phase (en_store e) (en_now e) key \<noteq> Fresh \<Longrightarrow> c = en_store e"
    "phase (en_store e) (en_now e) key = Fresh \<Longrightarrow>
       \<forall>t. phase c t key = (if live (en_now e + pe_ttl env) t then InFlight else Fresh)"
proof -
  obtain c where "Begin ops (pe_ttl env) (en_now e) key (en_store e) =
       (Inr (case phase (en_store e) (en_now e) key of Finished r \<Rightarrow> (r, Replayed)
             | p \<Rightarrow> (no_result, fst (begin_phase p))), c)"
    "good c" "only_at {(CollIdem, key)} (en_store e) c"
    "phase (en_store e) (en_now e) key \<noteq> Fresh \<Longrightarrow> c = en_store e"
    "phase (en_store e) (en_now e) key = Fresh \<Longrightarrow>
       \<forall>t. phase c t key = (if live (en_now e + pe_ttl env) t then InFlight else Fresh)"
    by (rule Begin_ok [OF g j, of "pe_ttl env" key]) blast
  with that show thesis by (simp add: idem_begin_def on_store_eq [OF env])
qed

lemma idem_abandon_ok:
  assumes env: "pe_store env = ops" and g: "good (en_store e)"
  obtains c where "idem_abandon env key e = (Inr (), e\<lparr>en_store := c\<rparr>)" "good c"
    "only_at {(CollIdem, key)} (en_store e) c" "\<And>t. phase c t key = Fresh"
proof -
  obtain c where "Abandon ops (en_now e) key (en_store e) = (Inr (), c)" "good c"
    "only_at {(CollIdem, key)} (en_store e) c" "\<And>t. phase c t key = Fresh"
    by (rule Abandon_ok [OF g, of "en_now e" key]) blast
  with that show thesis by (simp add: idem_abandon_def on_store_eq [OF env])
qed

lemma engine_write_live:
  assumes "en_plan e = None" "FromCanonical (sy_mapper s) (pr_side target) values \<noteq> []"
  shows "engine_write env s target targetRef sourceRef values base e =
    andThen (idem_begin env (write_key env s sourceRef targetRef base values)) (\<lambda>(previous, decision).
      case decision of
        Replayed \<Rightarrow> ret (replayed_result previous, True)
      | Recheck \<Rightarrow>
          if ref_remote_id targetRef = '''' then throw ErrRecheck
          else andThen (idem_abandon env (write_key env s sourceRef targetRef base values)) (\<lambda>_.
               andThen (idem_begin env (write_key env s sourceRef targetRef base values)) (\<lambda>_.
               send env s target targetRef (FromCanonical (sy_mapper s) (pr_side target) values)
                 (write_payload env s base values) (write_key env s sourceRef targetRef base values)))
      | Proceed \<Rightarrow> send env s target targetRef (FromCanonical (sy_mapper s) (pr_side target) values)
                 (write_payload env s base values) (write_key env s sourceRef targetRef base values)) e"
  unfolding write_payload_def write_key_def using assms by (simp add: engine_write_def Let_def)

text \<open>
  A write that is not a replay comes down to the call itself, from a state that differs in the
  idempotency mark only.
\<close>

lemma engine_write_sends:
  assumes env: "pe_store env = ops" and g: "good (en_store e)" and j: "json_time (en_now e)"
    and plan: "en_plan e = None"
    and fs: "FromCanonical (sy_mapper s) (pr_side target) values \<noteq> []"
    and fresh: "\<And>r. phase (en_store e) (en_now e) (write_key env s sourceRef targetRef base values) \<noteq> Finished r"
    and r: "engine_write env s target targetRef sourceRef values base e = (Inr x, e')"
  obtains c where "good c"
    "only_at {(CollIdem, write_key env s sourceRef targetRef base values)} (en_store e) c"
    "send env s target targetRef (FromCanonical (sy_mapper s) (pr_side target) values)
       (write_payload env s base values) (write_key env s sourceRef targetRef base values)
       (e\<lparr>en_store := c\<rparr>) = (Inr x, e')"
proof -
  let ?k = "write_key env s sourceRef targetRef base values"
  obtain c where c: "idem_begin env ?k e =
       (Inr (case phase (en_store e) (en_now e) ?k of Finished r \<Rightarrow> (r, Replayed)
             | p \<Rightarrow> (no_result, fst (begin_phase p))), e\<lparr>en_store := c\<rparr>)"
    "good c" "only_at {(CollIdem, ?k)} (en_store e) c"
    by (rule idem_begin_ok [OF env g j, of ?k]) blast
  show thesis
  proof (cases "phase (en_store e) (en_now e) ?k")
    case Fresh
    with r c(1) show thesis
      by (intro that [OF c(2,3)]) (simp add: engine_write_live [OF plan fs] andThen_def)
  next
    case InFlight
    have known: "ref_remote_id targetRef \<noteq> ''''"
      using r c(1) InFlight by (auto simp: engine_write_live [OF plan fs] andThen_def)
    obtain a where a: "idem_abandon env ?k (e\<lparr>en_store := c\<rparr>) = (Inr (), e\<lparr>en_store := a\<rparr>)" "good a"
      "only_at {(CollIdem, ?k)} c a" "\<And>t. phase a t ?k = Fresh"
      by (rule idem_abandon_ok [OF env, of "e\<lparr>en_store := c\<rparr>" ?k]) (use c(2) in auto)
    obtain b y where b: "idem_begin env ?k (e\<lparr>en_store := a\<rparr>) = (Inr y, e\<lparr>en_store := b\<rparr>)" "good b"
      "only_at {(CollIdem, ?k)} a b"
      by (rule idem_begin_ok [OF env, of "e\<lparr>en_store := a\<rparr>" ?k]) (use a(2) j in auto)
    have "only_at {(CollIdem, ?k)} (en_store e) b"
      using only_at_trans [OF only_at_trans [OF c(3) a(3)] b(3)] by simp
    with r c(1) a(1) b(1,2) InFlight known show thesis
      by (intro that [of b]) (simp_all add: engine_write_live [OF plan fs] andThen_def)
  qed (use fresh in blast)
qed

lemma engine_write_tags:
  assumes env: "pe_store env = ops" and g: "good (en_store e)" and j: "json_time (en_now e)"
    and plan: "en_plan e = None"
    and fs: "FromCanonical (sy_mapper s) (pr_side target) values \<noteq> []"
    and fresh: "\<And>r. phase (en_store e) (en_now e) (write_key env s sourceRef targetRef base values) \<noteq> Finished r"
    and r: "engine_write env s target targetRef sourceRef values base e = (Inr (result, wrote), e')"
  shows "good (en_store e') \<and> en_now e \<le> en_now e' \<and>
    (\<forall>t. tagged (en_store e') t (written_ref s target targetRef result) (write_payload env s base values) =
       live ((if ref_remote_id targetRef = '''' then en_now e' else en_now e) +
         Window (pe_windows env) (ref_connector (written_ref s target targetRef result))) t)"
proof -
  let ?k = "write_key env s sourceRef targetRef base values"
  obtain c where c: "good c"
    "send env s target targetRef (FromCanonical (sy_mapper s) (pr_side target) values)
       (write_payload env s base values) ?k (e\<lparr>en_store := c\<rparr>) = (Inr (result, wrote), e')"
    by (rule engine_write_sends [OF env g j plan fs fresh r]) blast
  from send_Inr [OF env _ c(2)] c(1) show ?thesis by simp
qed

end

section \<open>The next event\<close>

text \<open>An event that carries its record, up to the canonical values.\<close>

definition arrives :: "('s, 'w) env \<Rightarrow> sync \<Rightarrow> string \<Rightarrow> change_event \<Rightarrow> peer \<Rightarrow> crm_record \<Rightarrow> fields \<Rightarrow> bool" where
  "arrives env s name ev from rec canonical \<longleftrightarrow>
     map_of (pe_syncs env) name = Some s \<and> peerByName s (ev_source ev) = Some from \<and>
     WritesTo (m_direction (sy_mapper s)) (pr_side (other_peer s from)) \<and>
     \<not> ev_deleted ev \<and> ev_record ev = Some rec \<and>
     ToCanonical (sy_mapper s) (pr_side from) rec = Inr canonical"

lemma process_arrives:
  "arrives env s name ev from rec canonical \<Longrightarrow>
   process env name ev = process_record env s from (other_peer s from) rec canonical"
  by (auto simp: arrives_def process_def fun_eq_iff hydrate_def andThen_def)

context doc_store
begin

lemma process_echo:
  assumes env: "pe_store env = ops" and g: "good (en_store e)"
    and ev: "arrives env s name ev from rec canonical"
    and tag: "tagged (en_store e) (en_now e) (new_ref from (sy_kind s) (r_remote_id rec))
      (SnapshotHash (pe_hash env) canonical (sy_canonical s))"
  shows "\<exists>c st. process env name ev e =
      (Inr OutcomeEcho, e\<lparr>en_store := c, en_origin_stats := st,
         en_stats := (en_stats e)\<lparr>st_echoes := st_echoes (en_stats e) + 1\<rparr>\<rparr>) \<and>
    good c \<and> only_at {(CollOrigins, OriginTag (new_ref from (sy_kind s) (r_remote_id rec))
      (SnapshotHash (pe_hash env) canonical (sy_canonical s)))} (en_store e) c"
proof -
  let ?r = "new_ref from (sy_kind s) (r_remote_id rec)"
  let ?h = "SnapshotHash (pe_hash env) canonical (sy_canonical s)"
  obtain c st where c: "good c" "only_at {(CollOrigins, OriginTag ?r ?h)} (en_store e) c"
    "Classify ops (en_now e) ?r ?h (en_store e, en_origin_stats e) =
       (Inr (if tagged (en_store e) (en_now e) ?r ?h then Echo
             else if tagged c (en_now e) ?r recentMarker then NearMiss else Foreign), (c, st))"
    by (rule Classify_ok [OF g, of ?r ?h "en_now e" "en_origin_stats e"]) blast
  then have "process_record env s from (other_peer s from) rec canonical e =
      (Inr OutcomeEcho, e\<lparr>en_store := c, en_origin_stats := st,
         en_stats := (en_stats e)\<lparr>st_echoes := st_echoes (en_stats e) + 1\<rparr>\<rparr>)"
    using tag by (simp add: process_record_def Let_def andThen_def on_origin_def env Processed_def bump_def)
  with c process_arrives [OF ev] show ?thesis by auto
qed

text \<open>
  The write and the event it causes, in sequence.
\<close>

lemma write_then_echo:
  assumes env: "pe_store env = ops" and g: "good (en_store e)" and j: "json_time (en_now e)"
    and plan: "en_plan e = None"
    and fs: "FromCanonical (sy_mapper s) (pr_side target) values \<noteq> []"
    and fresh: "\<And>r. phase (en_store e) (en_now e) (write_key env s sourceRef targetRef base values) \<noteq> Finished r"
    and r: "engine_write env s target targetRef sourceRef values base e = (Inr (result, wrote), e')"
    and ev: "arrives env s name ev target rec canonical"
    and same: "new_ref target (sy_kind s) (r_remote_id rec) = written_ref s target targetRef result"
      "SnapshotHash (pe_hash env) canonical (sy_canonical s) = write_payload env s base values"
    and t: "t < en_now e + Window (pe_windows env) (pr_name target)"
  shows "\<exists>e''. process env name ev (e'\<lparr>en_now := t\<rparr>) = (Inr OutcomeEcho, e'') \<and>
    en_world e'' = en_world e' \<and>
    (\<forall>c k. coll_name c \<longrightarrow> c \<noteq> CollOrigins \<longrightarrow> view (en_store e'') t c k = view (en_store e') t c k)"
proof -
  let ?w = "written_ref s target targetRef result"
  from engine_write_tags [OF env g j plan fs fresh r] have g': "good (en_store e')"
    and later: "en_now e \<le> en_now e'" and tag: "\<And>u. tagged (en_store e') u ?w (write_payload env s base values) =
      live ((if ref_remote_id targetRef = '''' then en_now e' else en_now e) +
        Window (pe_windows env) (ref_connector ?w)) u" by simp_all
  have "ref_connector ?w = pr_name target" using same(1) by (simp add: new_ref_def flip: same(1))
  with t later have "tagged (en_store e') t ?w (write_payload env s base values)"
    by (auto simp: tag live_def)
  then obtain c st where c: "process env name ev (e'\<lparr>en_now := t\<rparr>) =
      (Inr OutcomeEcho, e'\<lparr>en_now := t, en_store := c, en_origin_stats := st,
         en_stats := (en_stats e')\<lparr>st_echoes := st_echoes (en_stats e') + 1\<rparr>\<rparr>)"
    "only_at {(CollOrigins, OriginTag ?w (write_payload env s base values))} (en_store e') c"
    using process_echo [OF env _ ev, of "e'\<lparr>en_now := t\<rparr>"] g' by (auto simp: same)
  then show ?thesis by (auto simp: only_at_def)
qed

end

section \<open>A lost answer\<close>

text \<open>What the calls that do not touch the store keep of it.\<close>

definition stored_as :: "('s \<Rightarrow> bool) \<Rightarrow> ('s, 'w) eng \<Rightarrow> bool" where
  "stored_as Q e \<longleftrightarrow> Q (en_store e) \<and> en_plan e = None"

lemma keeps_stored_as:
  "keeps (stored_as Q) (bucket_wait env p)" "keeps (stored_as Q) (on_bucket p f)"
  "keeps (stored_as Q) (noteFailure p err)" "keeps (stored_as Q) (on_world call)"
  "keeps (stored_as Q) (bump g)"
  by (simp_all add: keeps_def stored_as_def bucket_wait_def on_bucket_def noteFailure_def on_world_def
      bump_def Let_def case_prod_beta)

lemma guarded_Inl:
  assumes "guarded p call handler e = (Inl err, e')" and "\<And>x e. fst (handler x e) = Inr ()"
  obtains e1 where "call e = (Inl err, e1)" "e' = snd (handler err e1)"
proof -
  obtain r e1 where c: "call e = (r, e1)" by fastforce
  show thesis
  proof (cases r)
    case (Inl x)
    with assms c that [of e1] show thesis
      by (auto simp: guarded_def andThen_def split: prod.splits sum.splits) (metis fst_conv Inl_Inr_False)
  next
    case (Inr y)
    obtain bs where "on_bucket p (\<lambda>_. Success) e1 = (Inr (), e1\<lparr>en_buckets := bs\<rparr>)"
      by (rule on_bucket_eq)
    with assms(1) c Inr show thesis by (simp add: guarded_def andThen_def)
  qed
qed

lemma andThen_fails:
  assumes "andThen m f e = (Inl err, e')"
    and "m e = (Inl err, e') \<Longrightarrow> P"
    and "\<And>x e1. m e = (Inr x, e1) \<Longrightarrow> f x e1 = (Inl err, e') \<Longrightarrow> P"
  shows P
  using assms unfolding andThen_eq_Inl by blast

lemma write_failed_ok: "fst (write_failed env p key err e) = Inr ()"
proof -
  obtain bs where "noteFailure p err e = (Inr (), e\<lparr>en_buckets := bs\<rparr>)" by (rule noteFailure_eq)
  then show ?thesis by (simp add: write_failed_def andThen_def ignoring_error_def)
qed

context doc_store
begin

definition in_flight :: "gotime \<Rightarrow> string \<Rightarrow> 's \<Rightarrow> bool" where
  "in_flight t key c \<longleftrightarrow> good c \<and> phase c t key = InFlight"

lemma recordOrigin_in_flight:
  fixes env :: "('s, 'w) env"
  assumes env: "pe_store env = ops"
  shows "keeps (stored_as (in_flight t key)) (recordOrigin env r h)"
proof (rule keepsI)
  fix e :: "('s, 'w) eng" assume e: "stored_as (in_flight t key) e"
  then have g: "good (en_store e)" by (simp add: stored_as_def in_flight_def)
  show "stored_as (in_flight t key) (snd (recordOrigin env r h e))"
  proof (cases "json_time (en_now e)")
    case True
    then obtain c where c: "Record ops (pe_windows env) (en_now e) r h (en_store e, en_origin_stats e) =
        (Inr (), (c, (en_origin_stats e)\<lparr>os_recorded := os_recorded (en_origin_stats e) + 1\<rparr>))" "good c"
      "only_at {(CollOrigins, OriginTag r h), (CollOrigins, OriginTag r recentMarker)} (en_store e) c"
      by (rule Record_ok [OF g, of "en_now e" "pe_windows env" r h "en_origin_stats e"]) auto
    with e phase_only_at [OF c(3), of key t] show ?thesis
      by (simp add: recordOrigin_def on_origin_def env stored_as_def in_flight_def)
  next
    case False
    then have "\<exists>x. Record ops (pe_windows env) (en_now e) r h (en_store e, en_origin_stats e) =
        (Inl x, (en_store e, en_origin_stats e))"
      by (auto simp: Record_def Let_def andThen_def PutOrigin_def put_doc_def)
    with e show ?thesis by (auto simp: recordOrigin_def on_origin_def env stored_as_def in_flight_def)
  qed
qed

lemma idem_commit_Inl:
  assumes env: "pe_store env = ops" and g: "good (en_store e)"
    and r: "idem_commit env key res e = (Inl err, e')"
  shows "e' = e"
proof -
  let ?r = "(res (en_now e))\<lparr>i_in_flight := False\<rparr>"
  let ?d = "if i_written_at ?r = zero_time then ?r\<lparr>i_written_at := en_now e\<rparr> else ?r"
  have c: "idem_commit env key res e = on_store env (\<lambda>ops now. put_doc ops ''store: encode idem'' now
      CollIdem key (DocIdem ?d) (now + pe_ttl env)) e"
    by (simp add: idem_commit_def on_store_eq [OF env] Commit_def PutIdem_def Let_def)
  show ?thesis
  proof (cases "marshals (DocIdem ?d)")
    case True
    then obtain c where "put_doc ops ''store: encode idem'' (en_now e) CollIdem key (DocIdem ?d)
        (en_now e + pe_ttl env) (en_store e) = (Inr (), c)"
      by (rule put_doc_ok [OF g coll_name_simps(5), of "DocIdem ?d" "''store: encode idem''" "en_now e"
            key "en_now e + pe_ttl env"]) (auto split: if_splits)
    with r c show ?thesis by (simp add: on_store_eq [OF env])
  next
    case False
    with r c show ?thesis by (auto simp: on_store_eq [OF env] put_doc_def)
  qed
qed

text \<open>A create that ends in an error the peer did not give leaves its mark in flight.\<close>

lemma send_create_unanswered:
  assumes env: "pe_store env = ops" and new: "ref_remote_id targetRef = ''''"
    and e: "stored_as (in_flight t key) e"
    and r: "send env s target targetRef fs h key e = (Inl err, e')" and err: "\<not> Answered err"
  shows "stored_as (in_flight t key) e'"
proof -
  let ?I = "stored_as (in_flight t key)"
  let ?call = "on_world (\<lambda>now. co_upsert (pe_conn env) (pr_name target) now (sy_kind s)
      \<lparr>r_kind = sy_kind s, r_remote_id = ref_remote_id targetRef, r_fields = fs,
       r_updated_at = zero_time, r_version = ''''\<rparr> key)"
  let ?g = "guarded target ?call (write_failed env target key)"
  let ?commit = "\<lambda>result. idem_commit env key (\<lambda>now. \<lparr>i_remote_id = wr_remote_id result,
      i_created = wr_created result, i_in_flight = False, i_written_at = now\<rparr>)"
  let ?rec = "\<lambda>result. recordOrigin env (new_ref target (sy_kind s) (wr_remote_id result)) h"
  have send: "send env s target targetRef fs h key = andThen (bucket_wait env target) (\<lambda>_.
      andThen ?g (\<lambda>result. andThen (?rec result) (\<lambda>_. andThen (?commit result) (\<lambda>_. ret (result, True)))))"
    by (simp add: send_def new)
  have wait: "?I (snd (bucket_wait env target e))" using e by (rule keepsD [OF keeps_stored_as(1)])
  have failed: "?I e'" if i: "?I e1" and g: "?g e1 = (Inl err, e')" for e1
  proof -
    obtain e2 where e2: "?call e1 = (Inl err, e2)" "e' = snd (write_failed env target key err e2)"
      by (rule guarded_Inl [OF g write_failed_ok])
    then have "?I e2" using keepsD [OF keeps_stored_as(4) i] by (metis snd_conv)
    moreover have "keeps ?I (write_failed env target key err)"
      unfolding write_failed_def using err by (auto intro!: keeps_andThen keeps_stored_as)
    ultimately show ?thesis unfolding e2(2) by (rule keepsD [rotated])
  qed
  have recorded: "?I (snd (?rec result e1))" if "?I e1" for result e1
    by (rule keepsD [OF recordOrigin_in_flight [OF env] that])
  have sent: "?I e2" if i: "?I e1" and g: "?g e1 = (Inr result, e2)" for e1 e2 result
  proof -
    obtain e3 bs where "?call e1 = (Inr result, e3)" "e2 = e3\<lparr>en_buckets := bs\<rparr>"
      by (rule guarded_Inr [OF g])
    moreover from this have "?I e3" using keepsD [OF keeps_stored_as(4) i] by (metis snd_conv)
    ultimately show ?thesis by (simp add: stored_as_def)
  qed
  have committed: "?I e'" if i: "?I e1" and c: "?commit result e1 = (Inl err, e')" for e1 result
    using i idem_commit_Inl [OF env _ c] by (simp add: stored_as_def in_flight_def)
  from r [unfolded send] show ?thesis
  proof (rule andThen_fails)
    assume "bucket_wait env target e = (Inl err, e')"
    with wait show ?thesis by simp
  next
    fix x e1 assume w: "bucket_wait env target e = (Inr x, e1)"
      and rest: "andThen ?g (\<lambda>result. andThen (?rec result)
        (\<lambda>_. andThen (?commit result) (\<lambda>_. ret (result, True)))) e1 = (Inl err, e')"
    from w wait have i1: "?I e1" by simp
    from rest show ?thesis
    proof (rule andThen_fails)
      fix result e2 assume "?g e1 = (Inr result, e2)"
        and rest: "andThen (?rec result) (\<lambda>_. andThen (?commit result) (\<lambda>_. ret (result, True))) e2 = (Inl err, e')"
      with sent i1 have i2: "?I (snd (?rec result e2))" by (blast intro: recorded)
      from rest show ?thesis
      proof (rule andThen_fails)
        fix y e3 assume "?rec result e2 = (Inr y, e3)"
          and "andThen (?commit result) (\<lambda>_. ret (result, True)) e3 = (Inl err, e')"
        then show ?thesis using i2 committed by (auto simp: andThen_eq_Inl)
      qed (use i2 in simp)
    qed (use failed i1 in blast)
  qed
qed

lemma lost_create:
  assumes env: "pe_store env = ops" and g: "good (en_store e)" and j: "json_time (en_now e)"
    and plan: "en_plan e = None" and new: "ref_remote_id targetRef = ''''"
    and fs: "FromCanonical (sy_mapper s) (pr_side target) values \<noteq> []"
    and fresh: "phase (en_store e) (en_now e) (write_key env s sourceRef targetRef base values) = Fresh"
    and r: "engine_write env s target targetRef sourceRef values base e = (Inl err, e')"
    and err: "\<not> Answered err"
    and t: "json_time t" "t < en_now e + pe_ttl env"
    and env': "pe_store env' = ops" "pe_hash env' = pe_hash env"
  shows "engine_write env' s target targetRef sourceRef values base (e'\<lparr>en_now := t\<rparr>) =
    (Inl ErrRecheck, e'\<lparr>en_now := t\<rparr>)"
proof -
  let ?k = "write_key env s sourceRef targetRef base values"
  have k: "write_key env' s sourceRef targetRef base values = ?k"
    by (simp add: write_key_def write_payload_def env')
  obtain c where c: "idem_begin env ?k e = (Inr (no_result, Proceed), e\<lparr>en_store := c\<rparr>)" "good c"
    "\<forall>t. phase c t ?k = (if live (en_now e + pe_ttl env) t then InFlight else Fresh)"
    by (rule idem_begin_ok [OF env g j, of ?k]) (use fresh in auto)
  have "stored_as (in_flight t ?k) (e\<lparr>en_store := c\<rparr>)"
    using c t plan by (simp add: stored_as_def in_flight_def live_def)
  moreover have "send env s target targetRef (FromCanonical (sy_mapper s) (pr_side target) values)
      (write_payload env s base values) ?k (e\<lparr>en_store := c\<rparr>) = (Inl err, e')"
    using r c(1) by (simp add: engine_write_live [OF plan fs] andThen_def)
  ultimately have i: "stored_as (in_flight t ?k) e'"
    by (rule send_create_unanswered [OF env new _ _ err])
  let ?e = "e'\<lparr>en_now := t\<rparr>"
  have p: "phase (en_store ?e) (en_now ?e) ?k = InFlight" "good (en_store ?e)" "en_plan ?e = None"
    using i by (simp_all add: stored_as_def in_flight_def)
  obtain d where d: "idem_begin env' ?k ?e = (Inr (no_result, Recheck), ?e\<lparr>en_store := d\<rparr>)" "d = en_store ?e"
    by (rule idem_begin_ok [OF env'(1) p(2), of ?k]) (use p t in auto)
  then show ?thesis by (simp add: engine_write_live [OF p(3) fs] andThen_def new k)
qed

end

section \<open>Deletion\<close>

context doc_store
begin

text \<open>Only the named collections may have changed.\<close>

definition only_in :: "string set \<Rightarrow> 's \<Rightarrow> 's \<Rightarrow> bool" where
  "only_in C c c' \<longleftrightarrow> (\<forall>t n k. coll_name n \<longrightarrow> n \<notin> C \<longrightarrow> view c' t n k = view c t n k)"

lemma only_in_only_at: "only_at K c c' \<Longrightarrow> fst ` K \<subseteq> C \<Longrightarrow> only_in C c c'"
  by (force simp: only_at_def only_in_def)

lemma only_in_refl [simp]: "only_in C c c"
  by (simp add: only_in_def)

lemma only_in_trans: "only_in C c c' \<Longrightarrow> only_in C c' c'' \<Longrightarrow> only_in C c c''"
  by (simp add: only_in_def)

lemma only_in_mono: "only_in C c c' \<Longrightarrow> C \<subseteq> D \<Longrightarrow> only_in D c c'"
  by (auto simp: only_in_def)

lemma only_in_linked: "only_in C c c' \<Longrightarrow> CollLinks \<notin> C \<Longrightarrow> linked c' t r = linked c t r"
  by (simp add: only_in_def linked_def)

lemma only_in_snapped: "only_in C c c' \<Longrightarrow> CollSnapshots \<notin> C \<Longrightarrow> snapped c' t r = snapped c t r"
  by (simp add: only_in_def snapped_def)

lemma index_cells_colls: "fst ` index_cells r ks \<subseteq> {CollKeys, CollKeyOwner}"
  by (auto simp: index_cells_def)

lemma drop_ref_ok:
  assumes env: "pe_store env = ops" and g: "good (en_store e)"
  obtains c where "drop_ref env r e = (Inr (), e\<lparr>en_store := c\<rparr>)" "good c"
    "only_in {CollKeys, CollKeyOwner, CollSnapshots} (en_store e) c" "\<And>t. snapped c t r = None"
proof -
  let ?now = "en_now e"
  obtain c1 where c1: "releaseKeys ops ?now r (en_store e) = (Inr (), c1)" "good c1"
    "only_at (index_cells r (owned (en_store e) ?now r)) (en_store e) c1"
    by (rule releaseKeys_ok [OF g, of ?now r]) blast
  obtain c2 where c2: "so_delete ops ?now CollSnapshots (refKey r) c1 = (Inr (), c2)" "good c2"
    "only_at {(CollSnapshots, refKey r)} c1 c2" "\<And>t. view c2 t CollSnapshots (refKey r) = None"
    by (rule delete_ok [OF c1(2) coll_name_simps(3), of ?now "refKey r"]) blast
  have "only_in {CollKeys, CollKeyOwner, CollSnapshots} (en_store e) c2"
    by (rule only_in_trans [OF only_in_only_at [OF c1(3)] only_in_only_at [OF c2(3)]])
       (use index_cells_colls in auto)
  moreover have "refKey r = ref_key r" by (simp add: refKey_def ref_key_def)
  ultimately show thesis
    using c1 c2 by (intro that [of c2])
      (simp_all add: drop_ref_def andThen_def on_store_eq [OF env] Deindex_def snapped_def)
qed

lemma dropLink_ok:
  assumes env: "pe_store env = ops" and g: "good (en_store e)"
    and l: "linked (en_store e) (en_now e) a = Some l" "Peer l a = Some b"
  obtains c where "dropLink env a b e = (Inr (), e\<lparr>en_store := c\<rparr>)" "good c"
    "only_in {CollLinks, CollKeys, CollKeyOwner, CollSnapshots} (en_store e) c"
    "\<And>t. linked c t a = None" "\<And>t. linked c t b = None"
proof -
  let ?now = "en_now e"
  obtain c1 where c1: "DeleteLink ops ?now l (en_store e) = (Inr (), c1)" "good c1"
    "only_at {(CollLinks, ref_key (l_left l)), (CollLinks, ref_key (l_right l))} (en_store e) c1"
    "\<And>t. view c1 t CollLinks (ref_key (l_left l)) = None"
    "\<And>t. view c1 t CollLinks (ref_key (l_right l)) = None"
    by (rule DeleteLink_ok [OF g, of ?now l]) blast
  obtain c2 where c2: "drop_ref env a (e\<lparr>en_store := c1\<rparr>) = (Inr (), e\<lparr>en_store := c2\<rparr>)" "good c2"
    "only_in {CollKeys, CollKeyOwner, CollSnapshots} c1 c2"
    by (rule drop_ref_ok [OF env, of "e\<lparr>en_store := c1\<rparr>" a]) (use c1 in auto)
  obtain c3 where c3: "drop_ref env b (e\<lparr>en_store := c2\<rparr>) = (Inr (), e\<lparr>en_store := c3\<rparr>)" "good c3"
    "only_in {CollKeys, CollKeyOwner, CollSnapshots} c2 c3"
    by (rule drop_ref_ok [OF env, of "e\<lparr>en_store := c2\<rparr>" b]) (use c2 in auto)
  have gone: "view c1 t CollLinks (ref_key a) = None \<and> view c1 t CollLinks (ref_key b) = None" for t
    using l(2) c1(4,5) by (auto simp: Peer_def split: if_splits)
  have o: "only_in {CollKeys, CollKeyOwner, CollSnapshots} c1 c3"
    by (rule only_in_trans [OF c2(3) c3(3)])
  have "only_in {CollLinks, CollKeys, CollKeyOwner, CollSnapshots} (en_store e) c3"
    by (rule only_in_trans [OF only_in_only_at [OF c1(3)] only_in_mono [OF o]]) auto
  moreover have "linked c3 t a = None" "linked c3 t b = None" for t
    using gone [of t] by (simp_all add: only_in_linked [OF o]) (simp_all add: linked_def)
  moreover have "dropLink env a b e = (Inr (), e\<lparr>en_store := c3\<rparr>)"
    using c1(1) c2(1) c3(1) l(1)
    by (simp add: dropLink_def andThen_def on_store_eq [OF env] GetLink_ok [OF g])
  ultimately show thesis using c3(2) by (intro that)
qed

text \<open>A step that changes nothing of the store but idempotency marks.\<close>

definition marks_only :: "('s, 'w) eng \<Rightarrow> ('s, 'w) eng \<Rightarrow> bool" where
  "marks_only e e' \<longleftrightarrow> en_plan e' = en_plan e \<and> good (en_store e') \<and>
     only_in {CollIdem} (en_store e) (en_store e')"

lemma marks_onlyI: "good c \<Longrightarrow> only_at {(CollIdem, key)} (en_store e) c \<Longrightarrow> marks_only e (e\<lparr>en_store := c\<rparr>)"
  by (auto simp: marks_only_def intro: only_in_only_at)

lemma marks_only_refl: "good (en_store e) \<Longrightarrow> marks_only e e"
  by (simp add: marks_only_def)

lemma idem_begin_only:
  assumes env: "pe_store env = ops" and g: "good (en_store e)"
  shows "marks_only e (snd (idem_begin env key e))"
proof (cases "json_time (en_now e)")
  case True
  obtain c x where "idem_begin env key e = (x, e\<lparr>en_store := c\<rparr>)" "good c"
    "only_at {(CollIdem, key)} (en_store e) c"
    by (rule idem_begin_ok [OF env g True, of key]) blast
  then show ?thesis by (simp add: marks_onlyI)
next
  case False
  then have "snd (Begin ops (pe_ttl env) (en_now e) key (en_store e)) = en_store e"
    by (simp add: Begin_def andThen_def Idem_ok [OF g] PutIdem_def put_doc_def split: option.split)
  then have "snd (idem_begin env key e) = e" by (simp add: idem_begin_def on_store_eq [OF env])
  with g show ?thesis by (simp add: marks_only_refl)
qed

lemma idem_abandon_only:
  assumes env: "pe_store env = ops" and g: "good (en_store e)"
  shows "marks_only e (snd (idem_abandon env key e))"
proof -
  obtain c where "idem_abandon env key e = (Inr (), e\<lparr>en_store := c\<rparr>)" "good c"
    "only_at {(CollIdem, key)} (en_store e) c"
    by (rule idem_abandon_ok [OF env g, of key]) blast
  then show ?thesis by (simp add: marks_onlyI)
qed

lemma idem_commit_only:
  assumes env: "pe_store env = ops" and g: "good (en_store e)"
  shows "marks_only e (snd (idem_commit env key res e))"
proof (cases "idem_commit env key res e")
  case (Pair r e')
  show ?thesis
  proof (cases r)
    case (Inl x)
    with Pair idem_commit_Inl [OF env g, of key res x e'] g show ?thesis by (simp add: marks_only_refl)
  next
    case (Inr x)
    with Pair idem_commit_Inr [OF env g, of key res e'] obtain c where
      "e' = e\<lparr>en_store := c\<rparr>" "good c" "only_at {(CollIdem, key)} (en_store e) c" by auto
    with Pair show ?thesis by (simp add: marks_onlyI)
  qed
qed

text \<open>A property of the store that idempotency marks do not affect.\<close>

definition markless :: "('s \<Rightarrow> bool) \<Rightarrow> bool" where
  "markless Q \<longleftrightarrow> (\<forall>c. Q c \<longrightarrow> good c) \<and> (\<forall>c c'. Q c \<longrightarrow> good c' \<longrightarrow> only_in {CollIdem} c c' \<longrightarrow> Q c')"

lemma markless_step: "markless Q \<Longrightarrow> stored_as Q e \<Longrightarrow> marks_only e e' \<Longrightarrow> stored_as Q e'"
  by (auto simp: markless_def stored_as_def marks_only_def)

lemma markless_good: "markless Q \<Longrightarrow> stored_as Q e \<Longrightarrow> good (en_store e)"
  by (auto simp: markless_def stored_as_def)

lemma keeps_markless:
  assumes env: "pe_store env = ops" and Q: "markless Q"
  shows "keeps (stored_as Q) (idem_begin env key)" "keeps (stored_as Q) (idem_abandon env key)"
    "keeps (stored_as Q) (idem_commit env key res)"
  by (rule keepsI, rule markless_step [OF Q], assumption,
      blast intro: idem_begin_only [OF env] idem_abandon_only [OF env] idem_commit_only [OF env]
        markless_good [OF Q])+

end

context doc_store
begin

definition link_held :: "ref \<Rightarrow> link \<Rightarrow> 's \<Rightarrow> bool" where
  "link_held r l c \<longleftrightarrow> good c \<and> (\<forall>t. linked c t r = Some l)"

definition unlinked :: "ref \<Rightarrow> 's \<Rightarrow> bool" where
  "unlinked r c \<longleftrightarrow> good c \<and> (\<forall>t. linked c t r = None)"

lemma link_held_markless: "markless (link_held r l)"
  by (auto simp: markless_def link_held_def only_in_linked)

text \<open>A delete event for a record without a link stops there.\<close>

lemma delete_unlinked:
  assumes env: "pe_store env = ops"
    and u: "unlinked (new_ref from (sy_kind s) (ev_remote_id ev)) (en_store e)"
  shows "processDelete env s from to ev e =
    (Inr OutcomeSkipped, e\<lparr>en_stats := (en_stats e)\<lparr>st_skipped := st_skipped (en_stats e) + 1\<rparr>\<rparr>)"
  using u by (simp add: processDelete_def Let_def andThen_def on_store_eq [OF env] GetLink_ok unlinked_def bump_def)

lemma finish_delete_ok:
  assumes env: "pe_store env = ops" and h: "link_held a l (en_store e)" and p: "Peer l a = Some b"
  shows "\<exists>e'. finish_delete env a b e = (Inr OutcomeDeleted, e') \<and>
    unlinked a (en_store e') \<and> unlinked b (en_store e') \<and> en_world e' = en_world e"
proof -
  obtain c where "dropLink env a b e = (Inr (), e\<lparr>en_store := c\<rparr>)" "good c"
    "\<And>t. linked c t a = None" "\<And>t. linked c t b = None"
    by (rule dropLink_ok [OF env _ _ p, of e]) (use h in \<open>auto simp: link_held_def\<close>)
  then show ?thesis by (simp add: finish_delete_def andThen_def bump_def unlinked_def)
qed

lemma delete_outcome:
  assumes env: "pe_store env = ops" and plan: "en_plan e = None"
    and a: "a = new_ref from (sy_kind s) (ev_remote_id ev)"
    and h: "link_held a l (en_store e)" and p: "Peer l a = Some b"
  shows "case processDelete env s from to ev e of
      (Inr outcome, e') \<Rightarrow> outcome = OutcomeDeleted \<and> unlinked a (en_store e') \<and> unlinked b (en_store e')
    | (Inl err, e') \<Rightarrow> link_held a l (en_store e')"
proof -
  let ?key = "Key (pe_hash env) (sy_name s) (sy_kind s) a b ''delete''"
  let ?pre = "andThen (idem_begin env ?key) (\<lambda>(_, decision0).
      andThen (if decision0 = Recheck
               then andThen (idem_abandon env ?key) (\<lambda>_. andThen (idem_begin env ?key) (\<lambda>(_, d). ret d))
               else ret decision0) (\<lambda>decision.
      if decision = Proceed then send_delete env s to b ?key else ret ()))"
  let ?I = "stored_as (link_held a l)"
  note marks = keeps_markless [OF env link_held_markless]
  have link: "linked (en_store e) (en_now e) a = Some l" and g: "good (en_store e)"
    using h by (simp_all add: link_held_def)
  have send: "keeps ?I (send_delete env s to b ?key)"
    unfolding send_delete_def by (auto intro!: keeps_andThen keeps_guarded keeps_stored_as marks)
  have eq: "processDelete env s from to ev e = andThen ?pre (\<lambda>_. finish_delete env a b) e"
    using link plan p
    by (simp add: processDelete_def Let_def a [symmetric] andThen_def [of "on_store env _"]
        on_store_eq [OF env] GetLink_ok [OF g] andThen_assoc split_def)
  have "keeps ?I ?pre"
    by (auto intro!: keeps_andThen marks send split: prod.split)
  moreover have "?I e" using h plan by (simp add: stored_as_def)
  ultimately have pre: "?I (snd (?pre e))" by (rule keepsD)
  show ?thesis
  proof (cases "?pre e")
    case (Pair r e1)
    with pre have h1: "link_held a l (en_store e1)" by (simp add: stored_as_def)
    obtain e2 where "finish_delete env a b e1 = (Inr OutcomeDeleted, e2)"
      "unlinked a (en_store e2)" "unlinked b (en_store e2)"
      using finish_delete_ok [OF env h1 p] by blast
    with Pair h1 show ?thesis unfolding eq by (cases r) (simp_all add: andThen_def)
  qed
qed

end

section \<open>A settled pair\<close>

definition snapshot_of :: "('s, 'w) env \<Rightarrow> sync \<Rightarrow> gotime \<Rightarrow> fields \<Rightarrow> snapshot" where
  "snapshot_of env s t vs =
     \<lparr>sn_hash = SnapshotHash (pe_hash env) vs (sy_canonical s), sn_values = json_fields vs, sn_at = t\<rparr>"

lemma engine_get_store: "en_store (snd (engine_get env p kind rid e)) = en_store e"
proof -
  let ?I = "\<lambda>x. en_store x = en_store e"
  have "keeps ?I (bucket_wait env p)" "keeps ?I (on_bucket p f)" "keeps ?I (noteFailure p err)"
    "keeps ?I (on_world call)" for f err and call :: "gotime \<Rightarrow> ('b, gerr, crm_record) st"
    by (simp_all add: keeps_def bucket_wait_def on_bucket_def noteFailure_def on_world_def Let_def
        case_prod_beta)
  then have "keeps ?I (engine_get env p kind rid)"
    unfolding engine_get_def by (intro keeps_andThen keeps_guarded)
  then show ?thesis by (rule keepsD) simp
qed

context doc_store
begin

lemma commit_side_ok:
  assumes env: "pe_store env = ops" and g: "good (en_store e)" and j: "json_fields_ok vs" "json_time t"
  obtains c where "commit_side env s t (r, vs) e = (Inr (), e\<lparr>en_store := c\<rparr>)" "good c"
    "only_in {CollSnapshots, CollKeys, CollKeyOwner} (en_store e) c"
    "\<And>u. snapped c u r = Some (snapshot_of env s t vs)"
    "\<And>u r'. ref_key r' \<noteq> ref_key r \<Longrightarrow> snapped c u r' = snapped (en_store e) u r'"
proof -
  let ?now = "en_now e"
  let ?snap = "\<lparr>sn_hash = SnapshotHash (pe_hash env) vs (sy_canonical s), sn_values = vs, sn_at = t\<rparr>"
  let ?held = "held_keys (sy_identity s) (ref_connector r) (ref_kind r) vs"
  obtain c1 where c1: "SetSnapshot ops ?now r ?snap (en_store e) = (Inr (), c1)" "good c1"
    "only_at {(CollSnapshots, ref_key r)} (en_store e) c1"
    "\<And>u. snapped c1 u r = Some (?snap\<lparr>sn_values := json_fields (sn_values ?snap)\<rparr>)"
    by (rule SetSnapshot_ok [OF g, of ?snap ?now r]) (use j in auto)
  obtain c2 where c2: "Index ops ?now (sy_identity s) r vs c1 = (Inr (), c2)" "good c2"
    "only_at (index_cells r (owned c1 ?now r @ ?held)) c1 c2"
    by (rule Index_ok [OF c1(2) refl, of ?now "sy_identity s" r vs]) blast
  have o: "only_in {CollKeys, CollKeyOwner} c1 c2" by (rule only_in_only_at [OF c2(3) index_cells_colls])
  have other: "snapped c2 u r' = snapped (en_store e) u r'" if "ref_key r' \<noteq> ref_key r" for u r'
    using only_in_snapped [OF o, of u r'] c1(3) that by (simp add: snapped_def only_at_def)
  have "only_in {CollSnapshots, CollKeys, CollKeyOwner} (en_store e) c2"
    by (rule only_in_trans [OF only_in_only_at [OF c1(3)] only_in_mono [OF o]]) auto
  with c1 c2 other show thesis
    by (intro that [of c2]) (simp_all add: commit_side_def andThen_def on_store_eq [OF env]
        only_in_snapped [OF o] snapshot_of_def)
qed

lemma commitPair_ok:
  assumes env: "pe_store env = ops" and g: "good (en_store e)" and j: "json_time (en_now e)"
    and v: "json_fields_ok lv" "json_fields_ok rv" and ne: "ref_key l \<noteq> ref_key r"
  obtains c where "commitPair env s l r lv rv e = (Inr (), e\<lparr>en_store := c\<rparr>)" "good c"
    "\<And>u. linked c u l = Some \<lparr>l_left = l, l_right = r, l_linked_at = en_now e\<rparr>"
    "\<And>u. linked c u r = Some \<lparr>l_left = l, l_right = r, l_linked_at = en_now e\<rparr>"
    "\<And>u. snapped c u l = Some (snapshot_of env s (en_now e) lv)"
    "\<And>u. snapped c u r = Some (snapshot_of env s (en_now e) rv)"
proof -
  let ?now = "en_now e"
  let ?l = "\<lparr>l_left = l, l_right = r, l_linked_at = ?now\<rparr>"
  obtain c1 where c1: "PutLink ops ?now ?l (en_store e) = (Inr (), c1)" "good c1"
    "\<And>t. view c1 t CollLinks (ref_key l) = Some (DocLink ?l)"
    "\<And>t. view c1 t CollLinks (ref_key r) = Some (DocLink ?l)"
    by (rule PutLink_ok [OF g, of ?l ?now]) (use j in auto)
  obtain c2 where c2: "commit_side env s ?now (l, lv) (e\<lparr>en_store := c1\<rparr>) = (Inr (), e\<lparr>en_store := c2\<rparr>)"
    "good c2" "only_in {CollSnapshots, CollKeys, CollKeyOwner} c1 c2"
    "\<And>u. snapped c2 u l = Some (snapshot_of env s ?now lv)"
    by (rule commit_side_ok [OF env, of "e\<lparr>en_store := c1\<rparr>" lv ?now s l]) (use c1 v j in auto)
  obtain c3 where c3: "commit_side env s ?now (r, rv) (e\<lparr>en_store := c2\<rparr>) = (Inr (), e\<lparr>en_store := c3\<rparr>)"
    "good c3" "only_in {CollSnapshots, CollKeys, CollKeyOwner} c2 c3"
    "\<And>u. snapped c3 u r = Some (snapshot_of env s ?now rv)"
    "\<And>u r'. ref_key r' \<noteq> ref_key r \<Longrightarrow> snapped c3 u r' = snapped c2 u r'"
    by (rule commit_side_ok [OF env, of "e\<lparr>en_store := c2\<rparr>" rv ?now s r]) (use c2 v j in auto)
  have "linked c3 u q = linked c1 u q" for u q
    using only_in_linked [OF c3(3)] only_in_linked [OF c2(3)] by simp
  then have "linked c3 u l = Some ?l" "linked c3 u r = Some ?l" for u
    using c1(3,4) by (simp_all add: linked_def)
  moreover have "commitPair env s l r lv rv e = (Inr (), e\<lparr>en_store := c3\<rparr>)"
    using c1(1) c2(1) c3(1) by (simp add: commitPair_def Let_def andThen_def on_store_eq [OF env])
  ultimately show thesis using c3 c2(4) ne by (intro that [of c3]) auto
qed

text \<open>A pair both of whose sides are as the snapshots say needs no write.\<close>

lemma settle_unchanged:
  assumes env: "pe_store env = ops" and g: "good (en_store e)" and j: "json_time (en_now e)"
    and same: "cs_hash near = cs_synced_hash near" "cs_hash far = cs_synced_hash far"
    and v: "json_fields_ok (cs_fields near)" "json_fields_ok (cs_fields far)"
    and ne: "ref_key fromRef \<noteq> ref_key targetRef"
  shows "\<exists>c. settle_pair env s from fromRef targetRef near far e =
    (Inr OutcomeNoChange, e\<lparr>en_store := c, en_stats := (en_stats e)\<lparr>st_no_change := st_no_change (en_stats e) + 1\<rparr>\<rparr>)"
proof -
  obtain l r where lr: "sides from fromRef targetRef = (l, r)" by fastforce
  obtain ls rs where st: "sides from near far = (ls, rs)" by fastforce
  have ls: "cs_hash ls = cs_synced_hash ls" "cs_hash rs = cs_synced_hash rs"
    "json_fields_ok (cs_fields ls)" "json_fields_ok (cs_fields rs)" "ref_key l \<noteq> ref_key r"
    using same v ne lr st by (auto simp: sides_def split: if_splits)
  then have act: "res_action (Resolve (pe_hash env) (sy_conflict s) ls rs (sy_canonical s)) = Nothing"
    by (simp add: Resolve_def classify_def Changed_def Let_def)
  obtain c where "commitPair env s l r (cs_fields ls) (cs_fields rs) e = (Inr (), e\<lparr>en_store := c\<rparr>)"
    by (rule commitPair_ok [OF env g j ls(3-5), of s]) blast
  then show ?thesis
    by (intro exI [of _ c])
       (simp add: settle_pair_def Let_def lr st act apply_resolution_def andThen_def bump_def)
qed

lemma reconcile_settled:
  assumes env: "pe_store env = ops" and g: "good (en_store e)"
    and dir: "m_direction (sy_mapper s) = Bidirectional"
    and near: "snapped (en_store e) (en_now e) fromRef = Some ns" "sn_hash ns = hash"
    and far: "snapped (en_store e) (en_now e) targetRef = Some fs"
      "engine_get env to (sy_kind s) (ref_remote_id targetRef) e = (Inr current, e1)"
      "ToCanonical (sy_mapper s) (pr_side to) current = Inr fc"
      "SnapshotHash (pe_hash env) fc (sy_canonical s) = sn_hash fs"
    and j: "json_time (en_now e1)" "json_fields_ok canonical" "json_fields_ok fc"
    and ne: "ref_key fromRef \<noteq> ref_key targetRef"
  shows "\<exists>e2. reconcile env s from to fromRef targetRef canonical hash updatedAt e = (Inr OutcomeNoChange, e2) \<and>
    en_world e2 = en_world e1"
proof -
  let ?near = "\<lparr>cs_fields = canonical, cs_hash = hash, cs_base = sn_values ns,
      cs_synced_hash = sn_hash ns, cs_updated_at = updatedAt, cs_present = True\<rparr>"
  let ?far = "\<lparr>cs_fields = fc, cs_hash = SnapshotHash (pe_hash env) fc (sy_canonical s), cs_base = sn_values fs,
      cs_synced_hash = sn_hash fs, cs_updated_at = r_updated_at current, cs_present = True\<rparr>"
  have st: "en_store e1 = en_store e" using engine_get_store [of env to _ _ e] far(2) by (metis snd_conv)
  obtain c where c: "settle_pair env s from fromRef targetRef ?near ?far e1 = (Inr OutcomeNoChange,
      e1\<lparr>en_store := c, en_stats := (en_stats e1)\<lparr>st_no_change := st_no_change (en_stats e1) + 1\<rparr>\<rparr>)"
    using settle_unchanged [OF env _ j(1), of ?near ?far fromRef targetRef s "from"] st g near far j ne by auto
  have "reconcile env s from to fromRef targetRef canonical hash updatedAt e =
      settle_pair env s from fromRef targetRef ?near ?far e1"
    using near far dir
    by (simp add: reconcile_def Let_def andThen_def on_store_eq [OF env] Snapshot_ok [OF g] snapshot_or_none_def)
  with c show ?thesis by simp
qed

lemma review_once:
  fixes env :: "('s, 'w) env"
  assumes env: "pe_store env = ops" and g: "good (en_store e)" and j: "json_time (en_now e)" "json_ok payload"
    and new: "view (en_store e) (en_now e) CollReview (reviewID (pe_hash env) (sy_name s) subject) = None"
  shows "\<exists>c. queueReview env s subject r reason payload e = (Inr OutcomeReviewed,
      e\<lparr>en_store := c, en_stats := (en_stats e)\<lparr>st_reviewed := st_reviewed (en_stats e) + 1\<rparr>\<rparr>) \<and>
    only_at {(CollReview, reviewID (pe_hash env) (sy_name s) subject)} (en_store e) c \<and>
    (\<forall>e' r' reason' payload'. en_store e' = c \<longrightarrow>
       queueReview env s subject r' reason' payload' e' = (Inr OutcomeReviewed, e'))"
proof -
  let ?id = "reviewID (pe_hash env) (sy_name s) subject"
  let ?item = "\<lparr>q_id = ?id, q_sync = sy_name s, q_ref = r, q_reason = reason,
      q_created_at = en_now e, q_attempts = 0, q_payload = payload\<rparr>"
  obtain c where c: "put_doc ops ''store: encode queue item'' (en_now e) CollReview ?id (DocQueue ?item) 0
      (en_store e) = (Inr (), c)" "good c" "only_at {(CollReview, ?id)} (en_store e) c"
    "\<And>t. view c t CollReview ?id = Some (stored (DocQueue ?item))"
    by (rule put_doc_ok [OF g coll_name_simps(8), of "DocQueue ?item" "''store: encode queue item''"
          "en_now e" ?id 0]) (use j in auto)
  have "GetQueueItem ops t CollReview ?id c = (Inr (Option.bind (view c t CollReview ?id) as_queue), c)" for t
    unfolding GetQueueItem_def get_decode [OF c(2)] by (rule decode_view [OF c(2)]) simp_all
  then have again: "queueReview env s subject r' reason' payload' e' = (Inr OutcomeReviewed, e')"
    if "en_store e' = c" for e' :: "('s, 'w) eng" and r' reason' payload'
    using that by (simp add: queueReview_def Let_def andThen_def on_store_eq [OF env] c(4))
  have "GetQueueItem ops (en_now e) CollReview ?id (en_store e) = (Inr None, en_store e)"
    by (simp add: GetQueueItem_def get_decode [OF g] new)
  then have "queueReview env s subject r reason payload e = (Inr OutcomeReviewed,
      e\<lparr>en_store := c, en_stats := (en_stats e)\<lparr>st_reviewed := st_reviewed (en_stats e) + 1\<rparr>\<rparr>)"
    using c(1) j by (simp add: queueReview_def Let_def andThen_def on_store_eq [OF env] PutQueueItem_def bump_def)
  with c(3) again show ?thesis by blast
qed

end

section \<open>Properties\<close>

text \<open>
  C1: The engine does not react to itself. After a write to a known or newly created record has
  succeeded, the event with which that peer reports the record as written, arriving inside the
  echo window, ends as an echo: nothing is sent to any peer, and no link, snapshot, identity key
  or idempotency mark changes.
\<close>

theorem own_write_is_echo:
  assumes "pe_store env = mem_ops" and "mem_docs.good (en_store e)" and "json_time (en_now e)"
    and "en_plan e = None" and "FromCanonical (sy_mapper s) (pr_side target) values \<noteq> []"
    and "\<And>r. mem_docs.phase (en_store e) (en_now e) (write_key env s sourceRef targetRef base values) \<noteq> Finished r"
    and "engine_write env s target targetRef sourceRef values base e = (Inr (result, wrote), e')"
    and "arrives env s name ev target rec canonical"
    and "new_ref target (sy_kind s) (r_remote_id rec) = written_ref s target targetRef result"
    and "SnapshotHash (pe_hash env) canonical (sy_canonical s) = write_payload env s base values"
    and "t < en_now e + Window (pe_windows env) (pr_name target)"
  shows "\<exists>e''. process env name ev (e'\<lparr>en_now := t\<rparr>) = (Inr OutcomeEcho, e'') \<and>
    en_world e'' = en_world e' \<and>
    (\<forall>c k. coll_name c \<longrightarrow> c \<noteq> CollOrigins \<longrightarrow>
       mem_view (en_store e'') t c k = mem_view (en_store e') t c k)"
  by (rule mem_docs.write_then_echo [OF assms])

definition example_create ::
  "(doc mem, (string \<times> string) list) env \<Rightarrow> (doc mem, (string \<times> string) list) eng \<Rightarrow>
     (gerr + write_result \<times> bool) \<times> (doc mem, (string \<times> string) list) eng" where
  "example_create env =
     engine_write env (example_sync ''bidirectional'') (sy_right (example_sync ''bidirectional''))
       (example_ref ''sales'' '''') (example_ref ''hub'' ''1'')
       [(''email'', VStr ''a@b.c''), (''first'', VStr ''Bo'')] []"

definition example_echo :: change_event where
  "example_echo = (example_event ''sales'' False)\<lparr>ev_record := Some
     \<lparr>r_kind = ''contact'', r_remote_id = ''77'',
      r_fields = [(''emails'', VMap [(''primary'', VStr ''a@b.c'')]), (''name'', VMap [(''first'', VStr ''Bo'')])],
      r_updated_at = unix_epoch, r_version = ''''\<rparr>\<rparr>"

theorem own_write_is_echo_witness:
  "\<exists>e''. process (example_env ''bidirectional'') ''contacts'' example_echo
     ((snd (example_create (example_env ''bidirectional'') (example_eng None)))\<lparr>en_now := unix_epoch + second\<rparr>) =
       (Inr OutcomeEcho, e'') \<and> en_world e'' = [(''sales'', ''upsert'')]"
proof -
  let ?env = "example_env ''bidirectional''" and ?s = "example_sync ''bidirectional''"
  let ?e = "example_eng None"
  let ?v = "[(''email'', VStr ''a@b.c''), (''first'', VStr ''Bo'')]"
  let ?res = "\<lparr>wr_remote_id = ''77'', wr_created = True, wr_version = '''', wr_updated_at = unix_epoch\<rparr>"
  obtain rec where rec: "ev_record example_echo = Some rec" by (simp add: example_echo_def)
  have "fst (example_create ?env ?e) = Inr (?res, True)" by code_simp
  then have r: "engine_write ?env ?s (sy_right ?s) (example_ref ''sales'' '''') (example_ref ''hub'' ''1'')
      ?v [] ?e = (Inr (?res, True), snd (example_create ?env ?e))"
    unfolding example_create_def [symmetric] by (metis prod.collapse)
  have w: "en_world (snd (example_create ?env ?e)) = [(''sales'', ''upsert'')]" by code_simp
  have m: "pe_store ?env = mem_ops" "mem_docs.good (en_store ?e)" "en_plan ?e = None"
    by (simp_all add: example_env_def example_eng_def)
  have j: "json_time (en_now ?e)" by code_simp
  have fs: "FromCanonical (sy_mapper ?s) (pr_side (sy_right ?s)) ?v \<noteq> []" by code_simp
  have ph: "mem_docs.phase (en_store ?e) t k \<noteq> Finished x" for t k x
    by (simp add: example_eng_def mem_docs.phase_def)
  have "peerByName ?s (ev_source example_echo) = Some (sy_right ?s) \<and> \<not> ev_deleted example_echo \<and>
      WritesTo (m_direction (sy_mapper ?s)) (pr_side (other_peer ?s (sy_right ?s)))"
    by code_simp
  moreover have c: "case ev_record example_echo of None \<Rightarrow> False | Some rec \<Rightarrow>
      r_remote_id rec = ''77'' \<and> ToCanonical (sy_mapper ?s) (pr_side (sy_right ?s)) rec = Inr ?v"
    by code_simp
  ultimately have a: "arrives ?env ?s ''contacts'' example_echo (sy_right ?s) rec ?v"
    using rec by (simp add: arrives_def example_env_def)
  have n: "new_ref (sy_right ?s) (sy_kind ?s) (r_remote_id rec) =
      written_ref ?s (sy_right ?s) (example_ref ''sales'' '''') ?res"
    using c rec by (simp add: written_ref_def example_ref_def)
  have h: "SnapshotHash (pe_hash ?env) ?v (sy_canonical ?s) = write_payload ?env ?s [] ?v"
    by (simp add: write_payload_def merge_values_def)
  have t: "unix_epoch + second < en_now ?e + Window (pe_windows ?env) (pr_name (sy_right ?s))"
    by code_simp
  show ?thesis
    using own_write_is_echo [OF m(1,2) j m(3) fs ph r a n h t] w by auto
qed

text \<open>
  C2: A create whose outcome is unknown is not repeated. When the first attempt to create a record
  ends in anything but success or an answer of the peer, a further attempt with the same content
  within the time to live fails with the recheck error before anything is sent and changes
  nothing, however the peer behaves by then.
\<close>

theorem lost_create_not_repeated:
  assumes "pe_store env = mem_ops" and "mem_docs.good (en_store e)" and "json_time (en_now e)"
    and "en_plan e = None" and "ref_remote_id targetRef = ''''"
    and "FromCanonical (sy_mapper s) (pr_side target) values \<noteq> []"
    and "mem_docs.phase (en_store e) (en_now e) (write_key env s sourceRef targetRef base values) = Fresh"
    and "engine_write env s target targetRef sourceRef values base e = (Inl err, e')"
    and "\<not> Answered err" and "json_time t" and "t < en_now e + pe_ttl env"
    and "pe_store env' = mem_ops" and "pe_hash env' = pe_hash env"
  shows "engine_write env' s target targetRef sourceRef values base (e'\<lparr>en_now := t\<rparr>) =
    (Inl ErrRecheck, e'\<lparr>en_now := t\<rparr>)"
  by (rule mem_docs.lost_create [OF assms])

definition example_timeout :: "(doc mem, (string \<times> string) list) env" where
  "example_timeout = (example_env ''bidirectional'')\<lparr>pe_conn := example_conn\<lparr>co_upsert :=
     (\<lambda>n now kind rec key w. (Inl (ErrText ''timeout''), w @ [(n, ''lost'')]))\<rparr>\<rparr>"

theorem lost_create_not_repeated_witness:
  "fst (example_create (example_env ''bidirectional'')
     ((snd (example_create example_timeout (example_eng None)))\<lparr>en_now := unix_epoch + second\<rparr>)) = Inl ErrRecheck"
proof -
  let ?s = "example_sync ''bidirectional''" and ?e = "example_eng None"
  let ?v = "[(''email'', VStr ''a@b.c''), (''first'', VStr ''Bo'')]"
  have "fst (example_create example_timeout ?e) = Inl (ErrText ''timeout'')" by code_simp
  then have r: "engine_write example_timeout ?s (sy_right ?s) (example_ref ''sales'' '''')
      (example_ref ''hub'' ''1'') ?v [] ?e =
      (Inl (ErrText ''timeout''), snd (example_create example_timeout ?e))"
    unfolding example_create_def [symmetric] by (metis prod.collapse)
  have m: "pe_store example_timeout = mem_ops" "mem_docs.good (en_store ?e)" "en_plan ?e = None"
    "ref_remote_id (example_ref ''sales'' '''') = ''''" "\<not> Answered (ErrText ''timeout'')"
    by (simp_all add: example_timeout_def example_env_def example_eng_def example_ref_def Answered_def)
  have j: "json_time (en_now ?e)" "json_time (unix_epoch + second)"
    "unix_epoch + second < en_now ?e + pe_ttl example_timeout" by code_simp+
  have fs: "FromCanonical (sy_mapper ?s) (pr_side (sy_right ?s)) ?v \<noteq> []" by code_simp
  have ph: "mem_docs.phase (en_store ?e) t k = Fresh" for t k
    by (simp add: example_eng_def mem_docs.phase_def)
  have env': "pe_store (example_env ''bidirectional'') = mem_ops"
    "pe_hash (example_env ''bidirectional'') = pe_hash example_timeout"
    by (simp_all add: example_env_def example_timeout_def)
  show ?thesis
    unfolding example_create_def [of "example_env ''bidirectional''"]
    using lost_create_not_repeated [OF m(1,2) j(1) m(3,4) fs ph r m(5) j(2,3) env'] by simp
qed

text \<open>
  The same mark is left when the engine is stopped while a create waits for the rate limiter:
  nothing has been sent, and the create is still refused for the time to live.
\<close>

theorem cancelled_wait_blocks_create:
  assumes env: "pe_store env = mem_ops" and g: "mem_docs.good (en_store e)" and j: "json_time (en_now e)"
    and plan: "en_plan e = None" and new: "ref_remote_id targetRef = ''''"
    and fs: "FromCanonical (sy_mapper s) (pr_side target) values \<noteq> []"
    and fresh: "mem_docs.phase (en_store e) (en_now e) (write_key env s sourceRef targetRef base values) = Fresh"
    and stop: "pe_cancelled env" and t: "json_time t" "t < en_now e + pe_ttl env"
  shows "\<exists>e'. engine_write env s target targetRef sourceRef values base e = (Inl ErrCtx, e') \<and>
    en_world e' = en_world e \<and>
    engine_write (env\<lparr>pe_cancelled := False\<rparr>) s target targetRef sourceRef values base (e'\<lparr>en_now := t\<rparr>) =
      (Inl ErrRecheck, e'\<lparr>en_now := t\<rparr>)"
proof -
  let ?k = "write_key env s sourceRef targetRef base values"
  obtain c where c: "idem_begin env ?k e = (Inr (no_result, Proceed), e\<lparr>en_store := c\<rparr>)"
    by (rule mem_docs.idem_begin_ok [OF env g j, of ?k]) (use fresh in auto)
  obtain bs u where w: "bucket_wait env target (e\<lparr>en_store := c\<rparr>) =
      (Inl ErrCtx, e\<lparr>en_store := c, en_buckets := bs, en_now := u\<rparr>)"
    by (rule bucket_wait_eq [of env target "e\<lparr>en_store := c\<rparr>"]) (use stop in \<open>simp only: if_True\<close>)
  have r: "engine_write env s target targetRef sourceRef values base e =
      (Inl ErrCtx, e\<lparr>en_store := c, en_buckets := bs, en_now := u\<rparr>)"
    using c w by (simp add: mem_docs.engine_write_live [OF plan fs] send_def new andThen_def)
  have "\<not> Answered ErrCtx" by (simp add: Answered_def)
  note lost = mem_docs.lost_create [OF env g j plan new fs fresh r this t, of "env\<lparr>pe_cancelled := False\<rparr>"]
  show ?thesis using r lost env by (intro exI [of _ "e\<lparr>en_store := c, en_buckets := bs, en_now := u\<rparr>"]) simp
qed

text \<open>
  C10: A deletion makes one round trip. For a linked record the handler either ends as deleted, and
  from then on a delete event for either record of the pair is skipped with nothing changed but
  the counter, whichever peer reports it; or it fails, and then the link is still there for the
  next attempt. There is no third outcome, whatever the peer answers.
\<close>

theorem delete_one_round_trip:
  fixes env :: "(doc mem, 'w) env"
  assumes "pe_store env = mem_ops" and "en_plan e = None"
    and "a = new_ref from (sy_kind s) (ev_remote_id ev)"
    and "mem_docs.link_held a l (en_store e)" and "Peer l a = Some b"
  shows "case processDelete env s from to ev e of
      (Inr outcome, e') \<Rightarrow> outcome = OutcomeDeleted \<and>
        (\<forall>t from' to' ev'. new_ref from' (sy_kind s) (ev_remote_id ev') \<in> {a, b} \<longrightarrow>
           processDelete env s from' to' ev' (e'\<lparr>en_now := t\<rparr>) = (Inr OutcomeSkipped,
             e'\<lparr>en_now := t, en_stats := (en_stats e')\<lparr>st_skipped := st_skipped (en_stats e') + 1\<rparr>\<rparr>))
    | (Inl err, e') \<Rightarrow> mem_docs.link_held a l (en_store e')"
proof -
  have "processDelete env s from' to' ev' (e'\<lparr>en_now := t\<rparr>) = (Inr OutcomeSkipped,
      e'\<lparr>en_now := t, en_stats := (en_stats e')\<lparr>st_skipped := st_skipped (en_stats e') + 1\<rparr>\<rparr>)"
    if "mem_docs.unlinked a (en_store e')" "mem_docs.unlinked b (en_store e')"
      "new_ref from' (sy_kind s) (ev_remote_id ev') \<in> {a, b}" for e' :: "(doc mem, 'w) eng" and t from' to' ev'
    using mem_docs.delete_unlinked [OF assms(1), of from' s ev' "e'\<lparr>en_now := t\<rparr>" to'] that by auto
  with mem_docs.delete_outcome [OF assms, of to] show ?thesis
    by (auto split: prod.splits sum.splits)
qed

lemma example_link_held:
  "\<exists>c. mem_docs.link_held (example_ref ''hub'' ''1'') example_link c"
proof -
  have j: "json_time (l_linked_at example_link)" by code_simp
  obtain c where "mem_docs.good c" "\<And>t. mem_view c t CollLinks (ref_key (l_left example_link)) = Some (DocLink example_link)"
    by (rule mem_docs.PutLink_ok [OF good_NewMem j, of 0]) blast
  then show ?thesis
    by (intro exI [of _ c]) (simp add: mem_docs.link_held_def mem_docs.linked_def example_link_def)
qed

theorem delete_one_round_trip_witness:
  "\<exists>c. mem_docs.link_held (example_ref ''hub'' ''1'') example_link c \<and>
     fst (processDelete (example_env ''bidirectional'') (example_sync ''bidirectional'')
       (sy_left (example_sync ''bidirectional'')) (sy_right (example_sync ''bidirectional''))
       (example_event ''hub'' True) ((example_eng None)\<lparr>en_store := c\<rparr>)) \<noteq> Inr OutcomeSkipped"
proof -
  obtain c where c: "mem_docs.link_held (example_ref ''hub'' ''1'') example_link c"
    using example_link_held by blast
  let ?s = "example_sync ''bidirectional''" and ?env = "example_env ''bidirectional''"
  let ?e = "(example_eng None)\<lparr>en_store := c\<rparr>"
  have m: "pe_store ?env = mem_ops" "en_plan ?e = None" "mem_docs.link_held (example_ref ''hub'' ''1'') example_link (en_store ?e)"
    using c by (simp_all add: example_env_def example_eng_def)
  have a: "example_ref ''hub'' ''1'' = new_ref (sy_left ?s) (sy_kind ?s) (ev_remote_id (example_event ''hub'' True))"
    "Peer example_link (example_ref ''hub'' ''1'') = Some (example_ref ''sales'' ''7'')" by code_simp+
  show ?thesis
    using delete_one_round_trip [OF m(1,2) a(1) m(3) a(2), of "sy_right ?s"] c
    by (intro exI [of _ c]) (auto split: prod.splits sum.splits)
qed

text \<open>
  C11: A settled pair stays quiet. Once a pair has been committed with the values of both sides, an
  event on either side that reports the near values, with the far record read back unchanged, ends
  as no change on a bidirectional sync: the only request made is that read.
\<close>

theorem settled_pair_stays_quiet:
  assumes env: "pe_store env = mem_ops" and g: "mem_docs.good (en_store e)" and j: "json_time (en_now e)"
    and v: "json_fields_ok nearValues" "json_fields_ok farValues"
    and ne: "ref_key fromRef \<noteq> ref_key targetRef"
    and lr: "sides from fromRef targetRef = (leftRef, rightRef)" "sides from nearValues farValues = (leftValues, rightValues)"
    and e': "en_store e' = en_store (snd (commitPair env s leftRef rightRef leftValues rightValues e))"
    and dir: "m_direction (sy_mapper s) = Bidirectional"
    and near: "SnapshotHash (pe_hash env) canonical (sy_canonical s) = SnapshotHash (pe_hash env) nearValues (sy_canonical s)"
    and far: "engine_get env to (sy_kind s) (ref_remote_id targetRef) e' = (Inr current, e'')"
      "ToCanonical (sy_mapper s) (pr_side to) current = Inr farCanonical"
      "SnapshotHash (pe_hash env) farCanonical (sy_canonical s) = SnapshotHash (pe_hash env) farValues (sy_canonical s)"
    and j': "json_time (en_now e'')" "json_fields_ok canonical" "json_fields_ok farCanonical"
  shows "\<exists>f. reconcile env s from to fromRef targetRef canonical
      (SnapshotHash (pe_hash env) canonical (sy_canonical s)) updatedAt e' = (Inr OutcomeNoChange, f) \<and>
    en_world f = en_world e''"
proof -
  have ne': "ref_key leftRef \<noteq> ref_key rightRef" and v': "json_fields_ok leftValues" "json_fields_ok rightValues"
    using lr ne v by (auto simp: sides_def split: if_splits)
  obtain c where c: "commitPair env s leftRef rightRef leftValues rightValues e = (Inr (), e\<lparr>en_store := c\<rparr>)"
    "mem_docs.good c"
    "\<And>u. mem_docs.snapped c u leftRef = Some (snapshot_of env s (en_now e) leftValues)"
    "\<And>u. mem_docs.snapped c u rightRef = Some (snapshot_of env s (en_now e) rightValues)"
    by (rule mem_docs.commitPair_ok [OF env g j v' ne', of s]) blast
  have st: "en_store e' = c" using e' c(1) by simp
  have snap: "mem_docs.snapped c u fromRef = Some (snapshot_of env s (en_now e) nearValues)"
    "mem_docs.snapped c u targetRef = Some (snapshot_of env s (en_now e) farValues)" for u
    using c(3,4) lr by (auto simp: sides_def split: if_splits)
  show ?thesis
    by (rule mem_docs.reconcile_settled [where ns = "snapshot_of env s (en_now e) nearValues"
          and fs = "snapshot_of env s (en_now e) farValues", OF env _ dir _ _ _ far(1,2) _ j' ne])
       (use c(2) snap near far(3) st in \<open>simp_all add: snapshot_of_def\<close>)
qed

definition example_reads :: "(doc mem, (string \<times> string) list) env" where
  "example_reads = (example_env ''bidirectional'')\<lparr>pe_conn := example_conn\<lparr>co_get :=
     (\<lambda>n now kind rid w. (case ev_record example_echo of
        Some r \<Rightarrow> (Inr r, w) | None \<Rightarrow> (Inl ErrClosed, w)))\<rparr>\<rparr>"

definition example_settled :: "(doc mem, (string \<times> string) list) eng" where
  "example_settled = snd (commitPair example_reads (example_sync ''bidirectional'') (example_ref ''hub'' ''1'')
     (example_ref ''sales'' ''77'') [(''email'', VStr ''a@b.c''), (''first'', VStr ''Bo'')]
     [(''email'', VStr ''a@b.c''), (''first'', VStr ''Bo'')] (example_eng None))"

theorem settled_pair_stays_quiet_witness:
  "\<exists>f. reconcile example_reads (example_sync ''bidirectional'') (sy_left (example_sync ''bidirectional''))
      (sy_right (example_sync ''bidirectional'')) (example_ref ''hub'' ''1'') (example_ref ''sales'' ''77'')
      [(''first'', VStr ''Bo''), (''email'', VStr ''a@b.c'')]
      (SnapshotHash (\<lambda>x. x) [(''first'', VStr ''Bo''), (''email'', VStr ''a@b.c'')] [''created'', ''email'', ''first''])
      unix_epoch example_settled = (Inr OutcomeNoChange, f) \<and> en_world f = []"
proof -
  let ?s = "example_sync ''bidirectional''" and ?v = "[(''email'', VStr ''a@b.c''), (''first'', VStr ''Bo'')]"
  let ?c = "[(''first'', VStr ''Bo''), (''email'', VStr ''a@b.c'')]"
  let ?get = "engine_get example_reads (sy_right ?s) (sy_kind ?s) (ref_remote_id (example_ref ''sales'' ''77'')) example_settled"
  have m: "pe_store example_reads = mem_ops" "mem_docs.good (en_store (example_eng None))"
    "pe_hash example_reads = (\<lambda>x. x)" "sy_canonical ?s = [''created'', ''email'', ''first'']"
    by (simp_all add: example_reads_def example_env_def example_eng_def example_sync_def)
  have j: "json_time (en_now (example_eng None))" "json_fields_ok ?v" "json_fields_ok ?c"
    "ref_key (example_ref ''hub'' ''1'') \<noteq> ref_key (example_ref ''sales'' ''77'')"
    "m_direction (sy_mapper ?s) = Bidirectional" "json_time (en_now (snd ?get))" by code_simp+
  have l: "sides (sy_left ?s) x y = (x, y)" for x y :: 'x by (simp add: sides_def example_sync_def)
  have h: "SnapshotHash (pe_hash example_reads) ?c (sy_canonical ?s) = SnapshotHash (pe_hash example_reads) ?v (sy_canonical ?s)"
    by code_simp
  have w: "case ?get of (Inr r, e) \<Rightarrow> en_world e = [] \<and> ToCanonical (sy_mapper ?s) (pr_side (sy_right ?s)) r = Inr ?v
      | (Inl x, e) \<Rightarrow> False" by code_simp
  then obtain r where r: "?get = (Inr r, snd ?get)" "en_world (snd ?get) = []"
    "ToCanonical (sy_mapper ?s) (pr_side (sy_right ?s)) r = Inr ?v"
    by (auto split: prod.splits sum.splits)
  have e: "en_store example_settled = en_store (snd (commitPair example_reads ?s (example_ref ''hub'' ''1'')
      (example_ref ''sales'' ''77'') ?v ?v (example_eng None)))" by (simp add: example_settled_def)
  show ?thesis
    using settled_pair_stays_quiet [OF m(1,2) j(1,2,2,4) l l e j(5) h r(1,3) refl j(6,3,2), of unix_epoch]
    unfolding m(3,4) r(2) .
qed

text \<open>
  C14: A disagreement is one question. The first time a subject is queued for review its row is
  written with the time of that sighting, and nothing else is stored; asking again, with whatever
  reason or payload and at whatever time, leaves everything as it is.
\<close>

theorem review_asked_once:
  assumes "pe_store env = mem_ops" and "mem_docs.good (en_store e)" and "json_time (en_now e)"
    and "json_ok payload"
    and "mem_view (en_store e) (en_now e) CollReview (reviewID (pe_hash env) (sy_name s) subject) = None"
  shows "\<exists>e'. queueReview env s subject r reason payload e = (Inr OutcomeReviewed, e') \<and>
    en_world e' = en_world e \<and>
    mem_docs.only_at {(CollReview, reviewID (pe_hash env) (sy_name s) subject)} (en_store e) (en_store e') \<and>
    (\<forall>t r' reason' payload'. queueReview env s subject r' reason' payload' (e'\<lparr>en_now := t\<rparr>) =
       (Inr OutcomeReviewed, e'\<lparr>en_now := t\<rparr>))"
proof -
  from mem_docs.review_once [OF assms, of r reason] obtain c where c:
    "queueReview env s subject r reason payload e = (Inr OutcomeReviewed,
      e\<lparr>en_store := c, en_stats := (en_stats e)\<lparr>st_reviewed := st_reviewed (en_stats e) + 1\<rparr>\<rparr>)"
    "mem_docs.only_at {(CollReview, reviewID (pe_hash env) (sy_name s) subject)} (en_store e) c"
    "\<And>e' r' reason' payload'. en_store e' = c \<Longrightarrow>
       queueReview env s subject r' reason' payload' e' = (Inr OutcomeReviewed, e')" by blast
  show ?thesis
    by (rule exI, rule conjI, rule c(1)) (use c(2,3) in simp)
qed

theorem review_asked_once_witness:
  "\<exists>e'. queueReview (example_env ''bidirectional'') (example_sync ''bidirectional'') ''pair''
      (example_ref ''hub'' ''1'') ''why'' (VMap []) (example_eng None) = (Inr OutcomeReviewed, e') \<and>
    queueReview (example_env ''bidirectional'') (example_sync ''bidirectional'') ''pair''
      (example_ref ''sales'' ''7'') ''again'' (VMap []) (e'\<lparr>en_now := unix_epoch + 5\<rparr>) =
      (Inr OutcomeReviewed, e'\<lparr>en_now := unix_epoch + 5\<rparr>)"
proof -
  have m: "pe_store (example_env ''bidirectional'') = mem_ops" "mem_docs.good (en_store (example_eng None))"
    "\<And>t k. mem_view (en_store (example_eng None)) t CollReview k = None"
    by (simp_all add: example_env_def example_eng_def)
  have j: "json_time (en_now (example_eng None))" "json_ok (VMap [])" by code_simp+
  show ?thesis
    using review_asked_once [OF m(1,2) j m(3), of "example_sync ''bidirectional''" "''pair''"
        "example_ref ''hub'' ''1''" "''why''"] by blast
qed

text \<open>
  A value that a per-field direction keeps from being written is still taken into the state the
  snapshot records for that side: nothing is sent, and the pair is committed as if it had been.
\<close>

theorem narrowed_value_recorded_unwritten:
  assumes "res_action res = WriteLeft" and "FromCanonical (sy_mapper s) (pr_side (sy_left s)) (res_values res) = []"
  shows "apply_resolution env s leftRef rightRef lf rf res e = (Inr (merge_values lf (res_values res), rf), e)"
  using assms by (simp add: apply_resolution_def andThen_def engine_write_def)

end
