(* ===== verification/Work_Queue.thy ===== *)
theory Work_Queue
  imports Canonical "HOL-Library.Multiset"
begin

text \<open>
  The first half of \<^verbatim>\<open>internal/engine/queue.go\<close>: the in-process queue that feeds the workers.
  Every method runs under the queue's mutex, so it is one step on the record \<open>work_queue\<close>.

  A task is a pointer in the source; its identity here is its handle, and the closed \<^verbatim>\<open>done\<close>
  channels are the list of finished handles. \<^verbatim>\<open>wake\<close> and \<^verbatim>\<open>empty\<close> are buffered channels
  into which a send that would block is dropped: the number of tokens in each.
\<close>

section \<open>The queue\<close>

record task =
  tk_handle :: nat
  tk_sync :: string
  tk_event :: change_event
  tk_attempts :: int
  tk_not_before :: gotime

record work_queue =
  wq_ready :: "task list"
  wq_delayed :: "task list"
  wq_closed :: bool
  wq_wake :: nat
  wq_wake_cap :: nat
  wq_depth :: int
  wq_empty :: nat
  wq_done :: "nat list"

definition newWorkQueue :: "int \<Rightarrow> work_queue" where
  "newWorkQueue workers =
     \<lparr>wq_ready = [], wq_delayed = [], wq_closed = False, wq_wake = 0,
      wq_wake_cap = nat (if workers < 1 then 1 else workers), wq_depth = 0, wq_empty = 0, wq_done = []\<rparr>"

text \<open>A send with a \<^verbatim>\<open>default\<close> branch.\<close>

definition try_send :: "nat \<Rightarrow> nat \<Rightarrow> nat" where
  "try_send cap n = (if n < cap then n + 1 else n)"

definition finish :: "task \<Rightarrow> work_queue \<Rightarrow> work_queue" where
  "finish t q = (if tk_handle t \<in> set (wq_done q) then q else q\<lparr>wq_done := tk_handle t # wq_done q\<rparr>)"

definition signal :: "work_queue \<Rightarrow> work_queue" where
  "signal q = q\<lparr>wq_wake := try_send (wq_wake_cap q) (wq_wake q)\<rparr>"

definition push :: "task \<Rightarrow> work_queue \<Rightarrow> bool \<times> work_queue" where
  "push t q =
     (if wq_closed q then (False, finish t q)
      else (True, signal (q\<lparr>wq_ready := wq_ready q @ [t], wq_depth := wq_depth q + 1\<rparr>)))"

definition due :: "gotime \<Rightarrow> task \<Rightarrow> bool" where
  "due now t \<longleftrightarrow> \<not> tk_not_before t > now"

definition promote :: "gotime \<Rightarrow> work_queue \<Rightarrow> work_queue" where
  "promote now q =
     q\<lparr>wq_ready := wq_ready q @ takeWhile (due now) (wq_delayed q),
       wq_delayed := dropWhile (due now) (wq_delayed q)\<rparr>"

definition next_task :: "gotime \<Rightarrow> work_queue \<Rightarrow> task option \<times> work_queue" where
  "next_task now q0 =
     (let q = promote now q0
      in case wq_ready q of [] \<Rightarrow> (None, q) | t # ts \<Rightarrow> (Some t, q\<lparr>wq_ready := ts\<rparr>))"

definition complete :: "task \<Rightarrow> work_queue \<Rightarrow> work_queue" where
  "complete t q0 =
     (let q1 = finish t q0; q = q1\<lparr>wq_depth := wq_depth q1 - 1\<rparr>
      in if wq_depth q = 0 then q\<lparr>wq_empty := try_send 1 (wq_empty q)\<rparr> else q)"

definition requeue :: "task \<Rightarrow> work_queue \<Rightarrow> work_queue" where
  "requeue t q =
     (if wq_closed q then finish t q
      else signal (q\<lparr>wq_delayed := sort_key tk_not_before (wq_delayed q @ [t])\<rparr>))"

definition Depth :: "work_queue \<Rightarrow> int" where
  "Depth q = wq_depth q"

definition nextDeadline :: "work_queue \<Rightarrow> gotime option" where
  "nextDeadline q = (case wq_delayed q of [] \<Rightarrow> None | t # _ \<Rightarrow> Some (tk_not_before t))"

definition queue_close :: "work_queue \<Rightarrow> work_queue" where
  "queue_close q =
     (let pending = wq_ready q @ wq_delayed q;
          q1 = q\<lparr>wq_closed := True, wq_ready := [], wq_delayed := [], wq_depth := 0\<rparr>;
          q2 = fold finish pending q1
      in q2\<lparr>wq_empty := try_send 1 (wq_empty q2)\<rparr>)"

text \<open>A receive from \<^verbatim>\<open>wake\<close>, by a worker, and from \<^verbatim>\<open>empty\<close>, by \<^verbatim>\<open>WaitIdle\<close>.\<close>

definition take_wake :: "work_queue \<Rightarrow> work_queue" where
  "take_wake q = q\<lparr>wq_wake := wq_wake q - 1\<rparr>"

definition take_empty :: "work_queue \<Rightarrow> work_queue" where
  "take_empty q = q\<lparr>wq_empty := wq_empty q - 1\<rparr>"

section \<open>What the queue holds\<close>

definition queued :: "work_queue \<Rightarrow> task multiset" where
  "queued q = mset (wq_ready q @ wq_delayed q)"

text \<open>
  The histories a queue sees: tasks come in, tokens are received, and whoever took a task either
  completes it or puts it back, possibly with more attempts and a later time. \<open>flight\<close> is the
  multiset of tasks taken and not yet given back.
\<close>

inductive queue_run :: "int \<Rightarrow> work_queue \<Rightarrow> task multiset \<Rightarrow> nat set \<Rightarrow> bool" for workers where
  start: "queue_run workers (newWorkQueue workers) {#} {}"
| push: "queue_run workers q flight hs \<Longrightarrow>
    queue_run workers (snd (push t q)) flight (insert (tk_handle t) hs)"
| take_some: "queue_run workers q flight hs \<Longrightarrow> next_task now q = (Some t, q') \<Longrightarrow>
    queue_run workers q' (add_mset t flight) hs"
| take_none: "queue_run workers q flight hs \<Longrightarrow> next_task now q = (None, q') \<Longrightarrow>
    queue_run workers q' flight hs"
| complete: "queue_run workers q (add_mset t flight) hs \<Longrightarrow> queue_run workers (complete t q) flight hs"
| requeue: "queue_run workers q (add_mset t flight) hs \<Longrightarrow> tk_handle t' = tk_handle t \<Longrightarrow>
    queue_run workers (requeue t' q) flight hs"
| close: "queue_run workers q flight hs \<Longrightarrow> queue_run workers (queue_close q) flight hs"
| woken: "queue_run workers q flight hs \<Longrightarrow> 0 < wq_wake q \<Longrightarrow> queue_run workers (take_wake q) flight hs"
| idle: "queue_run workers q flight hs \<Longrightarrow> 0 < wq_empty q \<Longrightarrow> queue_run workers (take_empty q) flight hs"

text \<open>
  The invariant: while the queue is open its depth is the number of tasks queued or in flight;
  once closed it holds nothing. Every handle that was handed out is finished, queued or in flight.
\<close>

definition queue_inv :: "work_queue \<Rightarrow> task multiset \<Rightarrow> nat set \<Rightarrow> bool" where
  "queue_inv q flight hs \<longleftrightarrow>
     sorted (map tk_not_before (wq_delayed q)) \<and>
     wq_wake q \<le> wq_wake_cap q \<and> wq_empty q \<le> 1 \<and>
     (wq_closed q \<longrightarrow> queued q = {#}) \<and>
     (\<not> wq_closed q \<longrightarrow> wq_depth q = int (size (queued q) + size flight)) \<and>
     hs = set (wq_done q) \<union> tk_handle ` set_mset (queued q + flight)"

lemma finish_simps [simp]:
  "wq_ready (finish t q) = wq_ready q" "wq_delayed (finish t q) = wq_delayed q"
  "wq_closed (finish t q) = wq_closed q" "wq_wake (finish t q) = wq_wake q"
  "wq_wake_cap (finish t q) = wq_wake_cap q" "wq_depth (finish t q) = wq_depth q"
  "wq_empty (finish t q) = wq_empty q" "queued (finish t q) = queued q"
  "set (wq_done (finish t q)) = insert (tk_handle t) (set (wq_done q))"
  by (auto simp: finish_def queued_def)

lemma fold_finish_simps [simp]:
  "wq_ready (fold finish ts q) = wq_ready q" "wq_delayed (fold finish ts q) = wq_delayed q"
  "wq_closed (fold finish ts q) = wq_closed q" "wq_wake (fold finish ts q) = wq_wake q"
  "wq_wake_cap (fold finish ts q) = wq_wake_cap q" "wq_depth (fold finish ts q) = wq_depth q"
  "wq_empty (fold finish ts q) = wq_empty q" "queued (fold finish ts q) = queued q"
  "set (wq_done (fold finish ts q)) = tk_handle ` set ts \<union> set (wq_done q)"
  by (induction ts arbitrary: q) auto

lemma signal_simps [simp]:
  "wq_ready (signal q) = wq_ready q" "wq_delayed (signal q) = wq_delayed q"
  "wq_closed (signal q) = wq_closed q" "wq_wake_cap (signal q) = wq_wake_cap q"
  "wq_depth (signal q) = wq_depth q" "wq_empty (signal q) = wq_empty q" "wq_done (signal q) = wq_done q"
  "wq_wake (signal q) = try_send (wq_wake_cap q) (wq_wake q)" "queued (signal q) = queued q"
  by (simp_all add: signal_def queued_def)

lemma try_send_le: "n \<le> cap \<Longrightarrow> try_send cap n \<le> cap"
  by (simp add: try_send_def)

lemma promote_queued [simp]: "queued (promote now q) = queued q"
  by (simp add: queued_def promote_def flip: mset_append)

lemma promote_simps [simp]:
  "wq_closed (promote now q) = wq_closed q" "wq_wake (promote now q) = wq_wake q"
  "wq_wake_cap (promote now q) = wq_wake_cap q" "wq_depth (promote now q) = wq_depth q"
  "wq_empty (promote now q) = wq_empty q" "wq_done (promote now q) = wq_done q"
  by (simp_all add: promote_def)

lemma sorted_map_dropWhile: "sorted (map f xs) \<Longrightarrow> sorted (map f (dropWhile P xs))"
  by (induction xs) auto

lemma promote_sorted:
  "sorted (map tk_not_before (wq_delayed q)) \<Longrightarrow> sorted (map tk_not_before (wq_delayed (promote now q)))"
  unfolding promote_def by (simp add: sorted_map_dropWhile)

lemma next_task_Some:
  assumes "next_task now q = (Some t, q')"
  shows "queued q = add_mset t (queued q')" and "q' = (promote now q)\<lparr>wq_ready := wq_ready q'\<rparr>"
    and "wq_ready (promote now q) = t # wq_ready q'"
proof -
  have r: "wq_ready (promote now q) = t # wq_ready q'" and q': "q' = (promote now q)\<lparr>wq_ready := wq_ready q'\<rparr>"
    using assms by (auto simp: next_task_def Let_def split: list.splits)
  show "wq_ready (promote now q) = t # wq_ready q'" "q' = (promote now q)\<lparr>wq_ready := wq_ready q'\<rparr>"
    by fact+
  have "queued (promote now q) = mset (wq_ready (promote now q) @ wq_delayed (promote now q))"
    by (simp only: queued_def)
  also have "\<dots> = add_mset t (queued q')"
    using r arg_cong [OF q', of wq_delayed] by (simp add: queued_def)
  finally show "queued q = add_mset t (queued q')" by simp
qed

lemma next_task_None: "next_task now q = (None, q') \<Longrightarrow> q' = promote now q \<and> wq_ready q' = []"
  by (auto simp: next_task_def Let_def split: list.splits)

lemma inv_start: "queue_inv (newWorkQueue workers) {#} {}"
  by (simp add: queue_inv_def newWorkQueue_def queued_def)

lemma inv_push: "queue_inv q flight hs \<Longrightarrow> queue_inv (snd (push t q)) flight (insert (tk_handle t) hs)"
  by (auto simp: queue_inv_def push_def try_send_le queued_def)

lemma inv_promote: "queue_inv q flight hs \<Longrightarrow> queue_inv (promote now q) flight hs"
  by (simp add: queue_inv_def promote_sorted)

lemma inv_take:
  assumes "queue_inv q flight hs" "next_task now q = (Some t, q')"
  shows "queue_inv q' (add_mset t flight) hs"
proof -
  note n = next_task_Some [OF assms(2)]
  have f: "wq_delayed q' = wq_delayed (promote now q)" "wq_closed q' = wq_closed q" "wq_wake q' = wq_wake q"
    "wq_wake_cap q' = wq_wake_cap q" "wq_depth q' = wq_depth q" "wq_empty q' = wq_empty q" "wq_done q' = wq_done q"
    by (subst n(2), simp)+
  show ?thesis
    using inv_promote [OF assms(1), of now] unfolding queue_inv_def f promote_queued promote_simps n(1)
    by auto
qed

lemma inv_complete: "queue_inv q (add_mset t flight) hs \<Longrightarrow> queue_inv (complete t q) flight hs"
  unfolding queue_inv_def complete_def Let_def by (auto simp: try_send_le queued_def)

lemma inv_requeue:
  assumes "queue_inv q (add_mset t flight) hs" "tk_handle t' = tk_handle t"
  shows "queue_inv (requeue t' q) flight hs"
  using assms unfolding queue_inv_def requeue_def by (auto simp: try_send_le queued_def)

lemma inv_close: "queue_inv q flight hs \<Longrightarrow> queue_inv (queue_close q) flight hs"
  unfolding queue_inv_def queue_close_def Let_def by (auto simp: try_send_le queued_def)

lemma queued_take [simp]:
  "queued (take_wake q) = queued q" "queued (take_empty q) = queued q" "wq_wake (take_wake q) = wq_wake q - 1"
  by (simp_all add: take_wake_def take_empty_def queued_def)

lemma inv_take_token:
  "queue_inv q flight hs \<Longrightarrow> queue_inv (take_wake q) flight hs"
  "queue_inv q flight hs \<Longrightarrow> queue_inv (take_empty q) flight hs"
  unfolding queue_inv_def queued_take by (auto simp: take_wake_def take_empty_def)

lemma queue_run_inv: "queue_run workers q flight hs \<Longrightarrow> queue_inv q flight hs"
  by (induction rule: queue_run.induct)
     (auto intro: inv_start inv_push inv_take inv_complete inv_requeue inv_close inv_take_token
       dest!: next_task_None intro!: inv_promote)

lemma sorted_hd_dropWhile:
  assumes "sorted (map tk_not_before xs)" "t \<in> set (dropWhile (due now) xs)"
  shows "now < tk_not_before t"
  using assms
proof (induction xs)
  case (Cons x xs)
  then show ?case by (cases "due now x") (auto simp: due_def)
qed simp

section \<open>Properties\<close>

text \<open>
  C13: No task is lost and nobody waits for ever on one. In every history, each handle the queue
  handed out is finished, queued or held by a worker; while the queue is open its depth is exactly
  the number of tasks queued or in flight; and once it has been closed nothing is queued, so that
  when the workers have given back what they held every handle is finished.
\<close>

theorem queue_accounts_for_every_task:
  assumes "queue_run workers q flight hs"
  shows "hs = set (wq_done q) \<union> tk_handle ` set_mset (queued q + flight) \<and>
    (\<not> wq_closed q \<longrightarrow> Depth q = int (size (queued q) + size flight)) \<and>
    (wq_closed q \<longrightarrow> queued q = {#} \<and> (flight = {#} \<longrightarrow> hs = set (wq_done q)))"
  using queue_run_inv [OF assms] by (auto simp: queue_inv_def Depth_def)

definition example_task :: "nat \<Rightarrow> gotime \<Rightarrow> task" where
  "example_task h t =
     \<lparr>tk_handle = h, tk_sync = ''s'', tk_event = \<lparr>ev_source = '''', ev_kind = '''', ev_remote_id = '''',
        ev_delivery_id = '''', ev_observed_at = 0, ev_deleted = False, ev_record = None\<rparr>,
      tk_attempts = 0, tk_not_before = t\<rparr>"

lemma example_queue_run:
  "queue_run 1 (snd (push (example_task 2 0) (snd (push (example_task 1 0) (newWorkQueue 1))))) {#} {2, 1}"
  using queue_run.push [OF queue_run.push [OF queue_run.start, of 1 "example_task 1 0"], of "example_task 2 0"]
  by (simp add: example_task_def)

theorem queue_accounts_for_every_task_witness:
  "set (wq_done (queue_close (snd (push (example_task 2 0) (snd (push (example_task 1 0) (newWorkQueue 1))))))) = {2, 1}"
  using queue_accounts_for_every_task [OF queue_run.close [OF example_queue_run]]
  by (simp add: queue_close_def Let_def)

text \<open>
  What is due is served, in order, and nothing is served early. A task is taken from the front
  of the ready tasks, or, when there are none, from the retries whose time has come, the earliest
  first; when nothing is taken, nothing was ready and every retry that waits is for later.
\<close>

theorem next_serves_what_is_due:
  assumes "queue_run workers q flight hs"
  shows "case next_task now q of
      (Some t, q') \<Rightarrow> queued q = add_mset t (queued q') \<and>
        (if wq_ready q \<noteq> [] then t = hd (wq_ready q)
         else tk_not_before t \<le> now \<and> (\<forall>u \<in># queued q. tk_not_before t \<le> tk_not_before u))
    | (None, q') \<Rightarrow> queued q' = queued q \<and> (\<forall>u \<in># queued q. now < tk_not_before u)"
proof -
  have s: "sorted (map tk_not_before (wq_delayed q))" using queue_run_inv [OF assms] by (simp add: queue_inv_def)
  show ?thesis
  proof (cases "next_task now q")
    case (Pair r q')
    show ?thesis
    proof (cases r)
      case None
      with Pair have n: "q' = promote now q" "wq_ready q' = []" by (auto dest: next_task_None)
      then have "wq_ready q = []" "queued q = mset (dropWhile (due now) (wq_delayed q))"
        using promote_queued [of now q] by (auto simp: promote_def queued_def)
      with n Pair None show ?thesis using sorted_hd_dropWhile [OF s] by (auto simp: set_mset_mset)
    next
      case (Some t)
      note n = next_task_Some [OF Pair [unfolded Some]]
      have h: "wq_ready q @ takeWhile (due now) (wq_delayed q) = t # wq_ready q'"
        using n(3) by (simp add: promote_def)
      have "tk_not_before t \<le> now \<and> (\<forall>u \<in># queued q. tk_not_before t \<le> tk_not_before u)" if "wq_ready q = []"
        using that h s by (cases "wq_delayed q") (auto simp: queued_def due_def split: if_splits)
      moreover have "t = hd (wq_ready q)" if "wq_ready q \<noteq> []" using that h by (cases "wq_ready q") auto
      ultimately show ?thesis using Pair Some n(1) by simp
    qed
  qed
qed

theorem next_serves_what_is_due_witness:
  "fst (next_task 5 (snd (push (example_task 2 0) (snd (push (example_task 1 0) (newWorkQueue 1)))))) = Some (example_task 1 0)"
proof -
  let ?q = "snd (push (example_task 2 0) (snd (push (example_task 1 0) (newWorkQueue 1))))"
  have r: "wq_ready ?q = [example_task 1 0, example_task 2 0]"
    by (simp add: push_def newWorkQueue_def)
  show ?thesis
    using next_serves_what_is_due [OF example_queue_run, of 5] r
    by (auto simp: queued_def split: prod.splits option.splits) (auto simp: example_task_def)
qed

text \<open>
  Closing sets the depth to zero although tasks are still with the workers, and giving one back
  afterwards takes the depth below zero.
\<close>

theorem depth_negative_after_close:
  "Depth (complete t (queue_close q)) = -1"
  by (simp add: complete_def queue_close_def Depth_def Let_def)

end
