(* ===== verification/Event_Codec.thy ===== *)
theory Event_Codec
  imports Pipeline
begin

text \<open>
  Reading a dead-lettered event back, as \<^verbatim>\<open>json.Unmarshal\<close> does into the anonymous struct of
  \<^verbatim>\<open>Engine.Replay\<close> and the structs \<^verbatim>\<open>ChangeEvent\<close> and \<^verbatim>\<open>Record\<close> of
  \<^verbatim>\<open>internal/model/record.go\<close>: a field that is missing or null is left at its zero value, a
  value of another type fails, a field the struct does not have is ignored. Times are read from
  RFC 3339 text as \<^verbatim>\<open>Time.UnmarshalJSON\<close> reads it.
\<close>

section \<open>RFC 3339\<close>

definition digit_value :: "char \<Rightarrow> int option" where
  "digit_value c = (if is_digit c then Some (of_char c - of_char (CHR ''0'')) else None)"

fun digits :: "nat \<Rightarrow> int \<Rightarrow> string \<Rightarrow> (int \<times> string) option" where
  "digits 0 acc s = Some (acc, s)"
| "digits (Suc n) acc [] = None"
| "digits (Suc n) acc (c # s) =
     (case digit_value c of None \<Rightarrow> None | Some d \<Rightarrow> digits n (10 * acc + d) s)"

definition expect :: "char \<Rightarrow> string \<Rightarrow> string option" where
  "expect c s = (case s of [] \<Rightarrow> None | x # xs \<Rightarrow> if x = c then Some xs else None)"

definition field_then :: "nat \<Rightarrow> char \<Rightarrow> string \<Rightarrow> (int \<times> string) option" where
  "field_then n c s =
     (case digits n 0 s of
        None \<Rightarrow> None
      | Some (v, r) \<Rightarrow> map_option (\<lambda>r'. (v, r')) (expect c r))"

definition leap :: "int \<Rightarrow> bool" where
  "leap y \<longleftrightarrow> y mod 4 = 0 \<and> (y mod 100 \<noteq> 0 \<or> y mod 400 = 0)"

definition days_in :: "int \<Rightarrow> int \<Rightarrow> int" where
  "days_in y m = (if m = 2 then if leap y then 29 else 28 else if m \<in> {4, 6, 9, 11} then 30 else 31)"

text \<open>Days since 1 January of year 1; the inverse of \<^const>\<open>civil\<close>.\<close>

definition days_before :: "int \<Rightarrow> int \<Rightarrow> int \<Rightarrow> int" where
  "days_before y m d =
     (let y' = (if m \<le> 2 then y - 1 else y); era = y' div 400; yoe = y' mod 400;
          mp = (if m > 2 then m - 3 else m + 9);
          doy = (153 * mp + 2) div 5 + d - 1;
          doe = yoe * 365 + yoe div 4 - yoe div 100 + doy
      in era * 146097 + doe - 306)"

text \<open>The fraction: a point and at least one digit, of which nine count.\<close>

definition parse_fraction :: "string \<Rightarrow> (int \<times> string) option" where
  "parse_fraction s =
     (case s of
        c # r \<Rightarrow>
          if c = CHR ''.'' then
            let ds = takeWhile is_digit r
            in if ds = [] then None
               else map_option (\<lambda>(n, _). (n, drop (length ds) r)) (digits 9 0 (take 9 (ds @ replicate 9 (CHR ''0''))))
          else Some (0, s)
      | [] \<Rightarrow> Some (0, s))"

definition parse_zone :: "string \<Rightarrow> int option" where
  "parse_zone s =
     (case s of
        [] \<Rightarrow> None
      | c # r \<Rightarrow>
          if c = CHR ''Z'' then (if r = [] then Some 0 else None)
          else if c = CHR ''+'' \<or> c = CHR ''-'' then
            (case field_then 2 (CHR '':'') r of
               None \<Rightarrow> None
             | Some (h, r1) \<Rightarrow>
                 (case digits 2 0 r1 of
                    Some (m, []) \<Rightarrow>
                      if h < 24 \<and> m < 60 then Some ((if c = CHR ''-'' then - 1 else 1) * (h * 3600 + m * 60))
                      else None
                  | _ \<Rightarrow> None))
          else None)"

definition parse_clock :: "string \<Rightarrow> (int \<times> int) option" where
  "parse_clock s =
     (case field_then 2 (CHR '':'') s of None \<Rightarrow> None | Some (h, s1) \<Rightarrow>
     (case field_then 2 (CHR '':'') s1 of None \<Rightarrow> None | Some (mi, s2) \<Rightarrow>
     (case digits 2 0 s2 of None \<Rightarrow> None | Some (sec, s3) \<Rightarrow>
     (case parse_fraction s3 of None \<Rightarrow> None | Some (ns, s4) \<Rightarrow>
     (case parse_zone s4 of None \<Rightarrow> None | Some off \<Rightarrow>
        if h < 24 \<and> mi < 60 \<and> sec < 60 then Some (h * 3600 + mi * 60 + sec - off, ns) else None)))))"

definition parse_time :: "string \<Rightarrow> gotime option" where
  "parse_time s =
     (case field_then 4 (CHR ''-'') s of None \<Rightarrow> None | Some (y, s1) \<Rightarrow>
     (case field_then 2 (CHR ''-'') s1 of None \<Rightarrow> None | Some (mo, s2) \<Rightarrow>
     (case field_then 2 (CHR ''T'') s2 of None \<Rightarrow> None | Some (d, s3) \<Rightarrow>
     (case parse_clock s3 of None \<Rightarrow> None | Some (secs, ns) \<Rightarrow>
        if 1 \<le> mo \<and> mo \<le> 12 \<and> 1 \<le> d \<and> d \<le> days_in y mo
        then Some (days_before y mo d * (24 * hour) + secs * second + ns) else None))))"

section \<open>Structs\<close>

abbreviation (input) member :: "string \<Rightarrow> (string \<times> val) list \<Rightarrow> val" where
  "member k kvs \<equiv> (case map_of kvs k of None \<Rightarrow> VNil | Some v \<Rightarrow> v)"

fun str_of :: "val \<Rightarrow> string option" where
  "str_of VNil = Some ''''" | "str_of (VStr s) = Some s" | "str_of _ = None"

fun bool_of :: "val \<Rightarrow> bool option" where
  "bool_of VNil = Some False" | "bool_of (VBool b) = Some b" | "bool_of _ = None"

fun time_of :: "val \<Rightarrow> gotime option" where
  "time_of VNil = Some zero_time" | "time_of (VStr s) = parse_time s" | "time_of _ = None"

fun map_of_val :: "val \<Rightarrow> fields option" where
  "map_of_val VNil = Some []" | "map_of_val (VMap kvs) = Some kvs" | "map_of_val _ = None"

definition decode_record :: "(string \<times> val) list \<Rightarrow> crm_record option" where
  "decode_record kvs =
     (case (str_of (member ''kind'' kvs), str_of (member ''remote_id'' kvs), map_of_val (member ''fields'' kvs),
            time_of (member ''updated_at'' kvs), str_of (member ''version'' kvs)) of
        (Some k, Some i, Some fs, Some t, Some v) \<Rightarrow>
          Some \<lparr>r_kind = k, r_remote_id = i, r_fields = fs, r_updated_at = t, r_version = v\<rparr>
      | _ \<Rightarrow> None)"

definition decode_event :: "(string \<times> val) list \<Rightarrow> change_event option" where
  "decode_event kvs =
     (case (str_of (member ''source'' kvs), str_of (member ''kind'' kvs), str_of (member ''remote_id'' kvs),
            str_of (member ''delivery_id'' kvs), time_of (member ''observed_at'' kvs),
            bool_of (member ''deleted'' kvs),
            (case member ''record'' kvs of
               VNil \<Rightarrow> Some None | VMap r \<Rightarrow> map_option Some (decode_record r) | _ \<Rightarrow> None)) of
        (Some s, Some k, Some i, Some dl, Some t, Some del, Some r) \<Rightarrow>
          Some \<lparr>ev_source = s, ev_kind = k, ev_remote_id = i, ev_delivery_id = dl, ev_observed_at = t,
                ev_deleted = del, ev_record = r\<rparr>
      | _ \<Rightarrow> None)"

definition decode_payload :: "val \<Rightarrow> change_event option" where
  "decode_payload v =
     (case v of
        VNil \<Rightarrow> decode_event []
      | VMap kvs \<Rightarrow>
          (case member ''event'' kvs of VNil \<Rightarrow> decode_event [] | VMap ev \<Rightarrow> decode_event ev | _ \<Rightarrow> None)
      | _ \<Rightarrow> None)"

text \<open>
  An event as it comes back: its record's values are what JSON makes of them. Whether a time is
  read back is decided by \<^const>\<open>parse_time\<close>.
\<close>

definition json_record :: "crm_record \<Rightarrow> crm_record" where
  "json_record r = r\<lparr>r_fields := json_fields (r_fields r)\<rparr>"

definition json_event :: "change_event \<Rightarrow> change_event" where
  "json_event ev = ev\<lparr>ev_record := map_option json_record (ev_record ev)\<rparr>"

definition reads_back :: "gotime \<Rightarrow> bool" where
  "reads_back t \<longleftrightarrow> parse_time (rfc3339nano t) = Some t"

lemma decode_record_val:
  assumes "reads_back (r_updated_at r)"
  shows "\<exists>kvs. json_val (record_val r) = VMap kvs \<and> decode_record kvs = Some (json_record r)"
  using assms
  by (simp add: record_val_def decode_record_def json_record_def reads_back_def json_fields_def
      case_prod_beta)

text \<open>Encoding an event into a dead letter and decoding it gives the event.\<close>

lemma decode_event_val:
  assumes "reads_back (ev_observed_at ev)" "\<And>r. ev_record ev = Some r \<Longrightarrow> reads_back (r_updated_at r)"
  shows "decode_payload (json_val (VMap ((''event'', event_val ev) # rest))) = Some (json_event ev)"
proof -
  have "decode_event kvs = Some (json_event ev)" if "json_val (event_val ev) = VMap kvs" for kvs
  proof (cases "ev_record ev")
    case None
    then show ?thesis using that assms(1)
      by (auto simp: event_val_def decode_event_def json_event_def reads_back_def)
  next
    case (Some r)
    from decode_record_val [OF assms(2) [OF Some]] obtain rv where
      "json_val (record_val r) = VMap rv" "decode_record rv = Some (json_record r)" by blast
    then show ?thesis using that assms(1) Some
      by (auto simp: event_val_def decode_event_def json_event_def reads_back_def)
  qed
  then show ?thesis by (simp add: decode_payload_def event_val_def)
qed

end
