(* ===== verification/Engine_Run.thy ===== *)
theory Engine_Run
  imports Pipeline_Effects Work_Queue Event_Codec
begin

text \<open>
  What drives the pipeline: \<^verbatim>\<open>internal/engine/run.go\<close> (submitting, running and retrying tasks,
  stopping, the dead-letter commands) and \<^verbatim>\<open>Drain\<close>.

  The state \<open>rt\<close> is the engine's with its queue. Handles are numbered in the order they are made.
  \<open>rnd n k\<close> is the \<open>n\<close>-th draw of the seeded generator below the bound \<open>k\<close>.
\<close>

section \<open>Tasks\<close>

record ('s, 'w) rt =
  rt_eng :: "('s, 'w) eng"
  rt_queue :: work_queue
  rt_handles :: nat
  rt_draws :: nat

definition minBackoff :: duration where "minBackoff = 100 * millisecond"
definition baseBackoff :: duration where "baseBackoff = 250 * millisecond"
definition maxBackoff :: duration where "maxBackoff = 30 * second"

definition Submit :: "string \<Rightarrow> change_event \<Rightarrow> ('s, 'w) rt \<Rightarrow> task \<times> ('s, 'w) rt" where
  "Submit syncName ev r =
     (let t = \<lparr>tk_handle = rt_handles r, tk_sync = syncName, tk_event = ev, tk_attempts = 0,
               tk_not_before = zero_time\<rparr>;
          e = rt_eng r;
          e' = e\<lparr>en_stats := (en_stats e)\<lparr>st_ingested := st_ingested (en_stats e) + 1\<rparr>\<rparr>
      in (t, r\<lparr>rt_eng := e', rt_queue := snd (push t (rt_queue r)), rt_handles := rt_handles r + 1\<rparr>))"

text \<open>\<^verbatim>\<open>for i := 1; i < attempts && window < maxBackoff; i++ { window *= 2 }\<close>\<close>

function widen :: "int \<Rightarrow> int \<Rightarrow> duration \<Rightarrow> duration" where
  "widen i attempts window =
     (if i < attempts \<and> window < maxBackoff then widen (i + 1) attempts (2 * window) else window)"
  by pat_completeness auto
termination by (relation "measure (\<lambda>(i, attempts, _). nat (attempts - i))") auto

declare widen.simps [simp del]

definition backoff_window :: "int \<Rightarrow> duration" where
  "backoff_window attempts =
     (let window = widen 1 attempts baseBackoff in if window > maxBackoff then maxBackoff else window)"

definition backoff :: "(nat \<Rightarrow> int \<Rightarrow> int) \<Rightarrow> nat \<Rightarrow> int \<Rightarrow> duration \<Rightarrow> duration" where
  "backoff rnd draw attempts hint =
     (let jittered0 = rnd draw (backoff_window attempts + 1);
          jittered = (if jittered0 < minBackoff then minBackoff else jittered0)
      in if hint > jittered then hint else jittered)"

definition runTask ::
  "('s, 'w) env \<Rightarrow> (nat \<Rightarrow> int \<Rightarrow> int) \<Rightarrow> task \<Rightarrow> ('s, 'w) rt \<Rightarrow> ('s, 'w) rt" where
  "runTask env rnd t r =
     (case process env (tk_sync t) (tk_event t) (rt_eng r) of
        (Inr outcome, e) \<Rightarrow> r\<lparr>rt_eng := e, rt_queue := complete t (rt_queue r)\<rparr>
      | (Inl err, e) \<Rightarrow>
          if pe_cancelled env then r\<lparr>rt_eng := e, rt_queue := complete t (rt_queue r)\<rparr>
          else
            let t1 = t\<lparr>tk_attempts := tk_attempts t + 1\<rparr>
            in if retryable err \<and> tk_attempts t1 < pe_max_attempts env then
                 let t2 = t1\<lparr>tk_not_before := en_now e + backoff rnd (rt_draws r) (tk_attempts t1) (RetryAfterOf err)\<rparr>;
                     e' = e\<lparr>en_stats := (en_stats e)\<lparr>st_retried := st_retried (en_stats e) + 1\<rparr>\<rparr>
                 in r\<lparr>rt_eng := e', rt_queue := requeue t2 (rt_queue r), rt_draws := rt_draws r + 1\<rparr>
               else
                 r\<lparr>rt_eng := snd (deadLetter env (map_of (pe_syncs env) (tk_sync t)) (tk_event t) (tk_attempts t1) err e),
                   rt_queue := complete t1 (rt_queue r)\<rparr>)"

section \<open>Draining\<close>

text \<open>
  Every run of a task either ends it or uses up one of its attempts, so draining ends: the
  attempts still left over all queued tasks are a measure.
\<close>

definition attempts_left :: "int \<Rightarrow> work_queue \<Rightarrow> nat" where
  "attempts_left limit q = (\<Sum>t \<in># queued q. Suc (nat (limit - tk_attempts t)))"

lemma attempts_left_next:
  "next_task now q = (Some t, q') \<Longrightarrow>
   attempts_left limit q = Suc (nat (limit - tk_attempts t)) + attempts_left limit q'"
  by (simp add: attempts_left_def next_task_Some(1))

lemma queued_complete [simp]: "queued (complete t q) = queued q"
  by (simp add: complete_def Let_def queued_def)

lemma queued_requeue: "queued (requeue t q) = (if wq_closed q then queued q else add_mset t (queued q))"
  by (simp add: requeue_def) (simp add: queued_def)

lemma runTask_attempts:
  "attempts_left (pe_max_attempts env) (rt_queue (runTask env rnd t r)) <
   Suc (nat (pe_max_attempts env - tk_attempts t)) + attempts_left (pe_max_attempts env) (rt_queue r)"
proof (cases "process env (tk_sync t) (tk_event t) (rt_eng r)")
  case (Pair x e)
  show ?thesis
  proof (cases x)
    case (Inl err)
    then show ?thesis
      by (auto simp: runTask_def Pair Let_def attempts_left_def queued_requeue)
  next
    case (Inr outcome)
    then show ?thesis by (simp add: runTask_def Pair attempts_left_def)
  qed
qed

function Drain :: "('s, 'w) env \<Rightarrow> (nat \<Rightarrow> int \<Rightarrow> int) \<Rightarrow> ('s, 'w) rt \<Rightarrow> ('s, 'w) rt" where
  "Drain env rnd r =
     (if pe_cancelled env then r
      else case next_task (en_now (rt_eng r)) (rt_queue r) of
             (None, q) \<Rightarrow> r\<lparr>rt_queue := q\<rparr>
           | (Some t, q) \<Rightarrow> Drain env rnd (runTask env rnd t (r\<lparr>rt_queue := q\<rparr>)))"
  by pat_completeness auto
termination
  by (relation "measure (\<lambda>(env, rnd, r). attempts_left (pe_max_attempts env) (rt_queue r))")
     (auto dest!: sym [of _ "next_task _ _"] simp: attempts_left_next intro!: runTask_attempts [THEN less_le_trans])

declare Drain.simps [simp del]

section \<open>Stopping and the queues a person works on\<close>

definition on_eng :: "(('s, 'w) eng, gerr, 'a) st \<Rightarrow> (('s, 'w) rt, gerr, 'a) st" where
  "on_eng m r = (case m (rt_eng r) of (x, e) \<Rightarrow> (x, r\<lparr>rt_eng := e\<rparr>))"

definition Stop :: "('s, 'w) rt \<Rightarrow> ('s, 'w) rt" where
  "Stop r = r\<lparr>rt_queue := queue_close (rt_queue r)\<rparr>"

definition QueueDepth :: "('s, 'w) rt \<Rightarrow> int" where
  "QueueDepth r = Depth (rt_queue r)"

definition engine_Sweep :: "('s, 'w) env \<Rightarrow> (('s, 'w) eng, gerr, int) st" where
  "engine_Sweep env = on_origin env (\<lambda>ops now. Sweep ops now)"

definition DeadLetters :: "('s, 'w) env \<Rightarrow> int \<Rightarrow> (('s, 'w) eng, gerr, queue_item list) st" where
  "DeadLetters env limit = on_store env (\<lambda>ops now. ListQueueItems ops now CollDLQ limit)"

definition Reviews :: "('s, 'w) env \<Rightarrow> int \<Rightarrow> (('s, 'w) eng, gerr, queue_item list) st" where
  "Reviews env limit = on_store env (\<lambda>ops now. ListQueueItems ops now CollReview limit)"

definition Discard :: "('s, 'w) env \<Rightarrow> string \<Rightarrow> string \<Rightarrow> (('s, 'w) eng, gerr, unit) st" where
  "Discard env collection rid = on_store env (\<lambda>ops now. DeleteQueueItem ops now collection rid)"

definition Replay :: "('s, 'w) env \<Rightarrow> string \<Rightarrow> (('s, 'w) rt, gerr, unit) st" where
  "Replay env rid =
     andThen (on_eng (on_store env (\<lambda>ops now. GetQueueItem ops now CollDLQ rid))) (\<lambda>found.
       case found of
         None \<Rightarrow> throw (ErrText (''engine: no dead-lettered item '' @ quoted rid))
       | Some item \<Rightarrow>
           (case decode_payload (q_payload item) of
              None \<Rightarrow> throw (ErrText ''engine: decode dead-lettered event'')
            | Some ev \<Rightarrow>
                if map_of (pe_syncs env) (q_sync item) = None
                then throw (ErrText (''engine: item '' @ quoted rid @ '' belongs to sync '' @ quoted (q_sync item)
                                      @ '', which is no longer configured''))
                else (\<lambda>r. on_eng (on_store env (\<lambda>ops now. DeleteQueueItem ops now CollDLQ rid))
                            (snd (Submit (q_sync item) ev r)))))"

definition engine_Watermark :: "('s, 'w) env \<Rightarrow> string \<Rightarrow> string \<Rightarrow> (('s, 'w) eng, gerr, gotime option) st" where
  "engine_Watermark env connectorName kind = on_store env (\<lambda>ops now. Mark ops now connectorName kind)"

definition engine_Link :: "('s, 'w) env \<Rightarrow> ref \<Rightarrow> (('s, 'w) eng, gerr, link option) st" where
  "engine_Link env r = on_store env (\<lambda>ops now. GetLink ops now r)"

section \<open>Back-off\<close>

lemma widen_le: "0 \<le> window \<Longrightarrow> window \<le> widen i attempts window"
  by (induction i attempts window rule: widen.induct) (subst widen.simps, auto)

lemma backoff_window_bounds: "minBackoff < backoff_window attempts" "backoff_window attempts \<le> maxBackoff"
  using widen_le [of baseBackoff 1 attempts]
  by (simp_all add: backoff_window_def Let_def minBackoff_def baseBackoff_def maxBackoff_def)

lemma backoff_bounds:
  assumes "rnd n (backoff_window attempts + 1) \<le> backoff_window attempts"
  shows "minBackoff \<le> backoff rnd n attempts hint" "hint \<le> backoff rnd n attempts hint"
    "backoff rnd n attempts hint \<le> max maxBackoff hint"
  using assms backoff_window_bounds [of attempts] by (auto simp: backoff_def Let_def)

section \<open>The queue under tasks\<close>

lemma runTask_queue_run:
  assumes "queue_run workers (rt_queue r) (add_mset t flight) hs"
  shows "queue_run workers (rt_queue (runTask env rnd t r)) flight hs"
proof (cases "process env (tk_sync t) (tk_event t) (rt_eng r)")
  case (Pair x e)
  have c: "queue_run workers (complete t' (rt_queue r)) flight hs" if "tk_handle t' = tk_handle t" for t'
  proof -
    have "complete t' (rt_queue r) = complete t (rt_queue r)" using that by (simp add: complete_def finish_def)
    with queue_run.complete [OF assms] show ?thesis by simp
  qed
  show ?thesis using c queue_run.requeue [OF assms]
    by (cases x) (simp_all add: runTask_def Pair Let_def)
qed

lemma runTask_closed [simp]: "wq_closed (rt_queue (runTask env rnd t r)) = wq_closed (rt_queue r)"
  by (simp add: runTask_def complete_def requeue_def Let_def split: prod.split sum.split)

lemma next_task_closed: "next_task now q = (x, q') \<Longrightarrow> wq_closed q' = wq_closed q"
  by (auto simp: next_task_def Let_def split: list.splits)

lemma Drain_queue_run:
  "queue_run workers (rt_queue r) flight hs \<Longrightarrow> queue_run workers (rt_queue (Drain env rnd r)) flight hs"
proof (induction env rnd r rule: Drain.induct)
  case (1 env rnd r)
  show ?case
  proof (cases "pe_cancelled env")
    case True
    with 1(2) show ?thesis by (simp add: Drain.simps)
  next
    case False
    obtain x q where n: "next_task (en_now (rt_eng r)) (rt_queue r) = (x, q)" by fastforce
    show ?thesis
    proof (cases x)
      case None
      with n have "Drain env rnd r = r\<lparr>rt_queue := q\<rparr>" using False by (subst Drain.simps) simp
      then show ?thesis using queue_run.take_none [OF 1(2) n [unfolded None]] by simp
    next
      case (Some t)
      with n have "Drain env rnd r = Drain env rnd (runTask env rnd t (r\<lparr>rt_queue := q\<rparr>))"
        using False by (subst Drain.simps) simp
      moreover have "queue_run workers (rt_queue (runTask env rnd t (r\<lparr>rt_queue := q\<rparr>))) flight hs"
        using queue_run.take_some [OF 1(2) n [unfolded Some]] by (intro runTask_queue_run) simp
      ultimately show ?thesis using 1(1) [OF False n [symmetric] Some] by simp
    qed
  qed
qed

lemma Drain_closed [simp]: "wq_closed (rt_queue (Drain env rnd r)) = wq_closed (rt_queue r)"
proof (induction env rnd r rule: Drain.induct)
  case (1 env rnd r)
  show ?case
    by (subst Drain.simps) (auto simp: 1 dest: next_task_closed split: prod.split option.split)
qed

lemma takeWhile_dropWhile_Nil: "takeWhile P (dropWhile P xs) = []"
  by (induction xs) auto

lemma Drain_exhausts:
  "\<not> pe_cancelled env \<Longrightarrow>
   fst (next_task (en_now (rt_eng (Drain env rnd r))) (rt_queue (Drain env rnd r))) = None"
proof (induction env rnd r rule: Drain.induct)
  case (1 env rnd r)
  obtain x q where n: "next_task (en_now (rt_eng r)) (rt_queue r) = (x, q)" by fastforce
  show ?case
  proof (cases x)
    case None
    then have "Drain env rnd r = r\<lparr>rt_queue := q\<rparr>" using n 1(2) by (subst Drain.simps) simp
    moreover from next_task_None [OF n [unfolded None]] have "q = promote (en_now (rt_eng r)) (rt_queue r)" "wq_ready q = []"
      by auto
    then have "promote (en_now (rt_eng r)) q = q" by (simp add: promote_def takeWhile_dropWhile_Nil)
    ultimately show ?thesis using \<open>wq_ready q = []\<close> by (simp add: next_task_def)
  next
    case (Some t)
    with n have "Drain env rnd r = Drain env rnd (runTask env rnd t (r\<lparr>rt_queue := q\<rparr>))"
      using 1(2) by (subst Drain.simps) simp
    then show ?thesis using 1(1) [OF _ n [symmetric] Some] 1(2) by simp
  qed
qed

section \<open>A worker\<close>

text \<open>
  One goroutine of the pool, with nobody else working and nothing new arriving, until it has
  nothing left to wait for: its last state is the one in which it idles. \<^verbatim>\<open>Stop\<close> closes the
  queue together with \<^verbatim>\<open>stopped\<close>. A token in \<^verbatim>\<open>wake\<close> is there at once, the timer
  only after the wait, so the token is taken first.
\<close>

definition not_yet :: "gotime \<Rightarrow> work_queue \<Rightarrow> nat" where
  "not_yet now q = (case wq_delayed q of [] \<Rightarrow> 0 | t # _ \<Rightarrow> if due now t then 0 else 1)"

lemma next_None_waits:
  assumes "next_task now q0 = (None, q)" "nextDeadline q = Some d"
  shows "now < d" "not_yet d q = 0" "not_yet now q0 = 1"
proof -
  from next_task_None [OF assms(1)] have q: "q = promote now q0" "wq_ready q = []" by auto
  from assms(2) obtain t ts where t: "wq_delayed q = t # ts" "d = tk_not_before t"
    by (auto simp: nextDeadline_def split: list.splits)
  have "takeWhile (due now) (wq_delayed q0) = []" using q by (simp add: promote_def)
  then have d: "wq_delayed q0 = wq_delayed q" "\<not> due now t"
    using q t(1) hd_dropWhile [of "due now" "wq_delayed q0"] takeWhile_dropWhile_id [of "due now" "wq_delayed q0"]
    by (auto simp: promote_def)
  with t show "now < d" "not_yet d q = 0" "not_yet now q0 = 1"
    by (simp_all add: not_yet_def due_def)
qed

function worker :: "('s, 'w) env \<Rightarrow> (nat \<Rightarrow> int \<Rightarrow> int) \<Rightarrow> ('s, 'w) rt \<Rightarrow> ('s, 'w) rt" where
  "worker env rnd r =
     (if pe_cancelled env \<or> wq_closed (rt_queue r) then r
      else case next_task (en_now (rt_eng r)) (rt_queue r) of
             (Some t, q) \<Rightarrow> worker env rnd (runTask env rnd t (r\<lparr>rt_queue := q\<rparr>))
           | (None, q) \<Rightarrow>
               if 0 < wq_wake q then worker env rnd (r\<lparr>rt_queue := take_wake q\<rparr>)
               else (case nextDeadline q of
                       None \<Rightarrow> r\<lparr>rt_queue := q\<rparr>
                     | Some d \<Rightarrow>
                         worker env rnd (r\<lparr>rt_queue := q,
                           rt_eng := (rt_eng r)\<lparr>en_now := en_now (rt_eng r) + max 0 (d - en_now (rt_eng r))\<rparr>\<rparr>)))"
  by pat_completeness auto
termination
proof (relation "measures [\<lambda>(env, rnd, r). attempts_left (pe_max_attempts env) (rt_queue r),
    \<lambda>(env, rnd, r). wq_wake (rt_queue r),
    \<lambda>(env, rnd, r). not_yet (en_now (rt_eng r)) (rt_queue r)]", goal_cases)
  case 1
  show ?case by simp
next
  case (2 env rnd r x q)
  then have "q = promote (en_now (rt_eng r)) (rt_queue r)" by (auto dest: next_task_None [OF sym])
  with 2 show ?case by (simp add: attempts_left_def)
next
  case (3 env rnd r x q d)
  then have n: "next_task (en_now (rt_eng r)) (rt_queue r) = (None, q)" by simp
  with 3 next_None_waits [OF n] next_task_None [OF n] show ?case by (simp add: attempts_left_def)
next
  case (4 env rnd r x q t)
  then have n: "next_task (en_now (rt_eng r)) (rt_queue r) = (Some t, q)" by simp
  show ?case
    using runTask_attempts [of env rnd t "r\<lparr>rt_queue := q\<rparr>"] by (simp add: attempts_left_next [OF n])
qed

declare worker.simps [simp del]

lemma take_wake_closed [simp]: "wq_closed (take_wake q) = wq_closed q"
  by (simp add: take_wake_def)

lemma worker_queue_run:
  "queue_run workers (rt_queue r) flight hs \<Longrightarrow> queue_run workers (rt_queue (worker env rnd r)) flight hs"
proof (induction env rnd r rule: worker.induct)
  case (1 env rnd r)
  note IH = 1(1-3) and run = 1(4)
  obtain x q where n: "next_task (en_now (rt_eng r)) (rt_queue r) = (x, q)" by fastforce
  show ?case
  proof (cases "pe_cancelled env \<or> wq_closed (rt_queue r)")
    case True
    with run show ?thesis by (simp add: worker.simps)
  next
    case False
    show ?thesis
    proof (cases x)
      case None
      then have q: "queue_run workers q flight hs" using queue_run.take_none [OF run] n by simp
      then have w: "0 < wq_wake q \<Longrightarrow> queue_run workers (take_wake q) flight hs" by (rule queue_run.woken)
      show ?thesis
        using IH(1) [OF False n [symmetric] None] IH(2) [OF False n [symmetric] None] q w
        by (subst worker.simps) (simp add: False n None split: option.split)
    next
      case (Some t)
      have "queue_run workers (rt_queue (runTask env rnd t (r\<lparr>rt_queue := q\<rparr>))) flight hs"
        using queue_run.take_some [OF run n [unfolded Some]] by (intro runTask_queue_run) simp
      with IH(3) [OF False n [symmetric] Some] show ?thesis
        by (subst worker.simps) (simp add: False n Some)
    qed
  qed
qed

lemma worker_closed [simp]: "wq_closed (rt_queue (worker env rnd r)) = wq_closed (rt_queue r)"
proof (induction env rnd r rule: worker.induct)
  case (1 env rnd r)
  show ?case
    by (subst worker.simps)
       (auto simp: 1 dest: next_task_closed split: prod.split option.split)
qed

lemma worker_idle:
  "\<not> pe_cancelled env \<Longrightarrow> \<not> wq_closed (rt_queue r) \<Longrightarrow> queued (rt_queue (worker env rnd r)) = {#}"
proof (induction env rnd r rule: worker.induct)
  case (1 env rnd r)
  note IH = 1(1-3) and live = 1(4,5)
  have live': "\<not> (pe_cancelled env \<or> wq_closed (rt_queue r))" using live by simp
  obtain x q where n: "next_task (en_now (rt_eng r)) (rt_queue r) = (x, q)" by fastforce
  have c: "wq_closed q = wq_closed (rt_queue r)" by (rule next_task_closed [OF n])
  show ?case
  proof (cases x)
    case None
    have e: "nextDeadline q = None \<Longrightarrow> queued q = {#}"
      using next_task_None [OF n [unfolded None]] by (auto simp: nextDeadline_def queued_def split: list.splits)

    show ?thesis
      using IH(1) [OF live' n [symmetric] None] IH(2) [OF live' n [symmetric] None] e
      by (subst worker.simps) (simp add: live n None c split: option.split)
  next
    case (Some t)
    with IH(3) [OF live' n [symmetric] Some] show ?thesis
      by (subst worker.simps) (simp add: live n c)
  qed
qed

lemma queue_run_handles: "queue_run workers q flight hs \<Longrightarrow> hs = set (wq_done q) \<union> tk_handle ` set_mset (queued q + flight)"
  and queue_run_depth: "queue_run workers q flight hs \<Longrightarrow> \<not> wq_closed q \<Longrightarrow> wq_depth q = int (size (queued q) + size flight)"
  and queue_run_sorted: "queue_run workers q flight hs \<Longrightarrow> sorted (map tk_not_before (wq_delayed q))"
  by (auto dest!: queue_run_inv simp: queue_inv_def)

lemma next_None_queued:
  assumes "next_task now q = (None, q')"
  shows "queued q = mset (dropWhile (due now) (wq_delayed q))"
proof -
  from next_task_None [OF assms] have "wq_ready q = []" "takeWhile (due now) (wq_delayed q) = []"
    by (auto simp: promote_def)
  then show ?thesis using takeWhile_dropWhile_id [of "due now" "wq_delayed q"] by (simp add: queued_def)
qed

section \<open>Dead letters\<close>

definition dead_payload :: "change_event \<Rightarrow> gerr \<Rightarrow> val" where
  "dead_payload ev cause =
     VMap [(''event'', event_val ev), (''error'', VStr (err_text cause)),
           (''kind'', VStr (kind_string (KindOf (Some cause))))]"

context doc_store
begin

lemma deadLetter_ok:
  fixes env :: "('s, 'w) env"
  assumes env: "pe_store env = ops" and g: "good (en_store e)" and j: "json_time (en_now e)" "json_ok (event_val ev)"
  defines "rid \<equiv> NewQueueID (en_now e) (en_seq e + 1)"
  obtains e' q where "deadLetter env s ev n cause e = (Inr (), e')" "good (en_store e')" "en_world e' = en_world e"
    "en_now e' = en_now e" "only_at {(CollDLQ, rid)} (en_store e) (en_store e')"
    "\<And>t. view (en_store e') t CollDLQ rid = Some (DocQueue q)" "q_payload q = json_val (dead_payload ev cause)"
    "q_sync q = (case s of None \<Rightarrow> '''' | Some x \<Rightarrow> sy_name x)" "q_attempts q = n" "q_reason q = err_text cause"
proof -
  let ?item = "\<lparr>q_id = rid, q_sync = (case s of None \<Rightarrow> '''' | Some x \<Rightarrow> sy_name x),
      q_ref = \<lparr>ref_connector = ev_source ev, ref_kind = ev_kind ev, ref_remote_id = ev_remote_id ev\<rparr>,
      q_reason = err_text cause, q_created_at = en_now e, q_attempts = n, q_payload = dead_payload ev cause\<rparr>"
  have p: "json_ok (dead_payload ev cause)" using j(2) by (simp add: dead_payload_def)
  have m: "marshals (DocQueue ?item)" "fits CollDLQ (DocQueue ?item)" using p j(1) by (simp_all add: fits_def)
  obtain c where c: "put_doc ops ''store: encode queue item'' (en_now e) CollDLQ rid (DocQueue ?item) 0
      (en_store e) = (Inr (), c)" "good c" "only_at {(CollDLQ, rid)} (en_store e) c"
    "\<And>t. view c t CollDLQ rid = Some (stored (DocQueue ?item))"
    by (rule put_doc_ok [OF g coll_name_simps(7) m, of "''store: encode queue item''" "en_now e" rid 0]) auto
  let ?e = "e\<lparr>en_seq := en_seq e + 1, en_store := c,
    en_stats := (en_stats e)\<lparr>st_dead_lettered := st_dead_lettered (en_stats e) + 1\<rparr>\<rparr>"
  have "deadLetter env s ev n cause e = (Inr (), ?e)"
    using c(1) p by (simp add: deadLetter_def dead_payload_def [symmetric] enqueueItem_def Let_def andThen_def
        on_store_eq [OF env] PutQueueItem_def bump_def rid_def)
  then show thesis using c by (intro that [of ?e "?item\<lparr>q_payload := json_val (dead_payload ev cause)\<rparr>"]) simp_all
qed

lemma Replay_ok:
  fixes env :: "('s, 'w) env"
  assumes env: "pe_store env = ops" and g: "good (en_store (rt_eng r))"
    and q: "view (en_store (rt_eng r)) (en_now (rt_eng r)) CollDLQ rid = Some (DocQueue q)"
    and d: "decode_payload (q_payload q) = Some ev" and s: "map_of (pe_syncs env) (q_sync q) \<noteq> None"
  obtains r' where "Replay env rid r = (Inr (), r')" "rt_queue r' = rt_queue (snd (Submit (q_sync q) ev r))"
    "good (en_store (rt_eng r'))" "only_at {(CollDLQ, rid)} (en_store (rt_eng r)) (en_store (rt_eng r'))"
    "\<And>t. view (en_store (rt_eng r')) t CollDLQ rid = None" "en_world (rt_eng r') = en_world (rt_eng r)"
proof -
  let ?r = "snd (Submit (q_sync q) ev r)"
  have e: "en_store (rt_eng ?r) = en_store (rt_eng r)" "en_now (rt_eng ?r) = en_now (rt_eng r)"
    "en_world (rt_eng ?r) = en_world (rt_eng r)"
    by (simp_all add: Submit_def Let_def)
  have "GetQueueItem ops (en_now (rt_eng r)) CollDLQ rid (en_store (rt_eng r)) = (Inr (Some q), en_store (rt_eng r))"
    unfolding GetQueueItem_def get_decode [OF g] by (simp add: q)
  then have get: "on_eng (on_store env (\<lambda>ops now. GetQueueItem ops now CollDLQ rid)) r = (Inr (Some q), r)"
    by (simp add: on_eng_def on_store_eq [OF env])
  obtain c where c: "so_delete ops (en_now (rt_eng r)) CollDLQ rid (en_store (rt_eng r)) = (Inr (), c)" "good c"
    "only_at {(CollDLQ, rid)} (en_store (rt_eng r)) c" "\<And>t. view c t CollDLQ rid = None"
    by (rule delete_ok [OF g coll_name_simps(7), of "en_now (rt_eng r)" rid]) blast
  let ?r' = "?r\<lparr>rt_eng := (rt_eng ?r)\<lparr>en_store := c\<rparr>\<rparr>"
  have "Replay env rid r = (Inr (), ?r')"
    using d s c(1) get by (auto simp: Replay_def andThen_def on_eng_def on_store_eq [OF env] DeleteQueueItem_def e)
  then show thesis using c e by (intro that [of ?r']) simp_all
qed

end

section \<open>Properties\<close>

text \<open>
  C21: Draining ends, and only when nothing is due. After it every task still queued waits for a
  later time, every handle is finished or belongs to such a task, and the depth of an open queue is
  the number of them.
\<close>

theorem drain_finishes:
  assumes "queue_run workers (rt_queue r) {#} hs" and "\<not> pe_cancelled env"
  shows "let r' = Drain env rnd r; q = rt_queue r'
    in (\<forall>t \<in># queued q. en_now (rt_eng r') < tk_not_before t) \<and>
       hs = set (wq_done q) \<union> tk_handle ` set_mset (queued q) \<and>
       (\<not> wq_closed (rt_queue r) \<longrightarrow> QueueDepth r' = int (size (queued q)))"
proof -
  let ?r = "Drain env rnd r"
  let ?q = "rt_queue ?r" and ?now = "en_now (rt_eng ?r)"
  have run: "queue_run workers ?q {#} hs" by (rule Drain_queue_run [OF assms(1)])
  from Drain_exhausts [OF assms(2), of rnd r] obtain q' where "next_task ?now ?q = (None, q')"
    by (metis prod.collapse)
  then have "queued ?q = mset (dropWhile (due ?now) (wq_delayed ?q))" by (rule next_None_queued)
  then have "\<forall>t \<in># queued ?q. ?now < tk_not_before t"
    using sorted_hd_dropWhile [OF queue_run_sorted [OF run]] by auto
  with queue_run_handles [OF run] queue_run_depth [OF run] show ?thesis
    by (simp add: Let_def QueueDepth_def Depth_def)
qed

definition example_rt :: "(doc mem, (string \<times> string) list) rt" where
  "example_rt =
     \<lparr>rt_eng = example_eng None, rt_queue = snd (push (example_task 1 0) (newWorkQueue 1)), rt_handles = 2,
      rt_draws = 0\<rparr>"

lemma example_rt_run: "queue_run 1 (rt_queue example_rt) {#} {1}"
  using queue_run.push [OF queue_run.start, of 1 "example_task 1 0"] by (simp add: example_rt_def example_task_def)

lemma example_rt_open: "\<not> wq_closed (rt_queue example_rt)"
  by (simp add: example_rt_def push_def newWorkQueue_def)

theorem drain_finishes_witness:
  "let r' = Drain (example_env ''bidirectional'') (\<lambda>_ _. 0) example_rt; q = rt_queue r'
   in {1} = set (wq_done q) \<union> tk_handle ` set_mset (queued q) \<and> QueueDepth r' = int (size (queued q))"
proof -
  have "\<not> pe_cancelled (example_env ''bidirectional'')" by (simp add: example_env_def)
  from drain_finishes [OF example_rt_run this] show ?thesis using example_rt_open by (simp add: Let_def)
qed

text \<open>
  C9: Every change that was accepted comes to an end. A worker that runs while the context lives
  reaches a state in which the queue is empty and every handle handed out is finished, whatever the
  peers answer: each failure costs the task one of its attempts.
\<close>

theorem worker_finishes_everything:
  assumes "queue_run workers (rt_queue r) {#} hs" and "\<not> pe_cancelled env" and "\<not> wq_closed (rt_queue r)"
  shows "let q = rt_queue (worker env rnd r)
    in queued q = {#} \<and> hs = set (wq_done q) \<and> Depth q = 0"
proof -
  have run: "queue_run workers (rt_queue (worker env rnd r)) {#} hs" by (rule worker_queue_run [OF assms(1)])
  show ?thesis
    using worker_idle [OF assms(2,3), of rnd] queue_run_handles [OF run] queue_run_depth [OF run] assms(3)
    by (simp add: Let_def Depth_def)
qed




theorem worker_finishes_everything_witness:
  "set (wq_done (rt_queue (worker (example_env ''bidirectional'') (\<lambda>_ _. 0) example_rt))) = {1}"
proof -
  have "\<not> pe_cancelled (example_env ''bidirectional'')" by (simp add: example_env_def)
  from worker_finishes_everything [OF example_rt_run this example_rt_open] show ?thesis by (simp add: Let_def)
qed




lemma example_task_fails:
  "process (example_env ''bidirectional'') (tk_sync (example_task 1 0)) (tk_event (example_task 1 0)) (rt_eng example_rt) =
     (Inl (ErrPermanent (ErrText (''no sync named '' @ quoted ''s''))), example_eng None)"
  by (simp add: process_def example_env_def example_task_def example_rt_def)


text \<open>
  C20: A dead letter can be replayed. What the dead-letter queue keeps of an event is enough to put
  the same event back on the queue of the same sync, with a fresh attempt count: the record's
  values come back as JSON returns them. Replaying removes the row and touches no other.
\<close>

theorem dead_letter_replays:
  assumes "pe_store env = mem_ops" and "mem_docs.good (en_store e)" and "json_time (en_now e)"
    and "json_ok (event_val ev)" and "reads_back (ev_observed_at ev)"
    and "\<forall>rec. ev_record ev = Some rec \<longrightarrow> reads_back (r_updated_at rec)"
    and "map_of (pe_syncs env) (sy_name s) = Some s" and "\<not> wq_closed q"
  shows "let rid = NewQueueID (en_now e) (en_seq e + 1)
    in \<exists>e' r'. deadLetter env (Some s) ev n err e = (Inr (), e') \<and>
    Replay env rid \<lparr>rt_eng = e', rt_queue = q, rt_handles = h, rt_draws = k\<rparr> = (Inr (), r') \<and>
    queued (rt_queue r') = add_mset \<lparr>tk_handle = h, tk_sync = sy_name s, tk_event = json_event ev,
      tk_attempts = 0, tk_not_before = zero_time\<rparr> (queued q) \<and>
    (\<forall>t. mem_view (en_store (rt_eng r')) t CollDLQ rid = None) \<and>
    mem_docs.only_at {(CollDLQ, rid)} (en_store e) (en_store (rt_eng r')) \<and>
    en_world (rt_eng r') = en_world e"
proof -
  let ?rid = "NewQueueID (en_now e) (en_seq e + 1)"
  obtain e' item where e': "deadLetter env (Some s) ev n err e = (Inr (), e')" "mem_docs.good (en_store e')"
    "en_world e' = en_world e" "mem_docs.only_at {(CollDLQ, ?rid)} (en_store e) (en_store e')"
    "\<And>t. mem_view (en_store e') t CollDLQ ?rid = Some (DocQueue item)"
    "q_payload item = json_val (dead_payload ev err)" "q_sync item = sy_name s"
    by (rule mem_docs.deadLetter_ok [OF assms(1-4), of "Some s" n err]) auto
  let ?r = "\<lparr>rt_eng = e', rt_queue = q, rt_handles = h, rt_draws = k\<rparr>"
  have d: "decode_payload (q_payload item) = Some (json_event ev)"
    unfolding e'(6) dead_payload_def using assms(5,6) by (intro decode_event_val) simp_all
  have v: "mem_view (en_store (rt_eng ?r)) (en_now (rt_eng ?r)) CollDLQ ?rid = Some (DocQueue item)"
    "mem_docs.good (en_store (rt_eng ?r))" "map_of (pe_syncs env) (q_sync item) \<noteq> None"
    using e' assms(7) by simp_all
  obtain r' where r': "Replay env ?rid ?r = (Inr (), r')" "rt_queue r' = rt_queue (snd (Submit (q_sync item) (json_event ev) ?r))"
    "mem_docs.only_at {(CollDLQ, ?rid)} (en_store e') (en_store (rt_eng r'))"
    "\<And>t. mem_view (en_store (rt_eng r')) t CollDLQ ?rid = None" "en_world (rt_eng r') = en_world e'"
    by (rule mem_docs.Replay_ok [OF assms(1) v(2,1) d v(3)]) auto
  have "mem_docs.only_at {(CollDLQ, ?rid)} (en_store e) (en_store (rt_eng r'))"
    using e'(4) r'(3) by (simp add: mem_docs.only_at_def)
  moreover have "queued (rt_queue r') = add_mset \<lparr>tk_handle = h, tk_sync = sy_name s, tk_event = json_event ev,
      tk_attempts = 0, tk_not_before = zero_time\<rparr> (queued q)"
    using assms(8) by (simp add: r'(2) Submit_def Let_def push_def e'(7)) (simp add: queued_def)
  ultimately show ?thesis
    unfolding Let_def using e'(1,3) r'(1,4,5) by (intro exI [of _ e'] exI [of _ r']) simp
qed

theorem dead_letter_replays_witness:
  "\<exists>e' r' rid. deadLetter (example_env ''bidirectional'') (Some (example_sync ''bidirectional''))
       (example_event ''hub'' False) 5 ErrRecheck (example_eng None) = (Inr (), e') \<and>
     Replay (example_env ''bidirectional'') rid \<lparr>rt_eng = e', rt_queue = newWorkQueue 1, rt_handles = 0, rt_draws = 0\<rparr> = (Inr (), r') \<and>
     size (queued (rt_queue r')) = 1"
proof -
  have a: "pe_store (example_env ''bidirectional'') = mem_ops" "mem_docs.good (en_store (example_eng None))"
    "map_of (pe_syncs (example_env ''bidirectional'')) (sy_name (example_sync ''bidirectional'')) = Some (example_sync ''bidirectional'')"
    "\<not> wq_closed (newWorkQueue 1)"
    by (simp_all add: example_env_def example_eng_def example_sync_def newWorkQueue_def)
  have j: "json_time (en_now (example_eng None))" "json_ok (event_val (example_event ''hub'' False))"
    "reads_back (ev_observed_at (example_event ''hub'' False))" by code_simp+
  have r: "\<forall>rec. ev_record (example_event ''hub'' False) = Some rec \<longrightarrow> reads_back (r_updated_at rec)"
    using j(3) by (auto simp: example_event_def)
  from dead_letter_replays [OF a(1,2) j r a(3,4), of 5 ErrRecheck 0 0, unfolded Let_def] obtain e' r' where
    e': "deadLetter (example_env ''bidirectional'') (Some (example_sync ''bidirectional'')) (example_event ''hub'' False) 5
       ErrRecheck (example_eng None) = (Inr (), e')"
    and r': "Replay (example_env ''bidirectional'') (NewQueueID (en_now (example_eng None)) (en_seq (example_eng None) + 1))
       \<lparr>rt_eng = e', rt_queue = newWorkQueue 1, rt_handles = 0, rt_draws = 0\<rparr> = (Inr (), r')"
    and q: "size (queued (rt_queue r')) = size (queued (newWorkQueue 1)) + 1"
    by auto
  from q have "size (queued (rt_queue r')) = 1" by (simp add: newWorkQueue_def queued_def)
  with e' r' show ?thesis by blast
qed

end
