(* ===== verification/Polling.thy ===== *)
theory Polling
  imports Engine_Run
begin

text \<open>
  \<^verbatim>\<open>internal/engine/poll.go\<close>: reading a peer page by page since its mark, queueing what was
  found, and moving the mark once the work is terminal; \<^verbatim>\<open>Validate\<close> of \<^verbatim>\<open>engine.go\<close>.

  \<^verbatim>\<open>Commit\<close> waits on the handles of its tasks. Here nobody else works while it waits, so a
  wait on a handle that is not finished never ends and the call has no result: \<^const>\<open>None\<close>.
  A \<^verbatim>\<open>select\<close> with both channels ready picks either one: \<open>sel i\<close> says which, for the
  \<open>i\<close>-th task that is waited for.
\<close>

section \<open>Reading\<close>

record poll_result =
  po_sync :: sync
  po_peer :: peer
  po_highest :: gotime
  po_events :: "change_event list"
  po_tasks :: "task list"

definition maxPages :: int where
  "maxPages = 10000"

definition record_event :: "sync \<Rightarrow> peer \<Rightarrow> gotime \<Rightarrow> crm_record \<Rightarrow> change_event" where
  "record_event s p now rec =
     \<lparr>ev_source = pr_name p, ev_kind = sy_kind s, ev_remote_id = r_remote_id rec, ev_delivery_id = '''',
      ev_observed_at = now, ev_deleted = False, ev_record = Some rec\<rparr>"

definition deleted_event :: "sync \<Rightarrow> peer \<Rightarrow> gotime \<Rightarrow> string \<Rightarrow> change_event" where
  "deleted_event s p now rid =
     \<lparr>ev_source = pr_name p, ev_kind = sy_kind s, ev_remote_id = rid, ev_delivery_id = '''',
      ev_observed_at = now, ev_deleted = True, ev_record = None\<rparr>"

definition index_seen :: "('s, 'w) env \<Rightarrow> sync \<Rightarrow> peer \<Rightarrow> crm_record \<Rightarrow> (('s, 'w) eng, gerr, unit) st" where
  "index_seen env s p rec =
     (case ToCanonical (sy_mapper s) (pr_side p) rec of
        Inl _ \<Rightarrow> ret ()
      | Inr canonical \<Rightarrow>
          on_store env (\<lambda>ops now. Index ops now (sy_identity s) (new_ref p (sy_kind s) (r_remote_id rec)) canonical))"

fun poll_records ::
  "('s, 'w) env \<Rightarrow> sync \<Rightarrow> peer \<Rightarrow> gotime \<Rightarrow> crm_record list \<Rightarrow> poll_result \<Rightarrow> (('s, 'w) eng, gerr, poll_result) st" where
  "poll_records env s p now [] result = ret result"
| "poll_records env s p now (rec # recs) result =
     andThen (index_seen env s p rec) (\<lambda>_.
       poll_records env s p now recs
         (result\<lparr>po_highest := Highest [po_highest result, r_updated_at rec],
                 po_events := po_events result @ [record_event s p now rec]\<rparr>))"

definition list_changed ::
  "('s, 'w) env \<Rightarrow> sync \<Rightarrow> peer \<Rightarrow> gotime \<Rightarrow> string \<Rightarrow> (('s, 'w) eng, gerr, page) st" where
  "list_changed env s p since cursor =
     andThen (bucket_wait env p) (\<lambda>_ e.
       case guarded p (on_world (\<lambda>now. co_list (pe_conn env) (pr_name p) now (sy_kind s) since cursor)) (noteFailure p) e of
         (Inl err, e') \<Rightarrow> (Inl (ErrWrap (''polling '' @ pr_name p @ '' for '' @ sy_kind s) err), e')
       | (Inr page, e') \<Rightarrow> (Inr page, e'))"

function poll_pages ::
  "('s, 'w) env \<Rightarrow> sync \<Rightarrow> peer \<Rightarrow> gotime \<Rightarrow> gotime \<Rightarrow> int \<Rightarrow> string \<Rightarrow> poll_result \<Rightarrow>
     ('s, 'w) eng \<Rightarrow> (gerr + poll_result) \<times> ('s, 'w) eng" where
  "poll_pages env s p since now pages cursor result e =
     andThen (list_changed env s p since cursor) (\<lambda>page.
     andThen (poll_records env s p now (pg_records page) result) (\<lambda>result1 e1.
       let result2 = result1\<lparr>po_events := po_events result1 @ map (deleted_event s p now) (pg_deleted page)\<rparr>
       in if \<not> HasMore page then (Inr result2, e1)
          else if pages > maxPages then
            (Inl (ErrText (''polling '' @ pr_name p @ '' for '' @ sy_kind s @ '': paging did not terminate after ''
                           @ itoa maxPages @ '' pages'')), e1)
          else poll_pages env s p since now (pages + 1) (pg_cursor page) result2 e1)) e"
  by pat_completeness auto
termination
  by (relation "measure (\<lambda>(env, s, p, since, now, pages, cursor, result, e). nat (maxPages + 1 - pages))") auto

declare poll_pages.simps [simp del]

definition Poll :: "('s, 'w) env \<Rightarrow> sync \<Rightarrow> peer \<Rightarrow> (('s, 'w) eng, gerr, poll_result) st" where
  "Poll env s p =
     andThen (on_store env (\<lambda>ops now. Since ops (pe_marks env) now (pr_name p) (sy_kind s))) (\<lambda>since e.
       poll_pages env s p (case since of Some t \<Rightarrow> t | None \<Rightarrow> zero_time) (en_now e) 0 ''''
         \<lparr>po_sync = s, po_peer = p, po_highest = zero_time, po_events = [], po_tasks = []\<rparr> e)"

section \<open>Queueing and committing\<close>

fun submit_events :: "string \<Rightarrow> change_event list \<Rightarrow> ('s, 'w) rt \<Rightarrow> task list \<times> ('s, 'w) rt" where
  "submit_events name [] r = ([], r)"
| "submit_events name (ev # evs) r =
     (case Submit name ev r of (t, r1) \<Rightarrow> (case submit_events name evs r1 of (ts, r2) \<Rightarrow> (t # ts, r2)))"

definition submit_result :: "poll_result \<Rightarrow> ('s, 'w) rt \<Rightarrow> poll_result \<times> ('s, 'w) rt" where
  "submit_result result r =
     (case submit_events (sy_name (po_sync result)) (po_events result) r of
        (ts, r') \<Rightarrow> (result\<lparr>po_tasks := po_tasks result @ ts\<rparr>, r'))"

fun await :: "('s, 'w) env \<Rightarrow> (nat \<Rightarrow> bool) \<Rightarrow> nat \<Rightarrow> task list \<Rightarrow> work_queue \<Rightarrow> (gerr + unit) option" where
  "await env sel i [] q = Some (Inr ())"
| "await env sel i (t # ts) q =
     (let finished = tk_handle t \<in> set (wq_done q)
      in if finished \<and> (\<not> pe_cancelled env \<or> sel i) then await env sel (Suc i) ts q
         else if pe_cancelled env then Some (Inl ErrCtx)
         else None)"

definition Commit_poll ::
  "('s, 'w) env \<Rightarrow> (nat \<Rightarrow> bool) \<Rightarrow> poll_result \<Rightarrow> ('s, 'w) rt \<Rightarrow> ((gerr + unit) \<times> ('s, 'w) rt) option" where
  "Commit_poll env sel result r =
     (case await env sel 0 (po_tasks result) (rt_queue r) of
        None \<Rightarrow> None
      | Some (Inl err) \<Rightarrow> Some (Inl err, r)
      | Some (Inr _) \<Rightarrow>
          Some (on_eng (on_store env (\<lambda>ops now.
                  Advance ops now (pr_name (po_peer result)) (sy_kind (po_sync result)) (po_highest result))) r))"

definition readablePeers :: "sync \<Rightarrow> peer list" where
  "readablePeers s =
     filter (\<lambda>p. WritesTo (m_direction (sy_mapper s)) (pr_side (other_peer s p))) [sy_left s, sy_right s]"

fun poll_each ::
  "('s, 'w) env \<Rightarrow> (sync \<times> peer) list \<Rightarrow> ('s, 'w) eng \<Rightarrow> (poll_result list \<times> gerr list) \<times> ('s, 'w) eng" where
  "poll_each env [] e = (([], []), e)"
| "poll_each env ((s, p) # rest) e =
     (case Poll env s p e of
        (x, e1) \<Rightarrow>
          (case poll_each env rest e1 of
             ((results, errs), e2) \<Rightarrow>
               ((case x of Inl err \<Rightarrow> (results, err # errs) | Inr result \<Rightarrow> (result # results, errs)), e2)))"

fun submit_all :: "poll_result list \<Rightarrow> ('s, 'w) rt \<Rightarrow> poll_result list \<times> ('s, 'w) rt" where
  "submit_all [] r = ([], r)"
| "submit_all (x # xs) r =
     (case submit_result x r of (y, r1) \<Rightarrow> (case submit_all xs r1 of (ys, r2) \<Rightarrow> (y # ys, r2)))"

definition all_targets :: "('s, 'w) env \<Rightarrow> (sync \<times> peer) list" where
  "all_targets env = concat (map (\<lambda>s. map (Pair s) (readablePeers s)) (pe_sync_list env))"

definition PollAll :: "('s, 'w) env \<Rightarrow> ('s, 'w) rt \<Rightarrow> (poll_result list \<times> gerr option) \<times> ('s, 'w) rt" where
  "PollAll env r =
     (case poll_each env (all_targets env) (rt_eng r) of
        ((results, errs), e) \<Rightarrow>
          (case submit_all results (r\<lparr>rt_eng := e\<rparr>) of
             (results', r') \<Rightarrow> ((results', join_errors errs), r')))"

fun commit_each ::
  "('s, 'w) env \<Rightarrow> (nat \<Rightarrow> nat \<Rightarrow> bool) \<Rightarrow> poll_result list \<Rightarrow> ('s, 'w) rt \<Rightarrow> (gerr list \<times> ('s, 'w) rt) option" where
  "commit_each env sel [] r = Some ([], r)"
| "commit_each env sel (x # xs) r =
     (case Commit_poll env (sel (length xs)) x r of
        None \<Rightarrow> None
      | Some (y, r1) \<Rightarrow>
          (case commit_each env sel xs r1 of
             None \<Rightarrow> None
           | Some (errs, r2) \<Rightarrow> Some ((case y of Inl err \<Rightarrow> err # errs | Inr _ \<Rightarrow> errs), r2)))"

definition Cycle ::
  "('s, 'w) env \<Rightarrow> (nat \<Rightarrow> int \<Rightarrow> int) \<Rightarrow> (nat \<Rightarrow> nat \<Rightarrow> bool) \<Rightarrow> ('s, 'w) rt \<Rightarrow>
     (gerr option \<times> ('s, 'w) rt) option" where
  "Cycle env rnd sel r =
     (case PollAll env r of
        ((results, pollErr), r1) \<Rightarrow>
          (case commit_each env sel results (Drain env rnd r1) of
             None \<Rightarrow> None
           | Some (errs, r2) \<Rightarrow>
               Some (join_errors ((case pollErr of None \<Rightarrow> [] | Some err \<Rightarrow> [err]) @ errs), r2)))"

section \<open>Checking the mappings\<close>

definition validate_sync :: "('s, 'w) env \<Rightarrow> sync \<Rightarrow> ('s, 'w) eng \<Rightarrow> gerr list \<times> ('s, 'w) eng" where
  "validate_sync env s e =
     (case on_world (\<lambda>now. co_describe (pe_conn env) (pr_name (sy_left s)) now (sy_kind s)) e of
        (Inl err, e1) \<Rightarrow> ([ErrWrap (sy_name s @ '': describing '' @ pr_name (sy_left s)) err], e1)
      | (Inr left, e1) \<Rightarrow>
          (case on_world (\<lambda>now. co_describe (pe_conn env) (pr_name (sy_right s)) now (sy_kind s)) e1 of
             (Inl err, e2) \<Rightarrow> ([ErrWrap (sy_name s @ '': describing '' @ pr_name (sy_right s)) err], e2)
           | (Inr right, e2) \<Rightarrow>
               (case Validate (sy_mapper s) left right of
                  None \<Rightarrow> ([], e2) | Some err \<Rightarrow> ([ErrWrap (sy_name s) err], e2))))"

fun validate_all :: "('s, 'w) env \<Rightarrow> sync list \<Rightarrow> ('s, 'w) eng \<Rightarrow> gerr list \<times> ('s, 'w) eng" where
  "validate_all env [] e = ([], e)"
| "validate_all env (s # ss) e =
     (case validate_sync env s e of (errs, e1) \<Rightarrow>
        (case validate_all env ss e1 of (errs', e2) \<Rightarrow> (errs @ errs', e2)))"

definition engine_Validate :: "('s, 'w) env \<Rightarrow> ('s, 'w) eng \<Rightarrow> gerr option \<times> ('s, 'w) eng" where
  "engine_Validate env e =
     (case validate_all env (pe_sync_list env) e of (errs, e') \<Rightarrow> (join_errors errs, e'))"

section \<open>What a poll reads\<close>

text \<open>
  A peer that serves a fixed set of pages: at each of the cursors \<open>C\<close> it gives a page, and the cursor
  of a page with more to come is one of them, as long as the world is in one of the states \<open>K\<close>, where
  reading keeps it. \<open>page_chain f c pgs\<close> says that following the cursors from \<open>c\<close> gives \<open>pgs\<close> and
  ends.
\<close>

definition serves ::
  "('s, 'w) env \<Rightarrow> sync \<Rightarrow> peer \<Rightarrow> gotime \<Rightarrow> (string \<Rightarrow> page) \<Rightarrow> string set \<Rightarrow> ('w \<Rightarrow> bool) \<Rightarrow> bool" where
  "serves env s p since f C K \<longleftrightarrow>
     '''' \<in> C \<and> (\<forall>c \<in> C. (HasMore (f c) \<longrightarrow> pg_cursor (f c) \<in> C) \<and>
       (\<forall>now w. K w \<longrightarrow> (\<exists>w'. co_list (pe_conn env) (pr_name p) now (sy_kind s) since c w = (Inr (f c), w') \<and> K w')))"

fun page_chain :: "(string \<Rightarrow> page) \<Rightarrow> string \<Rightarrow> page list \<Rightarrow> bool" where
  "page_chain f c [] \<longleftrightarrow> False"
| "page_chain f c (pg # pgs) \<longleftrightarrow>
     pg = f c \<and> (if pgs = [] then \<not> HasMore pg else HasMore pg \<and> page_chain f (pg_cursor pg) pgs)"

definition page_events :: "sync \<Rightarrow> peer \<Rightarrow> gotime \<Rightarrow> page \<Rightarrow> change_event list" where
  "page_events s p now pg = map (record_event s p now) (pg_records pg) @ map (deleted_event s p now) (pg_deleted pg)"

definition add_page :: "sync \<Rightarrow> peer \<Rightarrow> gotime \<Rightarrow> page \<Rightarrow> poll_result \<Rightarrow> poll_result" where
  "add_page s p now pg result =
     result\<lparr>po_highest := fold highest_step (map r_updated_at (pg_records pg)) (po_highest result),
            po_events := po_events result @ page_events s p now pg\<rparr>"

lemma Highest_pair: "Highest [h, t] = highest_step t h"
  by (simp add: Highest_def highest_step_def)

lemma list_changed_ok:
  assumes "serves env s p since f C K" "\<not> pe_cancelled env" "c \<in> C" "K (en_world e)"
  obtains bs t w where "list_changed env s p since c e = (Inr (f c), e\<lparr>en_buckets := bs, en_now := t, en_world := w\<rparr>)" "K w"
proof -
  obtain bs1 t where w: "bucket_wait env p e = (Inr (), e\<lparr>en_buckets := bs1, en_now := t\<rparr>)"
    by (rule bucket_wait_eq [of env p e]) (simp add: assms(2))
  obtain w1 where w1: "co_list (pe_conn env) (pr_name p) t (sy_kind s) since c (en_world e) = (Inr (f c), w1)" "K w1"
    using assms(1,3,4) by (force simp: serves_def)
  let ?e = "e\<lparr>en_buckets := bs1, en_now := t, en_world := w1\<rparr>"
  obtain bs where b: "on_bucket p (\<lambda>_. Success) ?e = (Inr (), ?e\<lparr>en_buckets := bs\<rparr>)" by (rule on_bucket_eq)
  have "list_changed env s p since c e = (Inr (f c), e\<lparr>en_buckets := bs, en_now := t, en_world := w1\<rparr>)"
    using b by (simp add: list_changed_def andThen_def w guarded_def on_world_def w1(1))
  then show thesis using w1(2) by (rule that)
qed

context doc_store
begin

lemma index_seen_ok:
  assumes env: "pe_store env = ops" and g: "good (en_store e)"
  obtains c where "index_seen env s p rec e = (Inr (), e\<lparr>en_store := c\<rparr>)" "good c"
proof (cases "ToCanonical (sy_mapper s) (pr_side p) rec")
  case (Inl err)
  with that [of "en_store e"] g show thesis by (simp add: index_seen_def)
next
  case (Inr canonical)
  obtain c where "Index ops (en_now e) (sy_identity s) (new_ref p (sy_kind s) (r_remote_id rec)) canonical (en_store e) = (Inr (), c)"
    "good c" by (rule Index_ok [OF g refl]) blast
  with that [of c] Inr show thesis by (simp add: index_seen_def on_store_eq [OF env])
qed

lemma poll_records_ok:
  assumes env: "pe_store env = ops" and g: "good (en_store e)"
  shows "\<exists>c. poll_records env s p now recs result e =
    (Inr (result\<lparr>po_highest := fold highest_step (map r_updated_at recs) (po_highest result),
       po_events := po_events result @ map (record_event s p now) recs\<rparr>), e\<lparr>en_store := c\<rparr>) \<and> good c"
  using g
proof (induction recs arbitrary: result e)
  case Nil
  then show ?case by (intro exI [of _ "en_store e"]) simp
next
  case (Cons rec recs)
  obtain c where c: "index_seen env s p rec e = (Inr (), e\<lparr>en_store := c\<rparr>)" "good c"
    by (rule index_seen_ok [OF env Cons.prems])
  show ?case
    using Cons.IH [of "e\<lparr>en_store := c\<rparr>" "result\<lparr>po_highest := highest_step (r_updated_at rec) (po_highest result),
        po_events := po_events result @ [record_event s p now rec]\<rparr>"] c
    by (auto simp: andThen_def Highest_pair)
qed

text \<open>One turn of the loop.\<close>

lemma poll_pages_step:
  assumes env: "pe_store env = ops" "\<not> pe_cancelled env" and g: "good (en_store e)" "K (en_world e)"
    and f: "serves env s p since f C K" "c \<in> C"
  obtains e' where "good (en_store e')" "K (en_world e')"
    "poll_pages env s p since now pages c result e =
       (if \<not> HasMore (f c) then (Inr (add_page s p now (f c) result), e')
        else if pages > maxPages then
          (Inl (ErrText (''polling '' @ pr_name p @ '' for '' @ sy_kind s @ '': paging did not terminate after ''
             @ itoa maxPages @ '' pages'')), e')
        else poll_pages env s p since now (pages + 1) (pg_cursor (f c)) (add_page s p now (f c) result) e')"
proof -
  obtain bs t w where l: "list_changed env s p since c e = (Inr (f c), e\<lparr>en_buckets := bs, en_now := t, en_world := w\<rparr>)" "K w"
    by (rule list_changed_ok [where c = c, OF f(1) env(2) f(2) g(2)])
  let ?e = "e\<lparr>en_buckets := bs, en_now := t, en_world := w\<rparr>"
  from poll_records_ok [OF env(1), of ?e s p now "pg_records (f c)" result] g(1) obtain c' where c':
    "poll_records env s p now (pg_records (f c)) result ?e =
      (Inr (result\<lparr>po_highest := fold highest_step (map r_updated_at (pg_records (f c))) (po_highest result),
         po_events := po_events result @ map (record_event s p now) (pg_records (f c))\<rparr>), ?e\<lparr>en_store := c'\<rparr>)" "good c'"
    by auto
  show thesis
    by (rule that [of "?e\<lparr>en_store := c'\<rparr>"])
       (simp_all add: c' poll_pages.simps [of env s p since now pages c result e] andThen_def l(1) l(2) Let_def add_page_def page_events_def)
qed

lemma poll_pages_chain:
  assumes env: "pe_store env = ops" "\<not> pe_cancelled env" and g: "good (en_store e)" "K (en_world e)"
    and f: "serves env s p since f C K" "c \<in> C"
    and chain: "page_chain f c pgs" and n: "pages + int (length pgs) \<le> maxPages + 2"
  shows "\<exists>e'. poll_pages env s p since now pages c result e = (Inr (fold (add_page s p now) pgs result), e') \<and>
    good (en_store e') \<and> K (en_world e')"
  using g f(2) chain n
proof (induction pgs arbitrary: c pages result e)
  case (Cons pg pgs)
  obtain e' where e': "good (en_store e')" "K (en_world e')" "poll_pages env s p since now pages c result e =
       (if \<not> HasMore (f c) then (Inr (add_page s p now (f c) result), e')
        else if pages > maxPages then
          (Inl (ErrText (''polling '' @ pr_name p @ '' for '' @ sy_kind s @ '': paging did not terminate after ''
             @ itoa maxPages @ '' pages'')), e')
        else poll_pages env s p since now (pages + 1) (pg_cursor (f c)) (add_page s p now (f c) result) e')"
    by (rule poll_pages_step [OF env Cons.prems(1,2) f(1) Cons.prems(3)])
  show ?case
  proof (cases "pgs = []")
    case True
    with e' Cons.prems(4) show ?thesis by auto
  next
    case False
    then have "1 \<le> length pgs" by (cases pgs) auto
    then have "\<not> pages > maxPages" using Cons.prems(5) by simp
    moreover have "\<exists>e''. poll_pages env s p since now (pages + 1) (pg_cursor (f c)) (add_page s p now (f c) result) e' =
        (Inr (fold (add_page s p now) pgs (add_page s p now (f c) result)), e'') \<and> good (en_store e'') \<and> K (en_world e'')"
      using False Cons.prems f(1) by (intro Cons.IH e'(1,2)) (auto simp: serves_def)
    ultimately show ?thesis using e'(3) False Cons.prems(4) by auto
  qed
qed simp

lemma poll_pages_endless:
  assumes env: "pe_store env = ops" "\<not> pe_cancelled env" and g: "good (en_store e)" "K (en_world e)"
    and f: "serves env s p since f C K" "c \<in> C"
    and more: "\<And>c. c \<in> C \<Longrightarrow> HasMore (f c)"
  shows "fst (poll_pages env s p since now pages c result e) =
    Inl (ErrText (''polling '' @ pr_name p @ '' for '' @ sy_kind s @ '': paging did not terminate after ''
             @ itoa maxPages @ '' pages''))"
  using g f(2)
proof (induction "nat (maxPages + 1 - pages)" arbitrary: pages c result e rule: less_induct)
  case less
  obtain e' where e': "good (en_store e')" "K (en_world e')" "poll_pages env s p since now pages c result e =
       (if \<not> HasMore (f c) then (Inr (add_page s p now (f c) result), e')
        else if pages > maxPages then
          (Inl (ErrText (''polling '' @ pr_name p @ '' for '' @ sy_kind s @ '': paging did not terminate after ''
             @ itoa maxPages @ '' pages'')), e')
        else poll_pages env s p since now (pages + 1) (pg_cursor (f c)) (add_page s p now (f c) result) e')"
    by (rule poll_pages_step [OF env less.prems(1,2) f(1) less.prems(3)])
  moreover have "pg_cursor (f c) \<in> C" using f(1) more [OF less.prems(3)] less.prems(3) by (simp add: serves_def)
  ultimately show ?case
    using more [OF less.prems(3)] less.hyps [of "pages + 1" e' "pg_cursor (f c)"] by (cases "pages > maxPages") auto
qed

end

context doc_store
begin

definition read_from :: "('s, 'w) env \<Rightarrow> sync \<Rightarrow> peer \<Rightarrow> ('s, 'w) eng \<Rightarrow> gotime" where
  "read_from env s p e =
     (case marked (en_store e) (en_now e) (pr_name p) (sy_kind s) of
        None \<Rightarrow> zero_time | Some m \<Rightarrow> m - Overlap (pe_marks env) (pr_name p))"

lemma Poll_eq:
  assumes "pe_store env = ops" "good (en_store e)"
  shows "Poll env s p e = poll_pages env s p (read_from env s p e) (en_now e) 0 ''''
    \<lparr>po_sync = s, po_peer = p, po_highest = zero_time, po_events = [], po_tasks = []\<rparr> e"
  using assms by (simp add: Poll_def andThen_def on_store_eq Since_def Watermark_ok read_from_def option.case_eq_if option.map_sel)

end

lemma add_pages:
  "po_events (fold (add_page s p now) pgs result) = po_events result @ concat (map (page_events s p now) pgs)"
  "po_highest (fold (add_page s p now) pgs result) =
     fold highest_step (map r_updated_at (concat (map pg_records pgs))) (po_highest result)"
  "po_sync (fold (add_page s p now) pgs result) = po_sync result"
  "po_peer (fold (add_page s p now) pgs result) = po_peer result"
  "po_tasks (fold (add_page s p now) pgs result) = po_tasks result"
  by (induction pgs arbitrary: result) (simp_all add: add_page_def)

section \<open>Queueing\<close>

lemma submit_events_queued:
  assumes "submit_events name evs r = (ts, r')" "\<not> wq_closed (rt_queue r)"
  shows "queued (rt_queue r') = queued (rt_queue r) + mset ts \<and> map tk_event ts = evs \<and>
    (\<forall>t \<in> set ts. tk_sync t = name \<and> tk_attempts t = 0) \<and> \<not> wq_closed (rt_queue r')"
  using assms
proof (induction name evs r arbitrary: ts r' rule: submit_events.induct)
  case (2 name ev evs r)
  obtain t r1 where s: "Submit name ev r = (t, r1)" by fastforce
  obtain ts1 where ts: "submit_events name evs r1 = (ts1, r')" "ts = t # ts1"
    using "2.prems"(1) s by (auto split: prod.splits)
  have "queued (rt_queue r1) = add_mset t (queued (rt_queue r))" "\<not> wq_closed (rt_queue r1)"
    "tk_event t = ev" "tk_sync t = name" "tk_attempts t = 0"
    using s "2.prems"(2) by (auto simp: Submit_def Let_def push_def) (simp add: queued_def)
  with "2.IH" [OF s [symmetric] ts(1)] ts(2) show ?case by simp
qed simp

lemma submit_all_queued:
  assumes "submit_all xs r = (ys, r')" "\<not> wq_closed (rt_queue r)" "\<forall>x \<in> set xs. po_tasks x = []"
  shows "queued (rt_queue r') = queued (rt_queue r) + mset (concat (map po_tasks ys)) \<and>
    map (\<lambda>y. y\<lparr>po_tasks := []\<rparr>) ys = xs \<and>
    (\<forall>y \<in> set ys. map tk_event (po_tasks y) = po_events y \<and>
       (\<forall>t \<in> set (po_tasks y). tk_sync t = sy_name (po_sync y) \<and> tk_attempts t = 0)) \<and>
    \<not> wq_closed (rt_queue r')"
  using assms
proof (induction xs r arbitrary: ys r' rule: submit_all.induct)
  case (2 x xs r)
  obtain ts r1 where s: "submit_events (sy_name (po_sync x)) (po_events x) r = (ts, r1)" by fastforce
  then have s': "submit_result x r = (x\<lparr>po_tasks := ts\<rparr>, r1)" using "2.prems"(3) by (simp add: submit_result_def)
  obtain ys1 where ys: "submit_all xs r1 = (ys1, r')" "ys = x\<lparr>po_tasks := ts\<rparr> # ys1"
    using "2.prems"(1) s' by (auto split: prod.splits)
  note e = submit_events_queued [OF s "2.prems"(2)]
  have "x\<lparr>po_tasks := []\<rparr> = x" using "2.prems"(3) by (cases x) simp
  then show ?case using "2.IH" [OF s' [symmetric] ys(1)] e "2.prems"(3) by (simp add: ys(2) ac_simps)
qed simp

lemma poll_pages_Inr:
  "poll_pages env s p since now pages c result e = (Inr res, e') \<Longrightarrow>
   po_sync res = po_sync result \<and> po_peer res = po_peer result \<and> po_tasks res = po_tasks result"
proof (induction env s p since now pages c result e rule: poll_pages.induct)
  case (1 env s p since now pages c result e)
  have rec: "po_sync res1 = po_sync result \<and> po_peer res1 = po_peer result \<and> po_tasks res1 = po_tasks result"
    if "poll_records env s p now recs result e1 = (Inr res1, e2)" for recs result res1 e1 e2
    using that by (induction recs arbitrary: result e1) (auto simp: andThen_eq_Inr)
  from "1.prems" obtain pg e1 res1 e2 where l: "list_changed env s p since c e = (Inr pg, e1)"
    and r: "poll_records env s p now (pg_records pg) result e1 = (Inr res1, e2)"
    by (subst (asm) poll_pages.simps) (auto simp: andThen_eq_Inr)
  show ?case
    using "1.prems" [unfolded poll_pages.simps [of env s p since now pages c result e]] rec [OF r] "1.IH" [OF l r refl]
    by (auto simp: andThen_def l r Let_def split: if_splits)
qed


lemma poll_each_results:
  "poll_each env targets e = ((results, errs), e') \<Longrightarrow>
   (\<forall>x \<in> set results. (po_sync x, po_peer x) \<in> set targets \<and> po_tasks x = []) \<and>
   length results + length errs = length targets"
proof (induction env targets e arbitrary: results errs e' rule: poll_each.induct)
  case (2 env s p rest e)
  obtain x e1 where x: "Poll env s p e = (x, e1)" by fastforce
  obtain results1 errs1 where r: "poll_each env rest e1 = ((results1, errs1), e')"
    "(results, errs) = (case x of Inl err \<Rightarrow> (results1, err # errs1) | Inr result \<Rightarrow> (result # results1, errs1))"
    using "2.prems" x by (auto split: prod.splits)
  note IH = "2.IH" [OF x [symmetric] r(1)]
  show ?case
  proof (cases x)
    case (Inl err)
    with IH r(2) show ?thesis by auto
  next
    case (Inr result)
    with x have "po_sync result = s \<and> po_peer result = p \<and> po_tasks result = []"
      by (auto simp: Poll_def andThen_eq_Inr dest!: poll_pages_Inr)
    with Inr IH r(2) show ?thesis by auto
  qed
qed simp

lemma await_live:
  "\<not> pe_cancelled env \<Longrightarrow>
   await env sel i ts q = (if \<forall>t \<in> set ts. tk_handle t \<in> set (wq_done q) then Some (Inr ()) else None)"
  by (induction ts arbitrary: i) (simp_all add: Let_def)

lemma Commit_poll_queue: "Commit_poll env sel x r = Some (y, r') \<Longrightarrow> rt_queue r' = rt_queue r"
  by (auto simp: Commit_poll_def on_eng_def split: option.splits sum.splits prod.splits)

lemma commit_each_live:
  assumes "\<not> pe_cancelled env"
  shows "commit_each env sel xs r = None \<longleftrightarrow>
    (\<exists>x \<in> set xs. \<exists>t \<in> set (po_tasks x). tk_handle t \<notin> set (wq_done (rt_queue r)))"
proof (induction xs arbitrary: r)
  case (Cons x xs)
  show ?case
  proof (cases "Commit_poll env (sel (length xs)) x r")
    case None
    then show ?thesis by (auto simp: Commit_poll_def await_live [OF assms] split: if_splits)
  next
    case (Some yr)
    obtain y r1 where yr: "yr = (y, r1)" by fastforce
    have "\<forall>t \<in> set (po_tasks x). tk_handle t \<in> set (wq_done (rt_queue r))"
      using Some by (auto simp: Commit_poll_def await_live [OF assms] split: if_splits)
    then show ?thesis
      using Some yr Cons.IH [of r1] Commit_poll_queue [of env "sel (length xs)" x r y r1]
      by (auto split: option.splits)
  qed
qed simp


section \<open>Properties\<close>

text \<open>
  A poll reads everything the peer has changed since the mark. Following the cursors of a peer
  whose pages end within the page limit, it yields, in order, one event for every record and one
  for every deletion of every page, and the highest time of all the records.
\<close>

theorem poll_reads_every_page:
  assumes "pe_store env = mem_ops" and "\<not> pe_cancelled env" and "mem_docs.good (en_store e)"
    and "K (en_world e)" and "serves env s p (mem_docs.read_from env s p e) f C K" and "page_chain f '''' pgs"
    and "int (length pgs) \<le> maxPages + 2"
  shows "\<exists>result e'. Poll env s p e = (Inr result, e') \<and>
    po_events result = concat (map (page_events s p (en_now e)) pgs) \<and>
    po_highest result = Highest (map r_updated_at (concat (map pg_records pgs))) \<and> K (en_world e')"
proof -
  let ?start = "\<lparr>po_sync = s, po_peer = p, po_highest = zero_time, po_events = [], po_tasks = []\<rparr>"
  have c: "'''' \<in> C" using assms(5) by (simp add: serves_def)
  from mem_docs.poll_pages_chain [OF assms(1-5) c assms(6), of 0 "en_now e" ?start] assms(7) obtain e' where
    "poll_pages env s p (mem_docs.read_from env s p e) (en_now e) 0 '''' ?start e =
      (Inr (fold (add_page s p (en_now e)) pgs ?start), e')" "K (en_world e')" by auto
  then show ?thesis
    unfolding mem_docs.Poll_eq [OF assms(1,3)] by (simp add: add_pages Highest_def)
qed

definition example_pages :: "(doc mem, (string \<times> string) list) env" where
  "example_pages = (example_env ''bidirectional'')\<lparr>pe_conn := example_conn\<lparr>co_list :=
     (\<lambda>n now kind since cursor w. (Inr (if cursor = ''''
        then \<lparr>pg_records = [\<lparr>r_kind = ''contact'', r_remote_id = ''1'', r_fields = [], r_updated_at = 7, r_version = ''''\<rparr>],
              pg_deleted = [], pg_cursor = ''2''\<rparr>
        else \<lparr>pg_records = [], pg_deleted = [''9''], pg_cursor = ''''\<rparr>), w))\<rparr>\<rparr>"

lemma example_pages_simps [simp]:
  "pe_store example_pages = mem_ops" "\<not> pe_cancelled example_pages" "mem_docs.good (en_store (example_eng plan))"
  by (simp_all add: example_pages_def example_env_def example_eng_def)

theorem poll_reads_every_page_witness:
  "\<exists>result e'. Poll example_pages (example_sync ''bidirectional'') (sy_left (example_sync ''bidirectional'')) (example_eng None) =
      (Inr result, e') \<and> length (po_events result) = 2 \<and> po_highest result = 7"
proof -
  let ?one = "\<lparr>pg_records = [\<lparr>r_kind = ''contact'', r_remote_id = ''1'', r_fields = [], r_updated_at = 7, r_version = ''''\<rparr>],
              pg_deleted = [], pg_cursor = ''2''\<rparr>"
  let ?two = "\<lparr>pg_records = [], pg_deleted = [''9''], pg_cursor = ''''\<rparr>"
  let ?f = "\<lambda>c. if c = '''' then ?one else ?two"
  have s: "serves example_pages s p t ?f UNIV (\<lambda>_. True)" for s p t
    by (simp add: serves_def example_pages_def)
  have c: "page_chain ?f '''' [?one, ?two]" by (simp add: HasMore_def)
  have l: "int (length [?one, ?two]) \<le> maxPages + 2" by (simp add: maxPages_def)
  show ?thesis
    using poll_reads_every_page [OF example_pages_simps TrueI s c l, of "example_sync ''bidirectional''"
        "sy_left (example_sync ''bidirectional'')" None]
    by (auto simp: page_events_def Highest_def highest_step_def)
qed

text \<open>
  A peer whose cursors never end cannot hold the engine: the poll stops with an error, and so
  the mark of that peer does not move.
\<close>

theorem endless_paging_ends:
  assumes "pe_store env = mem_ops" and "\<not> pe_cancelled env" and "mem_docs.good (en_store e)"
    and "K (en_world e)" and "serves env s p (mem_docs.read_from env s p e) f C K" and "\<And>c. c \<in> C \<Longrightarrow> HasMore (f c)"
  shows "fst (Poll env s p e) =
    Inl (ErrText (''polling '' @ pr_name p @ '' for '' @ sy_kind s @ '': paging did not terminate after ''
           @ itoa maxPages @ '' pages''))"
  unfolding mem_docs.Poll_eq [OF assms(1,3)] by (rule mem_docs.poll_pages_endless [OF assms(1-5)])
     (use assms(5) in \<open>simp add: serves_def\<close>, rule assms(6))

definition example_endless :: "(doc mem, (string \<times> string) list) env" where
  "example_endless = (example_env ''bidirectional'')\<lparr>pe_conn := example_conn\<lparr>co_list :=
     (\<lambda>n now kind since cursor w. (Inr \<lparr>pg_records = [], pg_deleted = [], pg_cursor = ''next''\<rparr>, w))\<rparr>\<rparr>"

theorem endless_paging_ends_witness:
  "\<exists>err. fst (Poll example_endless (example_sync ''bidirectional'') (sy_left (example_sync ''bidirectional''))
     (example_eng None)) = Inl err"
proof -
  have a: "pe_store example_endless = mem_ops" "\<not> pe_cancelled example_endless"
    by (simp_all add: example_endless_def example_env_def)
  have s: "serves example_endless s p t (\<lambda>c. \<lparr>pg_records = [], pg_deleted = [], pg_cursor = ''next''\<rparr>) UNIV (\<lambda>_. True)" for s p t
    by (simp add: serves_def example_endless_def)
  show ?thesis
    by (rule exI, rule endless_paging_ends [OF a example_pages_simps(3) TrueI s]) (simp add: HasMore_def)
qed

text \<open>
  A pass over the peers queues everything it read and nothing else, and one unreachable peer
  does not stop the others: every peer worth reading gives a result or an error, and the tasks of
  the results, one for each event in order, are what was added to the queue.
\<close>

theorem poll_all_queues_everything:
  assumes "PollAll env r = ((results, err), r')" and "\<not> wq_closed (rt_queue r)"
  shows "queued (rt_queue r') = queued (rt_queue r) + mset (concat (map po_tasks results)) \<and>
    (\<forall>x \<in> set results. (po_sync x, po_peer x) \<in> set (all_targets env) \<and>
       map tk_event (po_tasks x) = po_events x \<and>
       (\<forall>t \<in> set (po_tasks x). tk_sync t = sy_name (po_sync x) \<and> tk_attempts t = 0)) \<and>
    (err = None \<longleftrightarrow> length results = length (all_targets env))"
proof -
  obtain xs errs e where p: "poll_each env (all_targets env) (rt_eng r) = ((xs, errs), e)" by (metis surj_pair)
  then have s: "submit_all xs (r\<lparr>rt_eng := e\<rparr>) = (results, r')" and err: "err = join_errors errs"
    using assms(1) by (auto simp: PollAll_def split: prod.splits)
  note each = poll_each_results [OF p]
  have q: "queued (rt_queue r') = queued (rt_queue r) + mset (concat (map po_tasks results))"
    "map (\<lambda>y. y\<lparr>po_tasks := []\<rparr>) results = xs"
    "\<forall>y \<in> set results. map tk_event (po_tasks y) = po_events y \<and>
       (\<forall>t \<in> set (po_tasks y). tk_sync t = sy_name (po_sync y) \<and> tk_attempts t = 0)"
    using submit_all_queued [OF s] assms(2) each by auto
  have "(po_sync x, po_peer x) \<in> set (all_targets env)" if "x \<in> set results" for x
  proof -
    have "x\<lparr>po_tasks := []\<rparr> \<in> set xs" using that q(2) by auto
    with each show ?thesis by fastforce
  qed
  moreover have "length results = length xs" using arg_cong [OF q(2), of length] by simp
  then have "err = None \<longleftrightarrow> length results = length (all_targets env)"
    using each by (auto simp: err join_errors_def)
  ultimately show ?thesis using q(1,3) by blast
qed

theorem poll_all_queues_everything_witness:
  "\<exists>results err r'. PollAll (example_env ''bidirectional'') example_rt = ((results, err), r') \<and>
     queued (rt_queue r') = queued (rt_queue example_rt) + mset (concat (map po_tasks results))"
proof -
  obtain results err r' where p: "PollAll (example_env ''bidirectional'') example_rt = ((results, err), r')"
    by (metis surj_pair)
  from poll_all_queues_everything [OF p example_rt_open] p show ?thesis by blast
qed



text \<open>
  Stopping releases the handles of work that was never run, so a commit that waits for it with a
  live context then moves the mark past it.
\<close>

theorem stop_lets_mark_pass_unrun_work:
  assumes "\<not> pe_cancelled env" and "\<forall>t \<in> set (po_tasks x). t \<in># queued (rt_queue r)"
  shows "Commit_poll env sel x (Stop r) = Some (on_eng (on_store env (\<lambda>ops now.
    Advance ops now (pr_name (po_peer x)) (sy_kind (po_sync x)) (po_highest x))) (Stop r))"
proof -
  have "\<forall>t \<in> set (po_tasks x). tk_handle t \<in> set (wq_done (rt_queue (Stop r)))"
    using assms(2) by (auto simp: Stop_def queue_close_def Let_def queued_def)
  then show ?thesis by (simp add: Commit_poll_def await_live [OF assms(1)])
qed

text \<open>
  A task that fails because the context was cancelled is finished without having been processed,
  and the commit may then see its handle before it sees the cancelled context.
\<close>

theorem cancelled_task_lets_mark_pass:
  assumes "pe_cancelled env" and "process env (tk_sync t) (tk_event t) (rt_eng r) = (Inl err, e)"
    and "po_tasks x = [t]"
  shows "let r' = runTask env rnd t r
    in Commit_poll env (\<lambda>_. True) x r' = Some (on_eng (on_store env (\<lambda>ops now.
         Advance ops now (pr_name (po_peer x)) (sy_kind (po_sync x)) (po_highest x))) r')"
  using assms by (simp add: Let_def runTask_def Commit_poll_def complete_def)

end
