(* ===== verification/Store_Access.thy ===== *)
theory Store_Access
  imports Polling
begin

text \<open>
  Every part of the engine reaches its store through the operations of the store interface and no
  other way. The locale \<open>store_kept\<close> says of a property of the store's state that the operations
  keep it; under it every accessor, every step of the pipeline, a whole polling cycle and the
  operator's calls keep it.
\<close>

named_theorems held \<open>calls that keep what the store operations keep\<close>

definition in_store :: "('s \<Rightarrow> bool) \<Rightarrow> ('s, 'w) eng \<Rightarrow> bool" where
  "in_store J e \<longleftrightarrow> J (en_store e)"

lemma in_store_other [simp]:
  "in_store J (e\<lparr>en_now := t\<rparr>) = in_store J e"
  "in_store J (e\<lparr>en_world := w\<rparr>) = in_store J e"
  "in_store J (e\<lparr>en_plan := p\<rparr>) = in_store J e"
  "in_store J (e\<lparr>en_buckets := bs\<rparr>) = in_store J e"
  "in_store J (e\<lparr>en_origin_stats := os\<rparr>) = in_store J e"
  "in_store J (e\<lparr>en_stats := st\<rparr>) = in_store J e"
  "in_store J (e\<lparr>en_seq := n\<rparr>) = in_store J e"
  by (simp_all add: in_store_def)

lemma keeps_Pair [simp]: "keeps J (Pair x)"
  by (simp add: keeps_def)

lemma keeps_decode [held]: "keeps J (decode what f d)"
  by (simp add: decode_def split: option.split)

lemma keeps_on_fst [held]: "keeps J m \<Longrightarrow> keeps (\<lambda>(s, t). J s) (on_fst m)"
  by (auto simp: keeps_def)

lemma keeps_count [held]: "keeps (\<lambda>(s, t). J s) (Prelude.count f)"
  by (auto simp: keeps_def)

lemma in_store_on_world [held]: "keeps (in_store J) (on_world f)"
  by (simp add: keeps_def on_world_def case_prod_beta)

lemma in_store_bump [held]: "keeps (in_store J) (bump f)"
  by (simp add: keeps_def bump_def)

lemma in_store_bucket_wait [held]: "keeps (in_store J) (bucket_wait env p)"
  by (simp add: keeps_def bucket_wait_def case_prod_beta Let_def)

lemma in_store_on_bucket [held]: "keeps (in_store J) (on_bucket p f)"
  by (simp add: keeps_def on_bucket_def case_prod_beta Let_def)

lemma in_store_noteFailure [held]: "keeps (in_store J) (noteFailure p err)"
  by (auto simp: noteFailure_def intro: held)

lemma in_store_guarded [held]:
  "keeps (in_store J) call \<Longrightarrow> (\<And>err. keeps (in_store J) (handler err)) \<Longrightarrow> keeps (in_store J) (guarded p call handler)"
  by (rule keeps_guarded) (auto intro: held)

lemma in_store_engine_get [held]: "keeps (in_store J) (engine_get env p kind rid)"
  unfolding engine_get_def by (intro keeps_andThen held)

lemma in_store_hydrate [held]: "keeps (in_store J) (hydrate env s from ev)"
  by (rule keeps_hydrate) (rule held)


section \<open>The accessors\<close>

locale store_kept =
  fixes ops :: "('s, doc) store_ops" and J :: "'s \<Rightarrow> bool"
  assumes kept_get [held]: "keeps J (so_get ops now c k)"
    and kept_put [held]: "keeps J (so_put ops now c k v t)"
    and kept_delete [held]: "keeps J (so_delete ops now c k)"
    and kept_take [held]: "keeps J (so_take ops now c k)"
    and kept_list [held]: "keeps J (so_list ops now c n)"
begin

lemma kept_put_doc [held]: "keeps J (put_doc ops what now c k d t)"
  by (simp add: put_doc_def held)

lemma kept_link [held]:
  "keeps J (PutLink ops now l)" "keeps J (GetLink ops now r)" "keeps J (DeleteLink ops now l)"
  unfolding PutLink_def GetLink_def DeleteLink_def by (intro keeps_andThen held)+

lemma kept_watermark [held]:
  "keeps J (Watermark ops now n kind)" "keeps J (SetWatermark ops now n kind t)"
  unfolding Watermark_def SetWatermark_def by (intro keeps_andThen held)+

lemma kept_snapshot [held]: "keeps J (Snapshot ops now r)" "keeps J (SetSnapshot ops now r snap)"
  unfolding Snapshot_def SetSnapshot_def by (intro keeps_andThen held)+

lemma kept_origin_entry [held]: "keeps J (PutOrigin ops now oe t)" "keeps J (TakeOrigin ops now r h)"
  unfolding PutOrigin_def TakeOrigin_def by (intro keeps_andThen held)+

lemma kept_idem_entry [held]: "keeps J (Idem ops now key)" "keeps J (PutIdem ops now key x t)"
  unfolding Idem_def PutIdem_def by (intro keeps_andThen held)+

lemma kept_queue_item [held]:
  "keeps J (PutQueueItem ops now c item)" "keeps J (GetQueueItem ops now c key)"
  "keeps J (DeleteQueueItem ops now c key)" "keeps J (ListQueueItems ops now c n)"
  unfolding PutQueueItem_def GetQueueItem_def DeleteQueueItem_def ListQueueItems_def
  by (auto intro!: keeps_andThen held split: sum.split)

lemma kept_origin [held]:
  "keeps (\<lambda>(s, t). J s) (Record ops windows now r h)" "keeps (\<lambda>(s, t). J s) (Classify ops now r h)"
  unfolding Record_def Classify_def Let_def wroteRecently_def by (auto intro!: keeps_andThen held)

lemma kept_idem [held]:
  "keeps J (Begin ops ttl now key)" "keeps J (Commit ops ttl now key res)" "keeps J (Abandon ops now key)"
  unfolding Begin_def Commit_def Abandon_def Let_def by (auto intro!: keeps_andThen held split: option.split)

lemma kept_marks [held]:
  "keeps J (Since ops peers now n kind)" "keeps J (Advance ops now n kind t)" "keeps J (Lag ops now n kind)"
  unfolding Since_def Advance_def Lag_def Let_def by (auto intro!: keeps_andThen held split: option.split)

lemma kept_key [held]: "keeps J (loadKey ops now key)" "keeps J (saveKey ops now key refs)"
  unfolding loadKey_def saveKey_def by (intro keeps_andThen held keeps_ret)+

lemma kept_ref [held]: "keeps J (addRef ops now key r)" "keeps J (removeRef ops now key r)"
  unfolding addRef_def removeRef_def Let_def by (auto intro!: keeps_andThen held)

lemma kept_releaseKeys [held]: "keeps J (releaseKeys ops now r)" "keeps J (Deindex ops now r)"
  unfolding releaseKeys_def Deindex_def
  by (auto intro!: keeps_andThen keeps_for_each held split: option.split)

lemma kept_Index [held]: "keeps J (Index ops now res r canonical)"
  unfolding Index_def Let_def by (auto intro!: keeps_andThen keeps_for_each held)

lemma kept_gather [held]: "keeps J (gather ops now n kind canonical names acc)"
proof (induction names arbitrary: acc)
  case (Cons name names)
  then show ?case by (cases acc) (auto intro!: keeps_andThen held split: option.split)
qed (simp add: keeps_def)

lemma kept_Resolve [held]: "keeps J (identity_Resolve ops now res from peer canonical)"
  unfolding identity_Resolve_def by_keys_def candidates_def
  by (auto intro!: keeps_andThen held split: option.split list.split prod.split)

end


section \<open>The engine\<close>

lemma in_store_on_store:
  "(\<And>now. keeps J (f (pe_store env) now)) \<Longrightarrow> keeps (in_store J) (on_store env f)"
  by (simp add: keeps_def on_store_def in_store_def case_prod_beta)

lemma in_store_on_origin:
  "(\<And>now. keeps (\<lambda>(s, t). J s) (f (pe_store env) now)) \<Longrightarrow> keeps (in_store J) (on_origin env f)"
  by (fastforce simp: keeps_def on_origin_def in_store_def case_prod_beta)

locale engine_kept = store_kept "pe_store env" J
  for env :: "('s, 'w) env" and J :: "'s \<Rightarrow> bool"
begin

lemmas on_store_kept = in_store_on_store [where J = J and env = env] in_store_on_origin [where J = J and env = env]

lemma kept_idem_calls [held]:
  "keeps (in_store J) (idem_begin env key)" "keeps (in_store J) (idem_commit env key g)"
  "keeps (in_store J) (idem_abandon env key)" "keeps (in_store J) (recordOrigin env r h)"
  unfolding idem_begin_def idem_commit_def idem_abandon_def recordOrigin_def
  by (intro on_store_kept held)+

lemma kept_send [held]: "keeps (in_store J) (send env s target targetRef fs h key)"
  unfolding send_def write_failed_def
  by (auto intro!: keeps_andThen keeps_ignoring held)

lemma kept_engine_write [held]:
  "keeps (in_store J) (engine_write env s target targetRef sourceRef values base)"
proof (rule keeps_pointwise)
  fix e :: "('s, 'w) eng"
  let ?fs = "FromCanonical (sy_mapper s) (pr_side target) values"
  show "\<exists>m. keeps (in_store J) m \<and> engine_write env s target targetRef sourceRef values base e = m e"
  proof (cases "?fs = [] \<or> en_plan e \<noteq> None")
    case True
    then show ?thesis
      by (intro exI [of _ "\<lambda>e. (fst (engine_write env s target targetRef sourceRef values base e),
            if ?fs = [] then e else snd (plan_write (the (en_plan e)) s target targetRef sourceRef values e))"])
         (auto simp: engine_write_def Let_def plan_write_def keeps_def case_prod_beta)
  next
    case False
    let ?h = "SnapshotHash (pe_hash env) (merge_values base values) (sy_canonical s)"
    let ?key = "Key (pe_hash env) (sy_name s) (sy_kind s) sourceRef targetRef ?h"
    have "keeps (in_store J) (andThen (idem_begin env ?key) (\<lambda>(previous, decision).
        case decision of
          Replayed \<Rightarrow> ret (replayed_result previous, True)
        | Recheck \<Rightarrow>
            if ref_remote_id targetRef = '''' then throw ErrRecheck
            else andThen (idem_abandon env ?key) (\<lambda>_.
                 andThen (idem_begin env ?key) (\<lambda>_. send env s target targetRef ?fs ?h ?key))
        | Proceed \<Rightarrow> send env s target targetRef ?fs ?h ?key))"
      by (auto split: decision.split intro!: keeps_andThen held)
    with False show ?thesis by (auto simp: engine_write_def Let_def)
  qed
qed

lemma kept_commitPair [held]: "keeps (in_store J) (commitPair env s l r lv rv)"
proof (rule keeps_pointwise)
  fix e :: "('s, 'w) eng"
  have "keeps (in_store J) (andThen (on_store env (\<lambda>ops t. PutLink ops t
              \<lparr>l_left = l, l_right = r, l_linked_at = en_now e\<rparr>)) (\<lambda>_.
           for_each (commit_side env s (en_now e)) [(l, lv), (r, rv)]))"
    unfolding commit_side_def
    by (auto intro!: keeps_andThen keeps_for_each on_store_kept held)
  then show "\<exists>m. keeps (in_store J) m \<and> commitPair env s l r lv rv e = m e"
    by (auto simp: commitPair_def Let_def)
qed

lemma kept_dropLink [held]: "keeps (in_store J) (dropLink env a b)"
  unfolding dropLink_def drop_ref_def
  by (auto intro!: keeps_andThen keeps_for_each on_store_kept held split: option.split)

lemma kept_queueReview [held]: "keeps (in_store J) (queueReview env s subject r reason payload)"
  unfolding queueReview_def Let_def by (auto intro!: keeps_andThen on_store_kept held)

lemma kept_create [held]: "keeps (in_store J) (create env s from to fromRef canonical)"
  unfolding create_def Let_def by (auto intro!: keeps_andThen held split: prod.split)

lemma kept_settle_pair [held]: "keeps (in_store J) (settle_pair env s from fromRef targetRef near far)"
  unfolding settle_pair_def apply_resolution_def Let_def
  by (auto intro!: keeps_andThen held split: prod.split action.split)

lemma kept_reconcile [held]:
  "keeps (in_store J) (reconcile env s from to fromRef targetRef canonical hash t)"
proof -
  have drop: "keeps (in_store J)
      (andThen (dropLink env fromRef targetRef) (\<lambda>_. create env s from to fromRef canonical))"
    by (intro keeps_andThen held)
  show ?thesis
    unfolding reconcile_def Let_def
    by (auto intro!: keeps_andThen on_store_kept held keepsD [OF drop]
        keeps_after [OF in_store_engine_get] keepsD [OF kept_settle_pair] split: sum.split)
qed

lemma kept_finish_delete [held]: "keeps (in_store J) (finish_delete env a b)"
  unfolding finish_delete_def by (intro keeps_andThen keeps_ret held)

lemma kept_delete_steps [held]:
  "keeps (in_store J) (andThen (idem_begin env key) (\<lambda>(_, decision0).
        andThen (if decision0 = Recheck
                 then andThen (idem_abandon env key) (\<lambda>_.
                      andThen (idem_begin env key) (\<lambda>(_, d). ret d))
                 else ret decision0) (\<lambda>decision.
        andThen (if decision = Proceed then send_delete env s to peer key else ret ()) (\<lambda>_.
        finish_delete env fromRef peer))))"
  unfolding send_delete_def by (auto intro!: keeps_andThen held)

lemma kept_processDelete [held]: "keeps (in_store J) (processDelete env s from to ev)"
proof -
  have peer: "keeps (in_store J) (\<lambda>e. case en_plan e of
        Some p \<Rightarrow> finish_delete env fromRef peer (e\<lparr>en_plan := Some (f p)\<rparr>) | None \<Rightarrow> m e)"
    if "keeps (in_store J) m" for fromRef peer f m
    by (rule keepsI) (use keepsD [OF that] keepsD [OF kept_finish_delete] in \<open>auto split: option.split\<close>)
  show ?thesis
    unfolding processDelete_def Let_def
    by (auto intro!: keeps_andThen on_store_kept held peer split: option.split)
qed

lemma kept_process [held]: "keeps (in_store J) (process env name ev)"
  unfolding process_def process_record_def Let_def
  by (auto intro!: keeps_andThen on_store_kept held split: option.split sum.split outcome.split)

end


section \<open>A whole cycle\<close>

text \<open>
  What the parts of a cycle keep of the engine's state, the cycle keeps. This needs nothing about
  the store or the peers, only that the property does not look at the counters.
\<close>

definition in_run :: "(('s, 'w) eng \<Rightarrow> bool) \<Rightarrow> ('s, 'w) rt \<Rightarrow> bool" where
  "in_run I r \<longleftrightarrow> I (rt_eng r)"

lemma in_run_other [simp]:
  "in_run I (r\<lparr>rt_queue := q\<rparr>) = in_run I r"
  "in_run I (r\<lparr>rt_handles := n\<rparr>) = in_run I r"
  "in_run I (r\<lparr>rt_draws := n\<rparr>) = in_run I r"
  "in_run I (r\<lparr>rt_eng := e\<rparr>) = I e"
  by (simp_all add: in_run_def)

lemma in_run_on_eng: "keeps I m \<Longrightarrow> keeps (in_run I) (on_eng m)"
  by (simp add: keeps_def on_eng_def in_run_def case_prod_beta)

locale run_kept =
  fixes env :: "('s, 'w) env" and I :: "('s, 'w) eng \<Rightarrow> bool"
  assumes kept_process: "keeps I (process env name ev)"
    and kept_deadLetter: "keeps I (deadLetter env os ev n err)"
    and kept_Poll: "keeps I (Poll env s p)"
    and kept_Advance: "keeps I (on_store env (\<lambda>ops now. Advance ops now name kind t))"
    and kept_items: "keeps I (on_store env (\<lambda>ops now. ListQueueItems ops now c limit))"
    and kept_describe: "keeps I (on_world (\<lambda>now. co_describe (pe_conn env) name now kind))"
    and uncounted [simp]: "I (e\<lparr>en_stats := st\<rparr>) = I e"
begin

lemma in_run_Submit [simp]: "in_run I (snd (Submit name ev r)) = in_run I r"
  by (simp add: Submit_def Let_def case_prod_beta in_run_def)

lemma in_run_submit_events [simp]: "in_run I (snd (submit_events name evs r)) = in_run I r"
  by (induction evs arbitrary: r) (simp_all add: case_prod_beta)

lemma in_run_submit_all [simp]: "in_run I (snd (submit_all xs r)) = in_run I r"
  by (induction xs arbitrary: r) (simp_all add: case_prod_beta submit_result_def)

lemma run_runTask: "in_run I r \<Longrightarrow> in_run I (runTask env rnd t r)"
  using keepsD [OF kept_process] keepsD [OF kept_deadLetter]
  by (auto simp: runTask_def Let_def in_run_def split: prod.split sum.split) (metis snd_conv)+

lemma run_Drain: "in_run I r \<Longrightarrow> in_run I (Drain env rnd r)"
proof (induction "attempts_left (pe_max_attempts env) (rt_queue r)" arbitrary: r rule: less_induct)
  case less
  show ?case
  proof (cases "next_task (en_now (rt_eng r)) (rt_queue r)")
    case (Pair x q)
    show ?thesis
    proof (cases x)
      case (Some t)
      with Pair have left: "attempts_left (pe_max_attempts env) (rt_queue (runTask env rnd t (r\<lparr>rt_queue := q\<rparr>)))
          < attempts_left (pe_max_attempts env) (rt_queue r)"
        using runTask_attempts [of env rnd t "r\<lparr>rt_queue := q\<rparr>"] by (simp add: attempts_left_next)
      have "in_run I (Drain env rnd (runTask env rnd t (r\<lparr>rt_queue := q\<rparr>)))"
        by (rule less.hyps [OF left]) (simp add: run_runTask less.prems)
      with Pair Some less.prems show ?thesis by (subst Drain.simps) simp
    qed (use Pair less.prems in \<open>subst Drain.simps, simp\<close>)
  qed
qed

lemma run_poll_each: "I e \<Longrightarrow> I (snd (poll_each env targets e))"
proof (induction targets arbitrary: e)
  case (Cons t targets)
  then show ?case using keepsD [OF kept_Poll] by (cases t) (simp add: case_prod_beta)
qed simp

lemma run_PollAll: "in_run I r \<Longrightarrow> in_run I (snd (PollAll env r))"
  using run_poll_each [of "rt_eng r"] by (simp add: PollAll_def case_prod_beta) (simp add: in_run_def)

lemma run_Commit_poll: "Commit_poll env sel x r = Some (y, r') \<Longrightarrow> in_run I r \<Longrightarrow> in_run I r'"
  using keepsD [OF in_run_on_eng [OF kept_Advance]]
  by (auto simp: Commit_poll_def split: option.splits sum.splits) (metis snd_conv)

lemma run_commit_each: "commit_each env sel xs r = Some (errs, r') \<Longrightarrow> in_run I r \<Longrightarrow> in_run I r'"
  by (induction xs arbitrary: r errs) (auto dest: run_Commit_poll split: option.splits prod.splits)

lemma run_Cycle: "Cycle env rnd sel r = Some (err, r') \<Longrightarrow> in_run I r \<Longrightarrow> in_run I r'"
  using run_PollAll [of r]
  by (auto simp: Cycle_def dest!: run_commit_each intro: run_Drain split: option.splits prod.splits)

lemma run_validate_all: "I e \<Longrightarrow> I (snd (validate_all env ss e))"
proof (induction ss arbitrary: e)
  case (Cons s ss)
  have "I (snd (validate_sync env s e))"
    using keepsD [OF kept_describe] Cons.prems
    by (auto simp: validate_sync_def split: prod.split sum.split option.split) (metis snd_conv)+
  then show ?case using Cons.IH by (simp add: case_prod_beta)
qed simp

lemma run_Validate: "I e \<Longrightarrow> I (snd (engine_Validate env e))"
  using run_validate_all by (simp add: engine_Validate_def case_prod_beta)

lemma run_items: "keeps (in_run I) (on_eng (Reviews env limit))" "keeps (in_run I) (on_eng (DeadLetters env limit))"
  unfolding Reviews_def DeadLetters_def by (intro in_run_on_eng kept_items)+

end


lemma keeps_poll_records:
  assumes "\<And>rec. keeps I (index_seen env s p rec)"
  shows "keeps I (poll_records env s p now recs result)"
  by (induction recs arbitrary: result) (auto intro!: keeps_andThen assms)

lemma keeps_poll_pages:
  assumes list: "\<And>cursor. keeps I (list_changed env s p since cursor)"
    and seen: "\<And>rec. keeps I (index_seen env s p rec)"
  shows "keeps I (poll_pages env s p since now pages cursor result)"
proof (induction "nat (maxPages + 1 - pages)" arbitrary: pages cursor result rule: less_induct)
  case less
  have next_page: "keeps I (poll_pages env s p since now (pages + 1) cursor' result')"
    if "\<not> pages > maxPages" for cursor' result'
    by (rule less) (use that in auto)
  have "keeps I (andThen (list_changed env s p since cursor) (\<lambda>page.
      andThen (poll_records env s p now (pg_records page) result) (\<lambda>result1 e1.
        let result2 = result1\<lparr>po_events := po_events result1 @ map (deleted_event s p now) (pg_deleted page)\<rparr>
        in if \<not> HasMore page then (Inr result2, e1)
           else if pages > maxPages then
             (Inl (ErrText (''polling '' @ pr_name p @ '' for '' @ sy_kind s @ '': paging did not terminate after ''
                            @ itoa maxPages @ '' pages'')), e1)
           else poll_pages env s p since now (pages + 1) (pg_cursor page) result2 e1)))" (is "keeps I ?m")
    by (rule keeps_andThen [OF list], rule keeps_andThen [OF keeps_poll_records [OF seen]], rule keepsI)
       (use keepsD [OF next_page] in \<open>simp add: Let_def\<close>)
  moreover have "poll_pages env s p since now pages cursor result = ?m"
    by (rule ext) (subst poll_pages.simps, rule refl)
  ultimately show ?case by simp
qed

lemma keeps_Poll:
  assumes "keeps I (on_store env (\<lambda>ops now. Since ops (pe_marks env) now (pr_name p) (sy_kind s)))"
    and "\<And>since cursor. keeps I (list_changed env s p since cursor)" and "\<And>rec. keeps I (index_seen env s p rec)"
  shows "keeps I (Poll env s p)"
  unfolding Poll_def
  by (rule keeps_andThen [OF assms(1)]) (rule keepsI, rule keepsD [OF keeps_poll_pages [OF assms(2,3)]])

lemma keeps_list_changed:
  assumes "keeps I (bucket_wait env p)" and "keeps I (on_bucket p (\<lambda>_. Success))" and "\<And>err. keeps I (noteFailure p err)"
    and "keeps I (on_world (\<lambda>now. co_list (pe_conn env) (pr_name p) now (sy_kind s) since cursor))"
  shows "keeps I (list_changed env s p since cursor)"
  unfolding list_changed_def
  by (rule keeps_andThen [OF assms(1)], rule keeps_after [OF keeps_guarded]) (use assms in auto)

text \<open>What the store operations keep, a whole run keeps.\<close>

context engine_kept
begin

lemma kept_dead [held]: "keeps (in_store J) (deadLetter env os ev n err)"
proof -
  have dead: "keeps (in_store J) (\<lambda>e. on_store env (f e) (e\<lparr>en_seq := g e\<rparr>))"
    if "\<And>e. keeps (in_store J) (on_store env (f e))" for f :: "_ \<Rightarrow> _ \<Rightarrow> _ \<Rightarrow> (_, _, unit) st" and g
    by (rule keepsI) (simp add: keepsD [OF that])
  show ?thesis
    unfolding deadLetter_def enqueueItem_def Let_def
    by (auto intro!: keeps_andThen dead on_store_kept held)
qed

lemma kept_poll: "keeps (in_store J) (Poll env s p)"
  by (intro keeps_Poll keeps_list_changed)
     (auto simp: index_seen_def intro!: on_store_kept held split: sum.split)

end

sublocale engine_kept \<subseteq> run: run_kept env "in_store J"
  by unfold_locales (auto intro!: held kept_poll on_store_kept)

text \<open>What the reads of the peers keep, a whole dry run keeps.\<close>

definition dry :: "('w \<Rightarrow> bool) \<Rightarrow> ('s, 'w) eng \<Rightarrow> bool" where
  "dry Q = outside (\<lambda>w p. Q w \<and> p \<noteq> None)"

locale peers_read =
  fixes env :: "('s, 'w) env" and Q :: "'w \<Rightarrow> bool"
  assumes get_keeps: "Q w \<Longrightarrow> Q (snd (co_get (pe_conn env) name now kind rid w))"
    and list_keeps: "Q w \<Longrightarrow> Q (snd (co_list (pe_conn env) name now kind since cursor w))"
    and describe_keeps: "Q w \<Longrightarrow> Q (snd (co_describe (pe_conn env) name now kind w))"

sublocale peers_read \<subseteq> dry: run_kept env "dry Q"
proof unfold_locales
  have dead: "keeps (dry Q) (\<lambda>e. on_store env (f e) (e\<lparr>en_seq := g e\<rparr>))" for f :: "_ \<Rightarrow> _ \<Rightarrow> _ \<Rightarrow> (_, _, unit) st" and g
    by (rule keepsI) (simp add: keepsD [OF keeps_on_store] dry_def)
  show "keeps (dry Q) (deadLetter env os ev n err)" for os ev n err
    unfolding deadLetter_def enqueueItem_def Let_def
    by (auto intro!: keeps_andThen dead) (simp add: dry_def inner)
  show "keeps (dry Q) (process env name ev)" for name ev
    unfolding dry_def by (rule keeps_process_dry) (rule get_keeps)
  show "keeps (dry Q) (Poll env s p)" for s p
    unfolding dry_def index_seen_def
    by (intro keeps_Poll keeps_list_changed)
       (auto simp: index_seen_def intro!: inner keeps_on_world list_keeps split: sum.split)
qed (auto simp: dry_def intro!: inner keeps_on_world describe_keeps)

end
