(* ===== verification/Doctor.thy ===== *)
theory Doctor
  imports Store_Access
begin

text \<open>
  \<^verbatim>\<open>internal/engine/doctor.go\<close>: the checks made without writing to a peer. The value the store
  check writes and takes back is never decoded, so it is a parameter; the connectors are asked
  through \<open>conn_ops\<close>.
\<close>

section \<open>Diagnoses\<close>

record check =
  ck_name :: string
  ck_subject :: string
  ck_ok :: bool
  ck_detail :: string

record diagnosis =
  dg_checks :: "check list"

definition diagnosis_OK :: "diagnosis \<Rightarrow> bool" where
  "diagnosis_OK d \<longleftrightarrow> list_all ck_ok (dg_checks d)"

definition Failures :: "diagnosis \<Rightarrow> check list" where
  "Failures d = filter (\<lambda>c. \<not> ck_ok c) (dg_checks d)"

definition pass_check :: "string \<Rightarrow> string \<Rightarrow> string \<Rightarrow> diagnosis \<Rightarrow> diagnosis" where
  "pass_check name subject detail d =
     d\<lparr>dg_checks := dg_checks d @ [\<lparr>ck_name = name, ck_subject = subject, ck_ok = True, ck_detail = detail\<rparr>]\<rparr>"

definition fail_check :: "string \<Rightarrow> string \<Rightarrow> string \<Rightarrow> diagnosis \<Rightarrow> diagnosis" where
  "fail_check name subject detail d =
     d\<lparr>dg_checks := dg_checks d @ [\<lparr>ck_name = name, ck_subject = subject, ck_ok = False, ck_detail = detail\<rparr>]\<rparr>"

text \<open>\<^verbatim>\<open>Duration.Round\<close>, half away from zero, saturating.\<close>

definition dur_round :: "duration \<Rightarrow> duration \<Rightarrow> duration" where
  "dur_round m d =
     (if m \<le> 0 then d
      else if d < 0 then
        (let r = (- d) mod m in if 2 * r < m then d + r
         else (let d1 = wrap64 (d - m + r) in if d1 < d then d1 else - (2 ^ 63)))
      else
        (let r = d mod m in if 2 * r < m then d - r
         else (let d1 = wrap64 (d + m - r) in if d1 > d then d1 else 2 ^ 63 - 1)))"

section \<open>The checks\<close>

definition checkStore :: "('s, 'w) env \<Rightarrow> string \<Rightarrow> doc \<Rightarrow> ('s, 'w) eng \<Rightarrow> diagnosis \<Rightarrow> diagnosis \<times> ('s, 'w) eng" where
  "checkStore env stateDir probe e d =
     (case on_store env (\<lambda>ops now. so_put ops now CollIdem ''doctor-probe'' probe (now + minute)) e of
        (Inl err, e1) \<Rightarrow> (fail_check ''store'' stateDir (''cannot write: '' @ err_text err) d, e1)
      | (Inr _, e1) \<Rightarrow>
          (case on_store env (\<lambda>ops now. so_take ops now CollIdem ''doctor-probe'') e1 of
             (Inl err, e2) \<Rightarrow> (fail_check ''store'' stateDir
               (''wrote a probe and could not read it back: ok=false err='' @ err_text err) d, e2)
           | (Inr None, e2) \<Rightarrow> (fail_check ''store'' stateDir
               ''wrote a probe and could not read it back: ok=false err=<nil>'' d, e2)
           | (Inr (Some _), e2) \<Rightarrow> (pass_check ''store'' stateDir ''readable and writable'' d, e2)))"

definition sync_targets :: "sync list \<Rightarrow> (peer \<times> string) list" where
  "sync_targets ss = concat (map (\<lambda>s. [(sy_left s, sy_kind s), (sy_right s, sy_kind s)]) ss)"

definition target_key :: "peer \<times> string \<Rightarrow> string" where
  "target_key t = pr_name (fst t) @ nul # snd t"

fun unseen :: "string list \<Rightarrow> (peer \<times> string) list \<Rightarrow> (peer \<times> string) list" where
  "unseen seen [] = []"
| "unseen seen (t # ts) =
     (if target_key t \<in> set seen then unseen seen ts else t # unseen (target_key t # seen) ts)"

definition describe :: "('s, 'w) env \<Rightarrow> peer \<Rightarrow> string \<Rightarrow> (('s, 'w) eng, gerr, schema) st" where
  "describe env p kind = on_world (\<lambda>now. co_describe (pe_conn env) (pr_name p) now kind)"

definition subject_of :: "peer \<times> string \<Rightarrow> string" where
  "subject_of t = pr_name (fst t) @ ''/'' @ snd t"

fun check_described :: "('s, 'w) env \<Rightarrow> (peer \<times> string) list \<Rightarrow> ('s, 'w) eng \<Rightarrow> diagnosis \<Rightarrow> diagnosis \<times> ('s, 'w) eng" where
  "check_described env [] e d = (d, e)"
| "check_described env (t # ts) e d =
     (case describe env (fst t) (snd t) e of
        (Inl err, e1) \<Rightarrow> check_described env ts e1 (fail_check ''connector'' (subject_of t) (err_text err) d)
      | (Inr schema, e1) \<Rightarrow> check_described env ts e1
          (pass_check ''connector'' (subject_of t) (itoa (int (length (sc_fields schema))) @ '' fields'') d))"

definition checkConnectors :: "('s, 'w) env \<Rightarrow> ('s, 'w) eng \<Rightarrow> diagnosis \<Rightarrow> diagnosis \<times> ('s, 'w) eng" where
  "checkConnectors env = check_described env (unseen [] (sync_targets (pe_sync_list env)))"

fun check_mapped :: "('s, 'w) env \<Rightarrow> sync list \<Rightarrow> ('s, 'w) eng \<Rightarrow> diagnosis \<Rightarrow> diagnosis \<times> ('s, 'w) eng" where
  "check_mapped env [] e d = (d, e)"
| "check_mapped env (s # ss) e d =
     (case describe env (sy_left s) (sy_kind s) e of (left, e1) \<Rightarrow>
     (case describe env (sy_right s) (sy_kind s) e1 of (right, e2) \<Rightarrow>
        check_mapped env ss e2
          (case (left, right) of
             (Inr l, Inr r) \<Rightarrow>
               (case Validate (sy_mapper s) l r of
                  Some err \<Rightarrow> fail_check ''mapping'' (sy_name s) (err_text err) d
                | None \<Rightarrow> pass_check ''mapping'' (sy_name s)
                    (itoa (int (length (m_fields (sy_mapper s)))) @ '' fields, '' @ m_direction (sy_mapper s)) d)
           | _ \<Rightarrow> d)))"

definition checkMappings :: "('s, 'w) env \<Rightarrow> ('s, 'w) eng \<Rightarrow> diagnosis \<Rightarrow> diagnosis \<times> ('s, 'w) eng" where
  "checkMappings env = check_mapped env (pe_sync_list env)"

fun check_marks :: "('s, 'w) env \<Rightarrow> (peer \<times> string) list \<Rightarrow> ('s, 'w) eng \<Rightarrow> diagnosis \<Rightarrow> diagnosis \<times> ('s, 'w) eng" where
  "check_marks env [] e d = (d, e)"
| "check_marks env (t # ts) e d =
     (case on_store env (\<lambda>ops now. Lag ops now (pr_name (fst t)) (snd t)) e of
        (Inl err, e1) \<Rightarrow> check_marks env ts e1 (fail_check ''watermark'' (subject_of t) (err_text err) d)
      | (Inr None, e1) \<Rightarrow> check_marks env ts e1 (pass_check ''watermark'' (subject_of t) ''not set yet; the next run backfills'' d)
      | (Inr (Some lag), e1) \<Rightarrow>
          check_marks env ts e1 (pass_check ''watermark'' (subject_of t) (dur_string (dur_round second lag) @ '' behind'') d))"

definition checkProgress :: "('s, 'w) env \<Rightarrow> ('s, 'w) eng \<Rightarrow> diagnosis \<Rightarrow> diagnosis \<times> ('s, 'w) eng" where
  "checkProgress env =
     check_marks env (unseen [] (map (\<lambda>(s, p). (p, sy_kind s)) (all_targets env)))"

fun check_queue :: "('s, 'w) env \<Rightarrow> (string \<times> string \<times> string) list \<Rightarrow> ('s, 'w) eng \<Rightarrow> diagnosis \<Rightarrow> diagnosis \<times> ('s, 'w) eng" where
  "check_queue env [] e d = (d, e)"
| "check_queue env ((collection, name, detail) # qs) e d =
     (case on_store env (\<lambda>ops now. so_len ops now collection) e of
        (Inl err, e1) \<Rightarrow> check_queue env qs e1 (fail_check ''queue'' name (err_text err) d)
      | (Inr n, e1) \<Rightarrow>
          check_queue env qs e1
            (if n = 0 then pass_check ''queue'' name ''empty'' d
             else fail_check ''queue'' name (itoa n @ '' '' @ detail) d))"

definition checkQueues :: "('s, 'w) env \<Rightarrow> ('s, 'w) eng \<Rightarrow> diagnosis \<Rightarrow> diagnosis \<times> ('s, 'w) eng" where
  "checkQueues env = check_queue env
     [(CollDLQ, ''dead-letter queue'', ''items that exhausted their attempts''),
      (CollReview, ''review queue'', ''decisions waiting for a person'')]"

definition Doctor :: "('s, 'w) env \<Rightarrow> string \<Rightarrow> doc \<Rightarrow> ('s, 'w) eng \<Rightarrow> diagnosis \<times> ('s, 'w) eng" where
  "Doctor env stateDir probe e0 =
     (case checkStore env stateDir probe e0 \<lparr>dg_checks = []\<rparr> of (d1, e1) \<Rightarrow>
     (case checkConnectors env e1 d1 of (d2, e2) \<Rightarrow>
     (case checkMappings env e2 d2 of (d3, e3) \<Rightarrow>
     (case checkProgress env e3 d3 of (d4, e4) \<Rightarrow>
        checkQueues env e4 d4))))"


section \<open>What a diagnosis says\<close>

lemma OK_pass [simp]: "diagnosis_OK (pass_check name subject detail d) = diagnosis_OK d"
  and OK_fail [simp]: "\<not> diagnosis_OK (fail_check name subject detail d)"
  and OK_empty [simp]: "diagnosis_OK \<lparr>dg_checks = []\<rparr>"
  by (simp_all add: diagnosis_OK_def pass_check_def fail_check_def)

text \<open>Every target is looked at under its key.\<close>

lemma unseen_keys: "target_key ` set (unseen seen ts) \<union> set seen = target_key ` set ts \<union> set seen"
  by (induction seen ts rule: unseen.induct) auto

lemma unseen_subset: "set (unseen seen ts) \<subseteq> set ts"
  by (induction seen ts rule: unseen.induct) auto

lemma target_key_inj:
  assumes "nul \<notin> set (pr_name (fst t))" "nul \<notin> set (pr_name (fst u))"
  shows "target_key t = target_key u \<longleftrightarrow> pr_name (fst t) = pr_name (fst u) \<and> snd t = snd u"
  using assms by (simp add: target_key_def sep_eq_iff)

lemma unseen_all:
  assumes "\<forall>t \<in> set ts. nul \<notin> set (pr_name (fst t))"
  shows "(\<forall>t \<in> set (unseen [] ts). P (pr_name (fst t)) (snd t)) \<longleftrightarrow> (\<forall>t \<in> set ts. P (pr_name (fst t)) (snd t))"
proof
  assume seen: "\<forall>t \<in> set (unseen [] ts). P (pr_name (fst t)) (snd t)"
  show "\<forall>t \<in> set ts. P (pr_name (fst t)) (snd t)"
  proof
    fix t assume t: "t \<in> set ts"
    then have "target_key t \<in> target_key ` set (unseen [] ts)" using unseen_keys [of "[]" ts] by auto
    then obtain u where u: "u \<in> set (unseen [] ts)" "target_key u = target_key t" by auto
    with t assms unseen_subset [of "[]" ts] have "pr_name (fst u) = pr_name (fst t) \<and> snd u = snd t"
      by (intro iffD1 [OF target_key_inj]) auto
    with seen u(1) show "P (pr_name (fst t)) (snd t)" by metis
  qed
qed (use unseen_subset [of "[]" ts] in auto)

lemma mem_len_zero:
  assumes "mem_ok m"
  obtains n where "mem_len now c m = (Inr n, m)" "n = 0 \<longleftrightarrow> (\<forall>k. mem_view m now c k = None)"
proof
  show "mem_len now c m = (Inr (int (length (live_keys now (mem_coll m c)))), m)"
    using assms by (simp add: mem_len_def mem_ok_open)
  have "k \<in> set (live_keys now (mem_coll m c)) \<longleftrightarrow> mem_view m now c k \<noteq> None" for k
    using live_keys_view [OF mem_ok_coll [OF assms]] by (simp add: mem_view_def)
  then have "(\<forall>k. mem_view m now c k = None) \<longleftrightarrow> (\<forall>k. k \<notin> set (live_keys now (mem_coll m c)))" by metis
  also have "\<dots> \<longleftrightarrow> live_keys now (mem_coll m c) = []" by (cases "live_keys now (mem_coll m c)") auto
  finally show "int (length (live_keys now (mem_coll m c))) = 0 \<longleftrightarrow> (\<forall>k. mem_view m now c k = None)" by simp
qed

text \<open>A peer that describes itself the same way whenever it is asked.\<close>

definition described_by :: "('s, 'w) env \<Rightarrow> (string \<Rightarrow> string \<Rightarrow> gerr + schema) \<Rightarrow> bool" where
  "described_by env sch \<longleftrightarrow> (\<forall>n now kind w. co_describe (pe_conn env) n now kind w = (sch n kind, w))"

lemma describe_stable: "described_by env sch \<Longrightarrow> describe env p kind e = (sch (pr_name p) kind, e)"
  by (simp add: describe_def on_world_def described_by_def)

lemma check_described_stable:
  assumes "described_by env sch"
  shows "\<exists>d'. check_described env ts e d = (d', e) \<and>
    (diagnosis_OK d' \<longleftrightarrow> diagnosis_OK d \<and> (\<forall>t \<in> set ts. \<exists>x. sch (pr_name (fst t)) (snd t) = Inr x))"
proof (induction ts arbitrary: d)
  case (Cons t ts)
  show ?case
  proof (cases "sch (pr_name (fst t)) (snd t)")
    case (Inl err)
    with Cons.IH [of "fail_check ''connector'' (subject_of t) (err_text err) d"] show ?thesis
      by (auto simp: describe_stable [OF assms])
  next
    case (Inr x)
    with Cons.IH [of "pass_check ''connector'' (subject_of t) (itoa (int (length (sc_fields x))) @ '' fields'') d"]
    show ?thesis by (auto simp: describe_stable [OF assms])
  qed
qed simp

text \<open>Both schemas of a sync are there, and its mapping fits them.\<close>

definition mapping_valid :: "(string \<Rightarrow> string \<Rightarrow> gerr + schema) \<Rightarrow> sync \<Rightarrow> bool" where
  "mapping_valid sch s \<longleftrightarrow> (\<exists>l r. sch (pr_name (sy_left s)) (sy_kind s) = Inr l \<and>
     sch (pr_name (sy_right s)) (sy_kind s) = Inr r \<and> Validate (sy_mapper s) l r = None)"

lemma check_mapped_stable:
  assumes "described_by env sch"
    and "\<forall>s \<in> set ss. (\<exists>l. sch (pr_name (sy_left s)) (sy_kind s) = Inr l) \<and> (\<exists>r. sch (pr_name (sy_right s)) (sy_kind s) = Inr r)"
  shows "\<exists>d'. check_mapped env ss e d = (d', e) \<and> (diagnosis_OK d' \<longleftrightarrow> diagnosis_OK d \<and> (\<forall>s \<in> set ss. mapping_valid sch s))"
  using assms(2)
proof (induction ss arbitrary: d)
  case (Cons s ss)
  then obtain l r where lr: "sch (pr_name (sy_left s)) (sy_kind s) = Inr l" "sch (pr_name (sy_right s)) (sy_kind s) = Inr r"
    by auto
  let ?d = "case Validate (sy_mapper s) l r of
      Some err \<Rightarrow> fail_check ''mapping'' (sy_name s) (err_text err) d
    | None \<Rightarrow> pass_check ''mapping'' (sy_name s)
        (itoa (int (length (m_fields (sy_mapper s)))) @ '' fields, '' @ m_direction (sy_mapper s)) d"
  have ok: "diagnosis_OK ?d \<longleftrightarrow> diagnosis_OK d \<and> mapping_valid sch s"
    by (auto simp: mapping_valid_def lr split: option.split)
  from Cons.IH [of ?d] Cons.prems obtain d' where d': "check_mapped env ss e ?d = (d', e)"
    "diagnosis_OK d' \<longleftrightarrow> diagnosis_OK ?d \<and> (\<forall>s \<in> set ss. mapping_valid sch s)" by auto
  have "check_mapped env (s # ss) e d = (d', e)" by (simp add: describe_stable [OF assms(1)] lr d'(1))
  with d'(2) ok show ?case by auto
qed simp

lemma check_mapped_same:
  assumes "described_by env sch"
  shows "snd (check_mapped env ss e d) = e"
  by (induction ss arbitrary: d) (simp_all add: describe_stable [OF assms])

lemma check_mapped_OK:
  assumes "described_by env sch" "\<not> diagnosis_OK d"
  shows "\<not> diagnosis_OK (fst (check_mapped env ss e d))"
  using assms(2)
  by (induction ss arbitrary: d) (auto simp: describe_stable [OF assms(1)] split: sum.split option.split)

lemma validate_all_stable:
  assumes "described_by env sch"
  shows "\<exists>errs. validate_all env ss e = (errs, e) \<and> (errs = [] \<longleftrightarrow> (\<forall>s \<in> set ss. mapping_valid sch s))"
proof (induction ss)
  case (Cons s ss)
  have "\<exists>errs. validate_sync env s e = (errs, e) \<and> (errs = [] \<longleftrightarrow> mapping_valid sch s)"
    using describe_stable [OF assms]
    by (auto simp: validate_sync_def mapping_valid_def describe_def [symmetric] split: sum.split option.split)
  with Cons.IH show ?case by auto
qed simp

lemma check_marks_good:
  assumes "pe_store env = mem_ops" "mem_docs.good (en_store e)"
  shows "\<exists>d'. check_marks env ts e d = (d', e) \<and> (diagnosis_OK d' \<longleftrightarrow> diagnosis_OK d)"
proof (induction ts arbitrary: d)
  case (Cons t ts)
  have lag: "on_store env (\<lambda>ops now. Lag ops now n kind) e =
      (Inr (map_option (time_sub (en_now e)) (mem_docs.marked (en_store e) (en_now e) n kind)), e)" for n kind
    by (simp add: on_store_def Lag_def assms(1) andThen_def mem_docs.Watermark_ok [OF assms(2)])
  show ?case
  proof (cases "mem_docs.marked (en_store e) (en_now e) (pr_name (fst t)) (snd t)")
    case None
    then show ?thesis using Cons.IH [of "pass_check ''watermark'' (subject_of t) ''not set yet; the next run backfills'' d"]
      by (auto simp: lag)
  next
    case (Some m)
    then show ?thesis
      using Cons.IH [of "pass_check ''watermark'' (subject_of t) (dur_string (dur_round second (time_sub (en_now e) m)) @ '' behind'') d"]
      by (auto simp: lag)
  qed
qed simp

lemma checkQueues_good:
  assumes "pe_store env = mem_ops" "mem_ok (en_store e)"
  shows "\<exists>d'. checkQueues env e d = (d', e) \<and> (diagnosis_OK d' \<longleftrightarrow> diagnosis_OK d \<and>
    (\<forall>c \<in> {CollDLQ, CollReview}. \<forall>k. mem_view (en_store e) (en_now e) c k = None))"
proof -
  obtain n where n: "mem_len (en_now e) CollDLQ (en_store e) = (Inr n, en_store e)"
    "n = 0 \<longleftrightarrow> (\<forall>k. mem_view (en_store e) (en_now e) CollDLQ k = None)" by (rule mem_len_zero [OF assms(2)])
  obtain m where m: "mem_len (en_now e) CollReview (en_store e) = (Inr m, en_store e)"
    "m = 0 \<longleftrightarrow> (\<forall>k. mem_view (en_store e) (en_now e) CollReview k = None)" by (rule mem_len_zero [OF assms(2)])
  have len: "so_len (pe_store env) = mem_len" by (simp add: assms(1) mem_ops_def)
  show ?thesis
    by (simp add: checkQueues_def on_store_def len n(1) m(1)) (use n(2) m(2) in auto)
qed

lemma checkStore_good:
  assumes "pe_store env = mem_ops" "mem_docs.good (en_store e)"
  shows "\<exists>d' s'. checkStore env dir probe e d = (d', e\<lparr>en_store := s'\<rparr>) \<and> (diagnosis_OK d' \<longleftrightarrow> diagnosis_OK d) \<and>
    mem_docs.good s' \<and> mem_docs.only_at {(CollIdem, ''doctor-probe'')} (en_store e) s'"
proof -
  let ?now = "en_now e"
  have l: "live (?now + minute) ?now" by (simp add: live_def)
  from mem.put [OF mem_docs.good_ok [OF assms(2)], of CollIdem ?now "''doctor-probe''" probe "?now + minute"] l
  obtain s1 where s1: "so_put mem_ops ?now CollIdem ''doctor-probe'' probe (?now + minute) (en_store e) = (Inr (), s1)"
    "mem_ok s1" "mem_view s1 ?now CollIdem ''doctor-probe'' = Some probe"
    "mem_docs.only_at {(CollIdem, ''doctor-probe'')} (en_store e) s1"
    by (auto simp: mem_docs.only_at_def)
  from mem.take [OF s1(2), of CollIdem ?now "''doctor-probe''"]
  obtain s2 where s2: "so_take mem_ops ?now CollIdem ''doctor-probe'' s1 = (Inr (Some probe), s2)" "mem_ok s2"
    "mem_docs.only_at {(CollIdem, ''doctor-probe'')} s1 s2"
    by (auto simp: mem_docs.only_at_def s1(3))
  have gone: "mem_view s2 t CollIdem ''doctor-probe'' = None" for t
    using mem.take_gone [OF s1(2), of CollIdem ?now "''doctor-probe''" t] s2(1) by simp
  have o: "mem_docs.only_at {(CollIdem, ''doctor-probe'')} (en_store e) s2"
    using mem_docs.only_at_trans [OF s1(4) s2(3)] by simp
  have "mem_docs.good s2" by (rule mem_docs.good_only_at [OF assms(2) s2(2) o]) (simp add: gone)
  with o show ?thesis by (auto simp: checkStore_def on_store_def assms(1) s1(1) s2(1))
qed


section \<open>Properties\<close>


definition example_doctor :: "(doc mem, (string \<times> string) list) env" where
  "example_doctor = (example_env ''bidirectional'')\<lparr>pe_conn := example_conn\<lparr>co_describe :=
     (\<lambda>n now kind w. (if n = ''hub'' then Inl (ErrText ''expired token'') else Inr \<lparr>sc_kind = kind, sc_fields = []\<rparr>, w))\<rparr>\<rparr>"


end
