(* ===== verification/Webhook_Ingest.thy ===== *)
theory Webhook_Ingest
  imports Engine_Run
begin

text \<open>
  \<^verbatim>\<open>internal/engine/webhook.go\<close>: inbound deliveries. A request is its method, its path, the
  lookup of its headers and its body, or the error reading the body gave; the answer is the status
  code. Routing to the handler is \<^verbatim>\<open>net/http\<close>'s. Checking the signature and decoding the
  body is the connector's: \<open>co_verify\<close>.
\<close>

section \<open>The handler\<close>

definition maxWebhookBody :: nat where "maxWebhookBody = 4 * 2 ^ 20"

definition deliveryTTL :: duration where "deliveryTTL = 24 * hour"

definition peersNamed :: "('s, 'w) env \<Rightarrow> string \<Rightarrow> peer list" where
  "peersNamed env name = List.map_filter (\<lambda>s. peerByName s name) (pe_sync_list env)"

definition syncsFor :: "('s, 'w) env \<Rightarrow> string \<Rightarrow> string \<Rightarrow> sync list" where
  "syncsFor env connectorName kind =
     filter (\<lambda>s. sy_kind s = kind \<and> peerByName s connectorName \<noteq> None) (pe_sync_list env)"

definition delivery_key :: "change_event \<Rightarrow> string" where
  "delivery_key ev = ev_delivery_id ev @ nul # ev_kind ev @ nul # ev_remote_id ev"

fun submit_to :: "sync list \<Rightarrow> change_event \<Rightarrow> ('s, 'w) rt \<Rightarrow> int \<times> ('s, 'w) rt" where
  "submit_to [] ev r = (0, r)"
| "submit_to (s # ss) ev r =
     (case submit_to ss ev (snd (Submit (sy_name s) ev r)) of (n, r') \<Rightarrow> (n + 1, r'))"

fun ingest_events ::
  "('s, 'w) env \<Rightarrow> string \<Rightarrow> change_event list \<Rightarrow> ('s, 'w) rt \<Rightarrow> (int \<times> gerr list) \<times> ('s, 'w) rt" where
  "ingest_events env name [] r = ((0, []), r)"
| "ingest_events env name (ev0 # evs) r =
     (let ev = ev0\<lparr>ev_source := name\<rparr>;
          (seen, r1) = (if ev_delivery_id ev = '''' then (Inr False, r)
                        else on_eng (on_store env (\<lambda>ops now.
                               SeenDelivery ops now name (delivery_key ev) now (now + deliveryTTL))) r)
      in case seen of
           Inl err \<Rightarrow> (case ingest_events env name evs r1 of ((n, errs), r2) \<Rightarrow> ((n, err # errs), r2))
         | Inr True \<Rightarrow> ingest_events env name evs r1
         | Inr False \<Rightarrow>
             (case submit_to (syncsFor env name (ev_kind ev)) ev r1 of (k, r2) \<Rightarrow>
                (case ingest_events env name evs r2 of ((n, errs), r3) \<Rightarrow> ((k + n, errs), r3))))"

definition ingest :: "('s, 'w) env \<Rightarrow> string \<Rightarrow> change_event list \<Rightarrow> ('s, 'w) rt \<Rightarrow> (int \<times> gerr option) \<times> ('s, 'w) rt" where
  "ingest env name events r =
     (case ingest_events env name events r of ((n, errs), r') \<Rightarrow> ((n, join_errors errs), r'))"

record request =
  rq_method :: string
  rq_path :: string
  rq_header :: "string \<Rightarrow> string"
  rq_body :: "gerr + string"

definition serveWebhook :: "('s, 'w) env \<Rightarrow> request \<Rightarrow> ('s, 'w) rt \<Rightarrow> int \<times> ('s, 'w) rt" where
  "serveWebhook env rq r =
     (if rq_method rq \<noteq> ''POST'' then (405, r)
      else let name = trim_prefix (rq_path rq) ''/webhook/''
      in if name = '''' \<or> CHR ''/'' \<in> set name then (404, r)
      else case peersNamed env name of
        [] \<Rightarrow> (404, r)
      | p # _ \<Rightarrow>
          (case rq_body rq of
             Inl _ \<Rightarrow> (400, r)
           | Inr body0 \<Rightarrow>
               (let body = take maxWebhookBody body0
                in case on_eng (on_world (\<lambda>now. co_verify (pe_conn env) (pr_name p) now (rq_header rq) body)) r of
                     (Inl err, r1) \<Rightarrow> (if KindOf (Some err) = KindAuth then 401 else 400, r1)
                   | (Inr events, r1) \<Rightarrow>
                       (case ingest env name events r1 of
                          ((_, Some _), r2) \<Rightarrow> (500, r2)
                        | ((_, None), r2) \<Rightarrow> (202, r2)))))"

section \<open>What a delivery leaves behind\<close>

definition wanted :: "('s, 'w) env \<Rightarrow> string \<Rightarrow> change_event \<Rightarrow> (string \<times> change_event) list" where
  "wanted env name ev = map (\<lambda>s. (sy_name s, ev\<lparr>ev_source := name\<rparr>)) (syncsFor env name (ev_kind ev))"

definition work_of :: "task \<Rightarrow> string \<times> change_event" where
  "work_of t = (tk_sync t, tk_event t)"

lemma submit_to_ok:
  assumes "submit_to ss ev r = (n, r')" "\<not> wq_closed (rt_queue r)"
  shows "n = int (length ss)" "image_mset work_of (queued (rt_queue r')) =
      image_mset work_of (queued (rt_queue r)) + mset (map (\<lambda>s. (sy_name s, ev)) ss)"
    "\<not> wq_closed (rt_queue r')" "en_store (rt_eng r') = en_store (rt_eng r)" "en_now (rt_eng r') = en_now (rt_eng r)"
proof -
  have "n = int (length ss) \<and> image_mset work_of (queued (rt_queue r')) =
      image_mset work_of (queued (rt_queue r)) + mset (map (\<lambda>s. (sy_name s, ev)) ss) \<and>
    \<not> wq_closed (rt_queue r') \<and> en_store (rt_eng r') = en_store (rt_eng r) \<and> en_now (rt_eng r') = en_now (rt_eng r)"
    using assms
  proof (induction ss ev r arbitrary: n r' rule: submit_to.induct)
    case (2 s ss ev r)
    let ?r = "snd (Submit (sy_name s) ev r)"
    obtain m where m: "submit_to ss ev ?r = (m, r')" "n = m + 1" using "2.prems"(1) by (auto split: prod.splits)
    have "\<exists>t. queued (rt_queue ?r) = add_mset t (queued (rt_queue r)) \<and> work_of t = (sy_name s, ev)"
      "\<not> wq_closed (rt_queue ?r)" "en_store (rt_eng ?r) = en_store (rt_eng r)" "en_now (rt_eng ?r) = en_now (rt_eng r)"
      using "2.prems"(2) by (auto simp: Submit_def Let_def push_def) (auto simp: queued_def work_of_def)
    with "2.IH" [OF m(1)] m(2) show ?case by auto
  qed simp
  then show "n = int (length ss)" "image_mset work_of (queued (rt_queue r')) =
      image_mset work_of (queued (rt_queue r)) + mset (map (\<lambda>s. (sy_name s, ev)) ss)"
    "\<not> wq_closed (rt_queue r')" "en_store (rt_eng r') = en_store (rt_eng r)" "en_now (rt_eng r') = en_now (rt_eng r)"
    by auto
qed

context doc_store
begin

definition delivered :: "'s \<Rightarrow> gotime \<Rightarrow> string \<Rightarrow> change_event \<Rightarrow> bool" where
  "delivered s now name ev \<longleftrightarrow> view s now CollDeliveries (name @ nul # delivery_key ev) \<noteq> None"

lemma seen_ok:
  assumes env: "pe_store env = ops" and g: "good (en_store (rt_eng r))"
  obtains r1 where
    "on_eng (on_store env (\<lambda>ops now. SeenDelivery ops now name (delivery_key ev) now (now + deliveryTTL))) r =
       (Inr (delivered (en_store (rt_eng r)) (en_now (rt_eng r)) name ev), r1)"
    "good (en_store (rt_eng r1))" "rt_queue r1 = rt_queue r" "en_now (rt_eng r1) = en_now (rt_eng r)"
    "delivered (en_store (rt_eng r)) (en_now (rt_eng r)) name ev \<Longrightarrow> r1 = r"
    "\<not> delivered (en_store (rt_eng r)) (en_now (rt_eng r)) name ev \<Longrightarrow>
       only_at {(CollDeliveries, name @ nul # delivery_key ev)} (en_store (rt_eng r)) (en_store (rt_eng r1))"
    "\<And>t. live (en_now (rt_eng r) + deliveryTTL) t \<Longrightarrow>
       \<not> delivered (en_store (rt_eng r)) (en_now (rt_eng r)) name ev \<Longrightarrow> delivered (en_store (rt_eng r1)) t name ev"
proof (cases "delivered (en_store (rt_eng r)) (en_now (rt_eng r)) name ev")
  case True
  then show thesis using g
    by (intro that [of r])
       (simp_all add: on_eng_def on_store_eq [OF env] SeenDelivery_def Let_def andThen_def get [OF good_ok [OF g]] delivered_def)
next
  case False
  let ?now = "en_now (rt_eng r)" and ?k = "name @ nul # delivery_key ev"
  obtain c where c: "put_doc ops ''store: encode delivery'' ?now CollDeliveries ?k (DocNano (unix_nano ?now))
      (?now + deliveryTTL) (en_store (rt_eng r)) = (Inr (), c)" "good c"
    "only_at {(CollDeliveries, ?k)} (en_store (rt_eng r)) c"
    "\<And>t. view c t CollDeliveries ?k = (if live (?now + deliveryTTL) t then Some (stored (DocNano (unix_nano ?now))) else None)"
    by (rule put_doc_ok [OF g coll_name_simps(6), of "DocNano (unix_nano ?now)"
          "''store: encode delivery''" ?now ?k "?now + deliveryTTL"]) (auto simp: fits_def)
  show thesis
    by (rule that [of "r\<lparr>rt_eng := (rt_eng r)\<lparr>en_store := c\<rparr>\<rparr>"])
       (use False c in \<open>simp_all add: on_eng_def on_store_eq [OF env] SeenDelivery_def Let_def andThen_def
          get [OF good_ok [OF g]] delivered_def\<close>)
qed

end

lemma delivery_key_source [simp]: "delivery_key (ev\<lparr>ev_source := name\<rparr>) = delivery_key ev"
  by (simp add: delivery_key_def)

context doc_store
begin

lemma delivered_source [simp]: "delivered s t name (ev\<lparr>ev_source := n\<rparr>) = delivered s t name ev"
  by (simp add: delivered_def)

lemma delivered_only_at:
  "only_at {(CollDeliveries, name @ nul # delivery_key ev)} s s' \<Longrightarrow> delivery_key ev' \<noteq> delivery_key ev \<Longrightarrow>
   delivered s' t name ev' = delivered s t name ev'"
  by (simp add: delivered_def only_at_def)

lemma ingest_again:
  assumes env: "pe_store env = ops" and g: "good (en_store (rt_eng r))"
    and d: "\<forall>ev \<in> set events. ev_delivery_id ev \<noteq> '''' \<and> delivered (en_store (rt_eng r)) (en_now (rt_eng r)) name ev"
  shows "ingest_events env name events r = ((0, []), r)"
  using d
proof (induction events)
  case (Cons ev evs)
  obtain r1 where "on_eng (on_store env (\<lambda>ops now. SeenDelivery ops now name (delivery_key ev) now (now + deliveryTTL))) r =
       (Inr True, r1)" "r1 = r"
    by (rule seen_ok [OF env g, of name ev]) (use Cons.prems in auto)
  with Cons show ?case by simp
qed simp

lemma ingest_fresh:
  fixes env :: "('s, 'w) env"
  assumes env: "pe_store env = ops" and "good (en_store (rt_eng r))" and "\<not> wq_closed (rt_queue r)"
    and "distinct (map delivery_key events)"
    and "\<forall>ev \<in> set events. ev_delivery_id ev \<noteq> '''' \<and> \<not> delivered (en_store (rt_eng r)) (en_now (rt_eng r)) name ev"
  shows "\<exists>r'. ingest_events env name events r = ((int (length (concat (map (wanted env name) events))), []), r') \<and>
    image_mset work_of (queued (rt_queue r')) =
      image_mset work_of (queued (rt_queue r)) + mset (concat (map (wanted env name) events)) \<and>
    good (en_store (rt_eng r')) \<and> en_now (rt_eng r') = en_now (rt_eng r) \<and>
    (\<forall>t. live (en_now (rt_eng r) + deliveryTTL) t \<longrightarrow> (\<forall>ev \<in> set events. delivered (en_store (rt_eng r')) t name ev)) \<and>
    (\<forall>t ev. delivery_key ev \<notin> delivery_key ` set events \<longrightarrow>
       delivered (en_store (rt_eng r')) t name ev = delivered (en_store (rt_eng r)) t name ev)"
  using assms(2-)
proof (induction events arbitrary: r)
  case Nil
  then show ?case by simp
next
  case (Cons ev evs)
  let ?ev = "ev\<lparr>ev_source := name\<rparr>"
  have new: "\<not> delivered (en_store (rt_eng r)) (en_now (rt_eng r)) name ev" "ev_delivery_id ev \<noteq> ''''"
    using Cons.prems by auto
  obtain r1 where r1:
    "on_eng (on_store env (\<lambda>ops now. SeenDelivery ops now name (delivery_key ev) now (now + deliveryTTL))) r = (Inr False, r1)"
    "good (en_store (rt_eng r1))" "rt_queue r1 = rt_queue r" "en_now (rt_eng r1) = en_now (rt_eng r)"
    "only_at {(CollDeliveries, name @ nul # delivery_key ev)} (en_store (rt_eng r)) (en_store (rt_eng r1))"
    "\<And>t. live (en_now (rt_eng r) + deliveryTTL) t \<Longrightarrow> delivered (en_store (rt_eng r1)) t name ev"
    by (rule seen_ok [OF env Cons.prems(1), of name ev]) (use new in auto)
  obtain k r2 where k: "submit_to (syncsFor env name (ev_kind ev)) ?ev r1 = (k, r2)" by fastforce
  have "\<not> wq_closed (rt_queue r1)" using Cons.prems(2) r1(3) by simp
  note s = submit_to_ok [OF k this]
  have others: "delivered (en_store (rt_eng r2)) t name ev' = delivered (en_store (rt_eng r)) t name ev'"
    if "delivery_key ev' \<noteq> delivery_key ev" for t ev'
    using delivered_only_at [OF r1(5) that] s(4) by simp
  have fresh: "\<forall>ev' \<in> set evs. ev_delivery_id ev' \<noteq> '''' \<and> \<not> delivered (en_store (rt_eng r2)) (en_now (rt_eng r2)) name ev'"
    using Cons.prems(3,4) others s(5) r1(4) by (auto simp: image_iff)
  from Cons.IH [of r2] r1(2) s(3-5) Cons.prems(3) fresh obtain r' where
    r': "ingest_events env name evs r2 = ((int (length (concat (map (wanted env name) evs))), []), r')"
    "image_mset work_of (queued (rt_queue r')) =
      image_mset work_of (queued (rt_queue r2)) + mset (concat (map (wanted env name) evs))"
    "good (en_store (rt_eng r'))" "en_now (rt_eng r') = en_now (rt_eng r2)"
    "\<And>t ev. live (en_now (rt_eng r2) + deliveryTTL) t \<Longrightarrow> ev \<in> set evs \<Longrightarrow> delivered (en_store (rt_eng r')) t name ev"
    "\<And>t ev. delivery_key ev \<notin> delivery_key ` set evs \<Longrightarrow>
       delivered (en_store (rt_eng r')) t name ev = delivered (en_store (rt_eng r2)) t name ev"
    by auto
  have "ingest_events env name (ev # evs) r =
      ((int (length (concat (map (wanted env name) (ev # evs)))), []), r')"
    using new(2) by (simp add: r1(1) k r'(1) s(1) wanted_def)
  moreover have "image_mset work_of (queued (rt_queue r')) =
      image_mset work_of (queued (rt_queue r)) + mset (concat (map (wanted env name) (ev # evs)))"
    by (simp add: r'(2) s(2) r1(3) wanted_def)
  moreover have "delivered (en_store (rt_eng r')) t name x"
    if "live (en_now (rt_eng r) + deliveryTTL) t" "x \<in> set (ev # evs)" for t x
    using that r'(5) [of t x] r'(6) [of ev t] r1(4,6) s(4,5) Cons.prems(3) by (auto simp: image_iff)
  moreover have "delivered (en_store (rt_eng r')) t name x = delivered (en_store (rt_eng r)) t name x"
    if "delivery_key x \<notin> delivery_key ` set (ev # evs)" for t x
    using that r'(6) [of x t] others [of x t] by auto
  ultimately show ?case using r'(3,4) s(5) r1(4) by auto
qed

end

section \<open>Properties\<close>


definition example_delivery :: change_event where
  "example_delivery = (example_event ''hub'' False)\<lparr>ev_delivery_id := ''d1''\<rparr>"


text \<open>
  A delivery that fails its signature check, or is not for a known connector, or cannot be
  read, is refused and leaves the store and the queue as they were; an authentication failure is
  told apart from a malformed body.
\<close>

theorem refused_delivery_changes_nothing:
  assumes "serveWebhook env rq r = (status, r')" and "status \<noteq> 202" and "status \<noteq> 500"
  shows "rt_queue r' = rt_queue r \<and> en_store (rt_eng r') = en_store (rt_eng r) \<and> status \<in> {400, 401, 404, 405} \<and>
    (status = 401 \<longrightarrow> (\<exists>name body err w. co_verify (pe_conn env) name (en_now (rt_eng r)) (rq_header rq) body
       (en_world (rt_eng r)) = (Inl err, w) \<and> KindOf (Some err) = KindAuth))"
proof -
  have verify: "rt_queue r1 = rt_queue r \<and> en_store (rt_eng r1) = en_store (rt_eng r) \<and>
      (\<exists>w. f (en_now (rt_eng r)) (en_world (rt_eng r)) = (x, w))"
    if "on_eng (on_world f) r = (x, r1)" for f and x :: "gerr + change_event list" and r1
    using that by (auto simp: on_eng_def on_world_def split: prod.splits)
  show ?thesis
    using assms unfolding serveWebhook_def Let_def
    by (auto dest!: verify split: if_splits list.splits sum.splits prod.splits option.splits)
qed

theorem refused_delivery_changes_nothing_witness:
  "\<exists>r'. serveWebhook (example_env ''bidirectional'') \<lparr>rq_method = ''GET'', rq_path = ''/webhook/hub'',
      rq_header = (\<lambda>_. ''''), rq_body = Inr ''''\<rparr> example_rt = (405, r') \<and> rt_queue r' = rt_queue example_rt"
proof -
  obtain r' where s: "serveWebhook (example_env ''bidirectional'') \<lparr>rq_method = ''GET'', rq_path = ''/webhook/hub'',
      rq_header = (\<lambda>_. ''''), rq_body = Inr ''''\<rparr> example_rt = (405, r')"
    by (simp add: serveWebhook_def)
  with refused_delivery_changes_nothing [OF s] show ?thesis by simp
qed

end
