(* ===== verification/Fake_Connector.thy ===== *)
theory Fake_Connector
  imports Webhook_Ingest "HOL-Library.Product_Lexorder"
begin

text \<open>
  \<^verbatim>\<open>internal/connector/fake\<close>: the in-memory CRM with its injected faults (\<^verbatim>\<open>fake.go\<close>), the
  edits a person makes in it (\<^verbatim>\<open>control.go\<close>) and its signed deliveries (\<^verbatim>\<open>webhook.go\<close>).
  Each method is one step under its mutex. The engine's clock is passed in. The parts of the
  standard library whose results are not computed here are a parameter: HMAC-SHA256 with hex
  encoding, the JSON text of a delivery, and the draws of the seeded generator by their number. A
  world of several peers is a function from their names, and \<open>fake_ops\<close> is the connector interface
  over it.
\<close>

section \<open>The state\<close>

record stdlib =
  lib_mac :: "string \<Rightarrow> string \<Rightarrow> string"
  lib_encode :: "change_event list \<Rightarrow> gerr + string"
  lib_decode :: "string \<Rightarrow> gerr + change_event list"
  lib_float :: "nat \<Rightarrow> rat"
  lib_int :: "nat \<Rightarrow> nat \<Rightarrow> nat"

definition HeaderSignature :: string where "HeaderSignature = ''X-Fake-Signature''"
definition HeaderTimestamp :: string where "HeaderTimestamp = ''X-Fake-Timestamp''"
definition HeaderDelivery :: string where "HeaderDelivery = ''X-Fake-Delivery''"
definition SignatureWindow :: duration where "SignatureWindow = 5 * minute"

record rename_fault =
  rn_kind :: string
  rn_from :: string
  rn_to :: string
  rn_after_calls :: int

record faults =
  ft_duplicate_webhooks :: bool
  ft_shuffle_webhooks :: bool
  ft_webhook_delay :: duration
  ft_notification_only :: bool
  ft_rate_limit_every :: int
  ft_rate_limit_retry_after :: duration
  ft_server_error_every :: int
  ft_server_error_rate :: rat
  ft_timestamp_granularity :: duration
  ft_clock_offset :: duration
  ft_page_size :: int
  ft_rename :: rename_fault
  ft_reject_field :: string
  ft_reject_value :: string

definition no_faults :: faults where
  "no_faults =
     \<lparr>ft_duplicate_webhooks = False, ft_shuffle_webhooks = False, ft_webhook_delay = 0, ft_notification_only = False,
      ft_rate_limit_every = 0, ft_rate_limit_retry_after = 0, ft_server_error_every = 0, ft_server_error_rate = 0,
      ft_timestamp_granularity = 0, ft_clock_offset = 0, ft_page_size = 0,
      ft_rename = \<lparr>rn_kind = '''', rn_from = '''', rn_to = '''', rn_after_calls = 0\<rparr>,
      ft_reject_field = '''', ft_reject_value = ''''\<rparr>"

record frecord =
  fr_id :: string
  fr_fields :: fields
  fr_updated_at :: gotime
  fr_version :: int
  fr_deleted :: bool

record pending =
  pn_event :: change_event
  pn_due_at :: gotime
  pn_seq :: int
  pn_deliv_id :: string

type_synonym bucket_map = "(string, (string, frecord) gomap) gomap"

record fake =
  fk_name :: string
  fk_caps :: caps
  fk_secret :: string
  fk_faults :: faults
  fk_draws :: nat
  fk_schemas :: "(string, schema) gomap"
  fk_data :: bucket_map
  fk_idem :: "(string, write_result) gomap"
  fk_queue :: "pending list"
  fk_next_id :: int
  fk_seq :: int
  fk_calls :: "(string, int) gomap"
  fk_describe_seen :: int
  fk_renamed :: bool

definition fake_New :: "string \<Rightarrow> caps \<Rightarrow> string \<Rightarrow> (string, schema) gomap \<Rightarrow> faults \<Rightarrow> fake" where
  "fake_New name caps secret schemas f =
     \<lparr>fk_name = (if name = '''' then ''fake'' else name), fk_caps = caps,
      fk_secret = (if secret = '''' then ''fake-secret'' else secret), fk_faults = f, fk_draws = 0,
      fk_schemas = assign_all [] schemas, fk_data = [], fk_idem = [], fk_queue = [], fk_next_id = 0, fk_seq = 0,
      fk_calls = [], fk_describe_seen = 0, fk_renamed = False\<rparr>"

section \<open>Clocks and faults\<close>

definition fake_now :: "gotime \<Rightarrow> fake \<Rightarrow> gotime" where
  "fake_now now f = now + ft_clock_offset (fk_faults f)"

definition stamp :: "gotime \<Rightarrow> fake \<Rightarrow> gotime" where
  "stamp now f =
     (let t = fake_now now f; g = ft_timestamp_granularity (fk_faults f) in if g > 0 then t - t mod g else t)"

definition Errorf :: "fake \<Rightarrow> string \<Rightarrow> errkind \<Rightarrow> string \<Rightarrow> gerr" where
  "Errorf f operation kind msg = ErrConn (fk_name f) operation kind 0 (ErrText msg)"

definition Calls :: "string \<Rightarrow> fake \<Rightarrow> int" where
  "Calls operation f = (case map_of (fk_calls f) operation of None \<Rightarrow> 0 | Some n \<Rightarrow> n)"

text \<open>The generator is only asked when the rate is positive.\<close>

definition gate :: "stdlib \<Rightarrow> string \<Rightarrow> (fake, gerr, unit) st" where
  "gate lib operation f0 =
     (let n = Calls operation f0 + 1; f = f0\<lparr>fk_calls := AList.update operation n (fk_calls f0)\<rparr>; ft = fk_faults f
      in if ft_rate_limit_every ft > 0 \<and> n mod ft_rate_limit_every ft = 0 then
           (Inl (ErrConn (fk_name f) operation KindRateLimited (ft_rate_limit_retry_after ft) (ErrText ''too many requests'')), f)
         else if ft_server_error_every ft > 0 \<and> n mod ft_server_error_every ft = 0 then
           (Inl (Errorf f operation KindTransient ''upstream 503''), f)
         else if ft_server_error_rate ft > 0 then
           (let f' = f\<lparr>fk_draws := fk_draws f + 1\<rparr>
            in if lib_float lib (fk_draws f) < ft_server_error_rate ft
               then (Inl (Errorf f operation KindTransient ''upstream 500''), f') else (Inr (), f'))
         else (Inr (), f))"

text \<open>A call gives up before anything else when its context is cancelled.\<close>

definition under_ctx :: "bool \<Rightarrow> (fake, gerr, 'a) st \<Rightarrow> (fake, gerr, 'a) st" where
  "under_ctx cancelled m f = (if cancelled then (Inl ErrCtx, f) else m f)"

section \<open>Reading\<close>

definition fake_bucket :: "string \<Rightarrow> fake \<Rightarrow> (string, frecord) gomap" where
  "fake_bucket kind f = (case map_of (fk_data f) kind of None \<Rightarrow> [] | Some b \<Rightarrow> b)"

definition rename_key :: "string \<Rightarrow> string \<Rightarrow> frecord \<Rightarrow> frecord" where
  "rename_key old new r =
     (case map_of (fr_fields r) old of
        None \<Rightarrow> r
      | Some v \<Rightarrow> r\<lparr>fr_fields := AList.update new v (AList.delete old (fr_fields r))\<rparr>)"

definition maybeRename :: "fake \<Rightarrow> fake" where
  "maybeRename f =
     (let r = ft_rename (fk_faults f)
      in if fk_renamed f \<or> rn_from r = '''' \<or> fk_describe_seen f \<le> rn_after_calls r then f
         else let s = (case map_of (fk_schemas f) (rn_kind r) of None \<Rightarrow> \<lparr>sc_kind = '''', sc_fields = []\<rparr> | Some s \<Rightarrow> s);
                  s' = s\<lparr>sc_fields := map (\<lambda>x. if sf_name x = rn_from r then x\<lparr>sf_name := rn_to r\<rparr> else x) (sc_fields s)\<rparr>
              in f\<lparr>fk_renamed := True, fk_schemas := AList.update (rn_kind r) s' (fk_schemas f),
                   fk_data := map (\<lambda>(k, b). (k, if k = rn_kind r
                     then map (\<lambda>(i, rec). (i, rename_key (rn_from r) (rn_to r) rec)) b else b)) (fk_data f)\<rparr>)"

definition fake_Describe :: "stdlib \<Rightarrow> string \<Rightarrow> (fake, gerr, schema) st" where
  "fake_Describe lib kind =
     andThen (gate lib ''describe'') (\<lambda>_ f0.
       let f = maybeRename (f0\<lparr>fk_describe_seen := fk_describe_seen f0 + 1\<rparr>)
       in case map_of (fk_schemas f) kind of
            None \<Rightarrow> (Inl (Errorf f ''describe'' KindNotFound (''no object '' @ quoted kind)), f)
          | Some s \<Rightarrow> (Inr s, f))"

definition toModel :: "string \<Rightarrow> fake \<Rightarrow> frecord \<Rightarrow> crm_record" where
  "toModel kind f r =
     \<lparr>r_kind = kind, r_remote_id = fr_id r, r_fields = fr_fields r, r_updated_at = fr_updated_at r,
      r_version = (if cap_etags (fk_caps f) then itoa (fr_version r) else '''')\<rparr>"

text \<open>\<^verbatim>\<open>strconv.Atoi\<close> and \<^verbatim>\<open>strconv.ParseInt\<close> in base ten with 64 bits.\<close>

definition parse_int :: "string \<Rightarrow> int option" where
  "parse_int s =
     (let (neg, ds) = (case s of c # cs \<Rightarrow> if c = CHR ''-'' then (True, cs) else if c = CHR ''+'' then (False, cs) else (False, s)
                              | [] \<Rightarrow> (False, []))
      in if ds = [] \<or> \<not> list_all is_digit ds then None
         else let n = foldl (\<lambda>a c. 10 * a + (of_char c - 48)) 0 ds; v = (if neg then - n else n)
              in if int64 v then Some v else None)"

definition listed_live :: "gotime \<Rightarrow> (string, frecord) gomap \<Rightarrow> frecord list" where
  "listed_live since b =
     sort_key (\<lambda>r. (fr_updated_at r, fr_id r))
       (filter (\<lambda>r. \<not> fr_updated_at r < since \<and> \<not> fr_deleted r) (map snd b))"

definition listed_deleted :: "caps \<Rightarrow> gotime \<Rightarrow> (string, frecord) gomap \<Rightarrow> string list" where
  "listed_deleted caps since b =
     (if cap_soft_delete caps
      then sort_strings (map fr_id (filter (\<lambda>r. \<not> fr_updated_at r < since \<and> fr_deleted r) (map snd b))) else [])"

text \<open>The page at an offset. A negative offset is a slice out of range, at which Go panics.\<close>

definition page_at :: "string \<Rightarrow> fake \<Rightarrow> frecord list \<Rightarrow> string list \<Rightarrow> int \<Rightarrow> gerr + page" where
  "page_at kind f recs gone start0 =
     (let n = int (length recs); start = (if start0 > n then n else start0); size = ft_page_size (fk_faults f);
          more = size > 0 \<and> n - start > size; stop = (if more then start + size else n)
      in if start < 0 then Inl (ErrText ''runtime error: slice bounds out of range'')
         else Inr \<lparr>pg_records = map (toModel kind f) (take (nat (stop - start)) (drop (nat start) recs)),
                   pg_deleted = (if start = 0 then gone else []), pg_cursor = (if more then itoa stop else '''')\<rparr>)"

definition fake_ListChanged :: "stdlib \<Rightarrow> string \<Rightarrow> gotime \<Rightarrow> string \<Rightarrow> (fake, gerr, page) st" where
  "fake_ListChanged lib kind since cursor =
     andThen (gate lib ''list'') (\<lambda>_ f.
       let recs = listed_live since (fake_bucket kind f); gone = listed_deleted (fk_caps f) since (fake_bucket kind f)
       in case (if cursor = '''' then Some 0 else parse_int cursor) of
            None \<Rightarrow> (Inl (Errorf f ''list'' KindPermanent (''bad cursor '' @ quoted cursor)), f)
          | Some start \<Rightarrow> (page_at kind f recs gone start, f))"

definition fake_Get :: "stdlib \<Rightarrow> string \<Rightarrow> string \<Rightarrow> (fake, gerr, crm_record) st" where
  "fake_Get lib kind rid =
     andThen (gate lib ''get'') (\<lambda>_ f.
       let gone = (Inl (Errorf f ''get'' KindNotFound (''no '' @ kind @ '' '' @ quoted rid)), f)
       in case map_of (fake_bucket kind f) rid of
            None \<Rightarrow> gone
          | Some r \<Rightarrow> if fr_deleted r then gone else (Inr (toModel kind f r), f))"


section \<open>Writing\<close>

text \<open>A delivery queued for a change, once or twice under one identifier.\<close>

definition emit :: "gotime \<Rightarrow> change_event \<Rightarrow> fake \<Rightarrow> fake" where
  "emit now ev0 f =
     (if \<not> cap_webhooks (fk_caps f) then f
      else let ft = fk_faults f; n = fk_seq f + 1;
               ev = ev0\<lparr>ev_source := fk_name f, ev_observed_at := fake_now now f,
                        ev_record := (if ft_notification_only ft then None else ev_record ev0)\<rparr>;
               p = \<lparr>pn_event = ev, pn_due_at = fake_now now f + ft_webhook_delay ft, pn_seq = n,
                    pn_deliv_id = fk_name f @ ''-d'' @ itoa n\<rparr>
           in f\<lparr>fk_seq := n, fk_queue := fk_queue f @ replicate (if ft_duplicate_webhooks ft then 2 else 1) p\<rparr>)"

definition upsert_event :: "string \<Rightarrow> string \<Rightarrow> crm_record \<Rightarrow> change_event" where
  "upsert_event kind rid rec =
     \<lparr>ev_source = '''', ev_kind = kind, ev_remote_id = rid, ev_delivery_id = '''', ev_observed_at = zero_time,
      ev_deleted = False, ev_record = Some rec\<rparr>"

definition delete_event :: "string \<Rightarrow> string \<Rightarrow> change_event" where
  "delete_event kind rid =
     \<lparr>ev_source = '''', ev_kind = kind, ev_remote_id = rid, ev_delivery_id = '''', ev_observed_at = zero_time,
      ev_deleted = True, ev_record = None\<rparr>"

text \<open>The next identifier for a record that comes without one.\<close>

definition fresh_id :: "string \<Rightarrow> fake \<Rightarrow> string \<times> fake" where
  "fresh_id rid f =
     (if rid \<noteq> '''' then (rid, f)
      else (fk_name f @ ''-'' @ itoa (fk_next_id f + 1), f\<lparr>fk_next_id := fk_next_id f + 1\<rparr>))"

text \<open>The fields are merged into the record under the identifier, or into a new one.\<close>

definition write_fields :: "gotime \<Rightarrow> string \<Rightarrow> string \<Rightarrow> fields \<Rightarrow> fake \<Rightarrow> frecord \<times> bool \<times> fake" where
  "write_fields now kind rid fs f =
     (let b = fake_bucket kind f;
          (old, created) = (case map_of b rid of
             Some r \<Rightarrow> (r, False)
           | None \<Rightarrow> (\<lparr>fr_id = rid, fr_fields = [], fr_updated_at = zero_time, fr_version = 0, fr_deleted = False\<rparr>, True));
          r = old\<lparr>fr_deleted := False, fr_fields := assign_all (fr_fields old) fs, fr_updated_at := stamp now f,
                  fr_version := fr_version old + 1\<rparr>
      in (r, created, f\<lparr>fk_data := AList.update kind (AList.update rid r b) (fk_data f)\<rparr>))"

definition rejected :: "fake \<Rightarrow> crm_record \<Rightarrow> bool" where
  "rejected f rec \<longleftrightarrow> ft_reject_field (fk_faults f) \<noteq> '''' \<and>
     (case map_of (r_fields rec) (ft_reject_field (fk_faults f)) of
        None \<Rightarrow> False | Some v \<Rightarrow> sprint v = ft_reject_value (fk_faults f))"

definition store_result :: "string \<Rightarrow> write_result \<Rightarrow> fake \<Rightarrow> fake" where
  "store_result key res f =
     (if cap_native_idempotency (fk_caps f) \<and> key \<noteq> '''' then f\<lparr>fk_idem := AList.update key res (fk_idem f)\<rparr> else f)"

definition upsert_now :: "gotime \<Rightarrow> string \<Rightarrow> crm_record \<Rightarrow> string \<Rightarrow> (fake, gerr, write_result) st" where
  "upsert_now now kind rec key f =
     (if rejected f rec then
        (Inl (Errorf f ''upsert'' KindPermanent
           (''property '' @ quoted (ft_reject_field (fk_faults f)) @ '' failed a validation rule'')), f)
      else
        let (rid, f1) = fresh_id (r_remote_id rec) f;
            (r, created, f2) = write_fields now kind rid (r_fields rec) f1;
            res = \<lparr>wr_remote_id = rid, wr_created = (r_remote_id rec = '''' \<or> created), wr_version = itoa (fr_version r),
                   wr_updated_at = fr_updated_at r\<rparr>
        in (Inr res, emit now (upsert_event kind rid (toModel kind f2 r)) (store_result key res f2)))"

definition fake_Upsert :: "stdlib \<Rightarrow> gotime \<Rightarrow> string \<Rightarrow> crm_record \<Rightarrow> string \<Rightarrow> (fake, gerr, write_result) st" where
  "fake_Upsert lib now kind rec key f =
     (case (if cap_native_idempotency (fk_caps f) \<and> key \<noteq> '''' then map_of (fk_idem f) key else None) of
        Some prev \<Rightarrow> (Inr prev, f)
      | None \<Rightarrow> andThen (gate lib ''upsert'') (\<lambda>_. upsert_now now kind rec key) f)"

definition remove_record :: "gotime \<Rightarrow> string \<Rightarrow> string \<Rightarrow> fake \<Rightarrow> fake" where
  "remove_record now kind rid f =
     (let b = fake_bucket kind f
      in case map_of b rid of
           None \<Rightarrow> f
         | Some r \<Rightarrow>
             let b' = (if cap_soft_delete (fk_caps f)
                       then AList.update rid (r\<lparr>fr_deleted := True, fr_updated_at := stamp now f\<rparr>) b
                       else AList.delete rid b)
             in emit now (delete_event kind rid) (f\<lparr>fk_data := AList.update kind b' (fk_data f)\<rparr>))"

definition fake_Delete :: "stdlib \<Rightarrow> gotime \<Rightarrow> string \<Rightarrow> string \<Rightarrow> string \<Rightarrow> (fake, gerr, unit) st" where
  "fake_Delete lib now kind rid key = andThen (gate lib ''delete'') (\<lambda>_ f. (Inr (), remove_record now kind rid f))"

section \<open>The edits of a person\<close>

definition ExternalUpsert :: "gotime \<Rightarrow> string \<Rightarrow> string \<Rightarrow> fields \<Rightarrow> fake \<Rightarrow> crm_record \<times> fake" where
  "ExternalUpsert now kind rid0 fs f =
     (let (rid, f1) = fresh_id rid0 f; (r, created, f2) = write_fields now kind rid fs f1; out = toModel kind f2 r
      in (out, emit now (upsert_event kind rid out) f2))"

definition ExternalDelete :: "gotime \<Rightarrow> string \<Rightarrow> string \<Rightarrow> fake \<Rightarrow> fake" where
  "ExternalDelete now kind rid f = remove_record now kind rid f"

definition Records :: "string \<Rightarrow> fake \<Rightarrow> crm_record list" where
  "Records kind f =
     sort_key r_remote_id (map (toModel kind f) (filter (\<lambda>r. \<not> fr_deleted r) (map snd (fake_bucket kind f))))"

definition Count :: "string \<Rightarrow> fake \<Rightarrow> int" where
  "Count kind f = int (length (filter (\<lambda>r. \<not> fr_deleted r) (map snd (fake_bucket kind f))))"

definition fake_Field :: "string \<Rightarrow> string \<Rightarrow> string \<Rightarrow> fake \<Rightarrow> val option" where
  "fake_Field kind rid name f =
     (case map_of (fake_bucket kind f) rid of
        None \<Rightarrow> None | Some r \<Rightarrow> if fr_deleted r then None else map_of (fr_fields r) name)"

definition SetFaults :: "faults \<Rightarrow> fake \<Rightarrow> fake" where
  "SetFaults ft f = f\<lparr>fk_faults := ft\<rparr>"

section \<open>Deliveries\<close>

definition unix_seconds :: "gotime \<Rightarrow> int" where
  "unix_seconds t = t div second - unix_epoch div second"

text \<open>\<^verbatim>\<open>time.Unix(s, 0)\<close>: the seconds since year one are kept in 64 bits.\<close>

definition time_unix :: "int \<Rightarrow> gotime" where
  "time_unix s = wrap64 (s + unix_epoch div second) * second"

definition sign :: "stdlib \<Rightarrow> string \<Rightarrow> int \<Rightarrow> string \<Rightarrow> string" where
  "sign lib secret ts body = lib_mac lib secret (itoa ts @ ''.'' @ body)"

definition VerifyWebhook :: "stdlib \<Rightarrow> gotime \<Rightarrow> (string \<Rightarrow> string) \<Rightarrow> string \<Rightarrow> fake \<Rightarrow> gerr + change_event list" where
  "VerifyWebhook lib now header body f =
     (if \<not> cap_webhooks (fk_caps f) then
        Inl (Errorf f ''webhook'' KindPermanent ''this connector does not accept webhooks'')
      else let rawTS = header HeaderTimestamp
      in if rawTS = '''' then Inl (Errorf f ''webhook'' KindAuth ''missing timestamp'')
      else case parse_int rawTS of
        None \<Rightarrow> Inl (Errorf f ''webhook'' KindAuth (''bad timestamp '' @ quoted rawTS))
      | Some ts \<Rightarrow>
          if header HeaderSignature \<noteq> sign lib (fk_secret f) ts body then Inl (Errorf f ''webhook'' KindAuth ''bad signature'')
          else let age0 = time_sub (fake_now now f) (time_unix ts); age = (if age0 < 0 then wrap64 (- age0) else age0)
          in if age > SignatureWindow then
               Inl (Errorf f ''webhook'' KindAuth
                 (''delivery is '' @ dur_string age @ '' old, window is '' @ dur_string SignatureWindow))
             else case lib_decode lib body of
               Inl err \<Rightarrow> Inl (Errorf f ''webhook'' KindPermanent (''malformed body: '' @ err_text err))
             | Inr evs \<Rightarrow> Inr (map (\<lambda>e. e\<lparr>ev_source := fk_name f, ev_delivery_id := header HeaderDelivery\<rparr>) evs))"

record delivery =
  dl_id :: string
  dl_body :: string
  dl_headers :: "(string, string) gomap"

definition header_of :: "(string, string) gomap \<Rightarrow> string \<Rightarrow> string" where
  "header_of hs name = (case map_of hs name of None \<Rightarrow> '''' | Some v \<Rightarrow> v)"

definition Request :: "string \<Rightarrow> delivery \<Rightarrow> request" where
  "Request path d =
     \<lparr>rq_method = ''POST'', rq_path = path, rq_header = header_of (dl_headers d), rq_body = Inr (dl_body d)\<rparr>"

text \<open>The Fisher-Yates shuffle of \<^verbatim>\<open>rand.Shuffle\<close>, from the last position down.\<close>

definition swap_at :: "nat \<Rightarrow> nat \<Rightarrow> 'a list \<Rightarrow> 'a list" where
  "swap_at i j xs = xs[i := xs ! j, j := xs ! i]"

fun shuffle :: "(nat \<Rightarrow> nat \<Rightarrow> nat) \<Rightarrow> nat \<Rightarrow> nat \<Rightarrow> 'a list \<Rightarrow> nat \<times> 'a list" where
  "shuffle rnd draw 0 xs = (draw, xs)"
| "shuffle rnd draw (Suc i) xs = shuffle rnd (Suc draw) i (swap_at (Suc i) (rnd draw (Suc (Suc i))) xs)"

fun render_deliveries :: "stdlib \<Rightarrow> string \<Rightarrow> int \<Rightarrow> pending list \<Rightarrow> delivery list option" where
  "render_deliveries lib secret ts [] = Some []"
| "render_deliveries lib secret ts (p # ps) =
     (case lib_encode lib [pn_event p] of
        Inl _ \<Rightarrow> None
      | Inr body \<Rightarrow>
          map_option (Cons \<lparr>dl_id = pn_deliv_id p, dl_body = body,
              dl_headers = [(HeaderTimestamp, itoa ts), (HeaderSignature, sign lib secret ts body), (HeaderDelivery, pn_deliv_id p)]\<rparr>)
            (render_deliveries lib secret ts ps))"

text \<open>\<^const>\<open>None\<close> is the panic when an event cannot be encoded.\<close>

definition DrainWebhooks :: "stdlib \<Rightarrow> gotime \<Rightarrow> fake \<Rightarrow> delivery list option \<times> fake" where
  "DrainWebhooks lib now f =
     (let t = fake_now now f; kept = filter (\<lambda>p. pn_due_at p > t) (fk_queue f);
          due0 = filter (\<lambda>p. \<not> pn_due_at p > t) (fk_queue f);
          (draws, due) = (if ft_shuffle_webhooks (fk_faults f) \<and> length due0 > 1
                          then shuffle (lib_int lib) (fk_draws f) (length due0 - 1) due0 else (fk_draws f, due0))
      in (render_deliveries lib (fk_secret f) (unix_seconds t) due, f\<lparr>fk_queue := kept, fk_draws := draws\<rparr>))"

definition PendingWebhooks :: "fake \<Rightarrow> int" where
  "PendingWebhooks f = int (length (fk_queue f))"

definition SignBody :: "stdlib \<Rightarrow> string \<Rightarrow> gotime \<Rightarrow> fake \<Rightarrow> (string, string) gomap" where
  "SignBody lib body t f =
     (let ts = unix_seconds t
      in [(HeaderTimestamp, itoa ts), (HeaderSignature, sign lib (fk_secret f) ts body), (HeaderDelivery, ''forged-'' @ itoa ts)])"

section \<open>The connector interface\<close>

definition on_fake :: "string \<Rightarrow> (fake, gerr, 'a) st \<Rightarrow> (string \<Rightarrow> fake, gerr, 'a) st" where
  "on_fake name m w = (case m (w name) of (x, f) \<Rightarrow> (x, w(name := f)))"

definition fake_ops :: "stdlib \<Rightarrow> (string \<Rightarrow> caps) \<Rightarrow> bool \<Rightarrow> (string \<Rightarrow> fake) conn_ops" where
  "fake_ops lib caps cancelled =
     \<lparr>co_caps = caps,
      co_describe = (\<lambda>n now kind. on_fake n (under_ctx cancelled (fake_Describe lib kind))),
      co_list = (\<lambda>n now kind since cursor. on_fake n (under_ctx cancelled (fake_ListChanged lib kind since cursor))),
      co_verify = (\<lambda>n now header body w. (VerifyWebhook lib now header body (w n), w)),
      co_get = (\<lambda>n now kind rid. on_fake n (under_ctx cancelled (fake_Get lib kind rid))),
      co_upsert = (\<lambda>n now kind rec key. on_fake n (under_ctx cancelled (fake_Upsert lib now kind rec key))),
      co_delete = (\<lambda>n now kind rid key. on_fake n (under_ctx cancelled (fake_Delete lib now kind rid key)))\<rparr>"

end
