(* ===== verification/Connector_Contract.thy ===== *)
theory Connector_Contract
  imports Polling
begin

text \<open>
  What \<^verbatim>\<open>connector.Connector\<close> (\<^verbatim>\<open>internal/connector/connector.go\<close>) promises the engine, in
  the cases the conformance suite (\<^verbatim>\<open>internal/connector/connectortest/conformance.go\<close>) checks:
  the locale \<open>crm_connector\<close>, over a world in which \<open>reads w kind rid\<close> is the record a client can read
  and \<open>used w key\<close> says that the peer has answered a write under an idempotency key. A poll of a
  connector that keeps the promise sees every changed record once.
\<close>

definition not_found :: "gerr \<Rightarrow> bool" where
  "not_found err \<longleftrightarrow> KindOf (Some err) = KindNotFound"

text \<open>
  From the first page the cursors lead through all pages: \<open>f\<close> gives the page at each of the cursors
  \<open>C\<close>, in every state of \<open>K\<close>, where listing stays.
\<close>

definition pages_of :: "'w conn_ops \<Rightarrow> string \<Rightarrow> string \<Rightarrow> gotime \<Rightarrow> (string \<Rightarrow> page) \<Rightarrow> string set \<Rightarrow> ('w \<Rightarrow> bool) \<Rightarrow> bool" where
  "pages_of ops n kind since f C K \<longleftrightarrow>
     '''' \<in> C \<and> (\<forall>c \<in> C. (HasMore (f c) \<longrightarrow> pg_cursor (f c) \<in> C) \<and>
       (\<forall>now w. K w \<longrightarrow> (\<exists>w'. co_list ops n now kind since c w = (Inr (f c), w') \<and> K w')))"

lemma serves_pages: "serves env s p since f C K \<longleftrightarrow> pages_of (pe_conn env) (pr_name p) (sy_kind s) since f C K"
  by (simp add: serves_def pages_of_def)

definition listed :: "page list \<Rightarrow> crm_record list" where
  "listed pgs = concat (map pg_records pgs)"

locale crm_connector =
  fixes ops :: "'w conn_ops" and n :: string
    and ok :: "'w \<Rightarrow> bool"
    and reads :: "'w \<Rightarrow> string \<Rightarrow> string \<Rightarrow> crm_record option"
    and used :: "'w \<Rightarrow> string \<Rightarrow> bool"
    and schemas :: "'w \<Rightarrow> string \<Rightarrow> schema option"
  assumes describe_ok: "ok w \<Longrightarrow> \<exists>x w'. co_describe ops n now kind w = (x, w') \<and> ok w' \<and> reads w' = reads w \<and>
        (case schemas w kind of Some s \<Rightarrow> x = Inr s | None \<Rightarrow> (\<exists>err. x = Inl err \<and> not_found err))"
    and get_ok: "ok w \<Longrightarrow> \<exists>x w'. co_get ops n now kind rid w = (x, w') \<and> ok w' \<and> reads w' = reads w \<and>
        (case reads w kind rid of Some r \<Rightarrow> x = Inr r | None \<Rightarrow> (\<exists>err. x = Inl err \<and> not_found err))"
    and identified: "ok w \<Longrightarrow> reads w kind rid = Some r \<Longrightarrow> r_remote_id r = rid \<and> r_kind r = kind"
    and upsert_ok: "ok w \<Longrightarrow> \<not> used w key \<Longrightarrow> wf_map (r_fields rec) \<Longrightarrow>
        r_remote_id rec = '''' \<or> reads w kind (r_remote_id rec) \<noteq> None \<Longrightarrow>
        \<exists>res w' r. co_upsert ops n now kind rec key w = (Inr res, w') \<and> ok w' \<and>
          (if r_remote_id rec = '''' then wr_remote_id res \<noteq> '''' \<and> (\<forall>k. reads w k (wr_remote_id res) = None)
           else wr_remote_id res = r_remote_id rec) \<and>
          (wr_created res \<longleftrightarrow> r_remote_id rec = '''') \<and>
          reads w' kind (wr_remote_id res) = Some r \<and>
          map_of (r_fields r) = (case reads w kind (wr_remote_id res) of None \<Rightarrow> Map.empty | Some old \<Rightarrow> map_of (r_fields old))
             ++ map_of (r_fields rec) \<and>
          (\<forall>k i. (k, i) \<noteq> (kind, wr_remote_id res) \<longrightarrow> reads w' k i = reads w k i)"
    and replayed: "ok w \<Longrightarrow> \<not> used w key \<Longrightarrow> co_upsert ops n now kind rec key w = (Inr res, w') \<Longrightarrow> used w' key \<Longrightarrow>
        co_upsert ops n now' kind' rec' key w' = (Inr res, w')"
    and delete_ok: "ok w \<Longrightarrow> \<exists>w'. co_delete ops n now kind rid key w = (Inr (), w') \<and> ok w' \<and> reads w' kind rid = None \<and>
        (\<forall>k i. (k, i) \<noteq> (kind, rid) \<longrightarrow> reads w' k i = reads w k i)"
    and list_ok: "ok w \<Longrightarrow> finite {rid. reads w kind rid \<noteq> None} \<and>
        (card {rid. reads w kind rid \<noteq> None} < 2 ^ 63 \<longrightarrow>
         (\<exists>f C pgs K. K w \<and> pages_of ops n kind since f C K \<and> page_chain f '''' pgs \<and>
           (\<forall>w'. K w' \<longrightarrow> ok w' \<and> reads w' = reads w) \<and>
           distinct (map r_remote_id (listed pgs)) \<and>
           set (listed pgs) = {r. \<exists>rid. reads w kind rid = Some r \<and> since \<le> r_updated_at r} \<and>
           length pgs \<le> length (listed pgs) + 1))"
begin

text \<open>What the suite checks beyond the single calls.\<close>

lemma create_then_get:
  assumes "ok w" "\<not> used w key" "wf_map (r_fields rec)" "r_remote_id rec = ''''"
  shows "\<exists>res w' r w''. co_upsert ops n now kind rec key w = (Inr res, w') \<and> wr_created res \<and>
    co_get ops n now' kind (wr_remote_id res) w' = (Inr r, w'') \<and> r_remote_id r = wr_remote_id res \<and>
    map_of (r_fields r) = map_of (r_fields rec) \<and>
    (\<forall>k i. reads w k i \<noteq> None \<longrightarrow> reads w'' k i = reads w k i)"
proof -
  obtain res w' r where u: "co_upsert ops n now kind rec key w = (Inr res, w')" "ok w'" "wr_created res"
    "\<And>k. reads w k (wr_remote_id res) = None" "reads w' kind (wr_remote_id res) = Some r"
    "map_of (r_fields r) = (case reads w kind (wr_remote_id res) of None \<Rightarrow> Map.empty | Some old \<Rightarrow> map_of (r_fields old))
       ++ map_of (r_fields rec)"
    "\<And>k i. (k, i) \<noteq> (kind, wr_remote_id res) \<Longrightarrow> reads w' k i = reads w k i"
    using upsert_ok [OF assms(1-3), of kind now] assms(4) by auto
  obtain w'' where "co_get ops n now' kind (wr_remote_id res) w' = (Inr r, w'')" "reads w'' = reads w'"
    using get_ok [OF u(2), of now' kind "wr_remote_id res"] u(5) by auto
  moreover have "r_remote_id r = wr_remote_id res" using identified [OF u(2,5)] by simp
  moreover have "map_of (r_fields r) = map_of (r_fields rec)" using u(6) u(4) [of kind] by simp
  moreover have "reads w' k i = reads w k i" if "reads w k i \<noteq> None" for k i
    using u(4) [of k] that by (intro u(7)) auto
  ultimately show ?thesis
    by (intro exI [of _ res] exI [of _ w'] exI [of _ r] exI [of _ w''] conjI allI impI) (simp_all add: u(1,3))
qed

lemma delete_twice:
  assumes "ok w" "co_delete ops n now kind rid key w = (x, w')"
  shows "x = Inr () \<and> fst (co_delete ops n now' kind rid key' w') = Inr () \<and>
    (\<exists>err w''. co_get ops n now' kind rid w' = (Inl err, w'') \<and> not_found err)"
proof -
  have d: "x = Inr ()" "ok w'" "reads w' kind rid = None"
    using delete_ok [OF assms(1), of now kind rid key] assms(2) by auto
  then show ?thesis
    using delete_ok [OF d(2), of now' kind rid key'] get_ok [OF d(2), of now' kind rid] by auto
qed

text \<open>A poll yields each record that changed since the mark exactly once, and none that did not.\<close>

lemma listed_few:
  assumes "ok w" "distinct (map r_remote_id rs)" "set rs \<subseteq> {r. \<exists>rid. reads w kind rid = Some r}"
  shows "length rs \<le> card {rid. reads w kind rid \<noteq> None}"
proof -
  have "set (map r_remote_id rs) \<subseteq> {rid. reads w kind rid \<noteq> None}"
    using assms(3) identified [OF assms(1)] by fastforce
  moreover have "finite {rid. reads w kind rid \<noteq> None}" using list_ok [OF assms(1)] by blast
  ultimately have "card (set (map r_remote_id rs)) \<le> card {rid. reads w kind rid \<noteq> None}" by (intro card_mono)
  then show ?thesis using distinct_card [OF assms(2)] by simp
qed

lemma record_events: "filter (\<lambda>ev. \<not> ev_deleted ev) (concat (map (page_events s p now) pgs)) = map (record_event s p now) (listed pgs)"
  by (induction pgs) (simp_all add: page_events_def listed_def record_event_def deleted_event_def filter_map comp_def)

lemma poll_complete:
  fixes env :: "(doc mem, 'w) env"
  assumes env: "pe_conn env = ops" "pr_name p = n" "pe_store env = mem_ops" "\<not> pe_cancelled env"
    and e: "mem_docs.good (en_store e)" "ok (en_world e)"
    and few: "int (card {rid. reads (en_world e) (sy_kind s) rid \<noteq> None}) \<le> maxPages"
  shows "\<exists>rs result e'. Poll env s p e = (Inr result, e') \<and>
    filter (\<lambda>ev. \<not> ev_deleted ev) (po_events result) = map (record_event s p (en_now e)) rs \<and>
    distinct (map r_remote_id rs) \<and>
    set rs = {r. \<exists>rid. reads (en_world e) (sy_kind s) rid = Some r \<and> mem_docs.read_from env s p e \<le> r_updated_at r} \<and>
    po_highest result = Highest (map r_updated_at rs) \<and> ok (en_world e') \<and> reads (en_world e') = reads (en_world e)"
proof -
  let ?since = "mem_docs.read_from env s p e" and ?kind = "sy_kind s"
  let ?start = "\<lparr>po_sync = s, po_peer = p, po_highest = zero_time, po_events = [], po_tasks = []\<rparr>"
  have "card {rid. reads (en_world e) ?kind rid \<noteq> None} < 2 ^ 63" using few by (simp add: maxPages_def)
  with list_ok [OF e(2), of ?kind ?since] obtain f C pgs K where
    l: "K (en_world e)" "pages_of ops n ?kind ?since f C K" "page_chain f '''' pgs"
      "\<And>w'. K w' \<Longrightarrow> ok w' \<and> reads w' = reads (en_world e)" "distinct (map r_remote_id (listed pgs))"
      "set (listed pgs) = {r. \<exists>rid. reads (en_world e) ?kind rid = Some r \<and> ?since \<le> r_updated_at r}"
      "length pgs \<le> length (listed pgs) + 1" by blast
  have "length (listed pgs) \<le> card {rid. reads (en_world e) ?kind rid \<noteq> None}"
    by (rule listed_few [OF e(2) l(5)]) (auto simp: l(6))
  with l(7) few have len: "int (length pgs) \<le> maxPages + 2" by linarith
  have serves: "serves env s p ?since f C K" using l(2) by (simp add: serves_pages env(1,2))
  then have "'''' \<in> C" by (simp add: serves_def)
  from mem_docs.poll_pages_chain [OF env(3,4) e(1) l(1) serves this l(3), of 0 "en_now e" ?start] len
  obtain e' where "poll_pages env s p ?since (en_now e) 0 '''' ?start e = (Inr (fold (add_page s p (en_now e)) pgs ?start), e')"
    and K: "K (en_world e')" by auto
  then have poll: "Poll env s p e = (Inr (fold (add_page s p (en_now e)) pgs ?start), e')"
    by (simp add: mem_docs.Poll_eq [OF env(3) e(1)])
  show ?thesis
    by (intro exI [of _ "listed pgs"] exI [of _ "fold (add_page s p (en_now e)) pgs ?start"] exI [of _ e'] conjI)
       (use poll l(4) [OF K] l(5,6) in \<open>simp_all add: add_pages record_events Highest_def, simp add: listed_def\<close>)
qed

end

end
