(* ===== verification/Fake_Contract.thy ===== *)
theory Fake_Contract
  imports Fake_Connector Connector_Contract
begin

text \<open>
  The fake connector (\<^verbatim>\<open>internal/connector/fake\<close>) without injected faults keeps the promise of
  \<^verbatim>\<open>connector.Connector\<close>, the locale \<open>crm_connector\<close>: an invariant of its records, what each call
  does to what a client can read, and the interpretation.
\<close>

section \<open>A fake without faults\<close>

definition calm :: "fake \<Rightarrow> bool" where
  "calm f \<longleftrightarrow> (let ft = fk_faults f in
     ft_rate_limit_every ft \<le> 0 \<and> ft_server_error_every ft \<le> 0 \<and> ft_server_error_rate ft \<le> 0 \<and>
     ft_reject_field ft = '''' \<and> rn_from (ft_rename ft) = '''')"

text \<open>
  Every record is filed under its own identifier, and no identifier still to be handed out is in
  use.
\<close>

definition fake_ok :: "fake \<Rightarrow> bool" where
  "fake_ok f \<longleftrightarrow> calm f \<and>
     (\<forall>kind. wf_map (fake_bucket kind f) \<and>
        (\<forall>rid r. map_of (fake_bucket kind f) rid = Some r \<longrightarrow> fr_id r = rid \<and> rid \<noteq> '''') \<and>
        (\<forall>k. fk_next_id f < k \<longrightarrow> map_of (fake_bucket kind f) (fk_name f @ ''-'' @ itoa k) = None))"

definition readable :: "fake \<Rightarrow> string \<Rightarrow> string \<Rightarrow> crm_record option" where
  "readable f kind rid =
     (case map_of (fake_bucket kind f) rid of
        None \<Rightarrow> None | Some r \<Rightarrow> if fr_deleted r then None else Some (toModel kind f r))"

text \<open>A call that only counted itself.\<close>

lemma counters [simp]:
  "fake_bucket kind (f\<lparr>fk_calls := c\<rparr>) = fake_bucket kind f"
  "fake_bucket kind (f\<lparr>fk_describe_seen := n\<rparr>) = fake_bucket kind f"
  "toModel kind (f\<lparr>fk_calls := c\<rparr>) = toModel kind f"
  "toModel kind (f\<lparr>fk_describe_seen := n\<rparr>) = toModel kind f"
  "calm (f\<lparr>fk_calls := c\<rparr>) = calm f" "calm (f\<lparr>fk_describe_seen := n\<rparr>) = calm f"
  by (simp_all add: fake_bucket_def toModel_def fun_eq_iff calm_def)

definition counted :: "fake \<Rightarrow> fake \<Rightarrow> bool" where
  "counted f f' \<longleftrightarrow> f' = f\<lparr>fk_calls := fk_calls f', fk_describe_seen := fk_describe_seen f'\<rparr>"

lemma counted_same:
  assumes "counted f f'"
  shows "fake_bucket kind f' = fake_bucket kind f" "fk_caps f' = fk_caps f" "fk_faults f' = fk_faults f"
    "fk_name f' = fk_name f" "fk_idem f' = fk_idem f" "fk_next_id f' = fk_next_id f" "toModel kind f' = toModel kind f"
    "fake_ok f' = fake_ok f" "readable f' = readable f"
  by (subst assms [unfolded counted_def], simp add: fake_ok_def readable_def fun_eq_iff split: option.split)+

lemma counted_refl [simp]: "counted f f"
  by (simp add: counted_def)

lemma counted_trans: "counted f f' \<Longrightarrow> counted f' f'' \<Longrightarrow> counted f f''"
  unfolding counted_def by (metis fake.surjective fake.update_convs(12,13))

lemma gate_calm:
  assumes "calm f"
  obtains f' where "gate lib operation f = (Inr (), f')" "counted f f'"
proof
  let ?f = "f\<lparr>fk_calls := AList.update operation (Calls operation f + 1) (fk_calls f)\<rparr>"
  show "gate lib operation f = (Inr (), ?f)" using assms by (simp add: gate_def Let_def calm_def)
  show "counted f ?f" by (simp add: counted_def)
qed

lemma fake_okD:
  assumes "fake_ok f"
  shows "calm f" "wf_map (fake_bucket kind f)" "map_of (fake_bucket kind f) rid = Some r \<Longrightarrow> fr_id r = rid"
    "map_of (fake_bucket kind f) rid = Some r \<Longrightarrow> rid \<noteq> ''''"
    "fk_next_id f < k \<Longrightarrow> map_of (fake_bucket kind f) (fk_name f @ ''-'' @ itoa k) = None"
  using assms by (auto simp: fake_ok_def)

section \<open>Reading\<close>

lemma Get_found:
  assumes "fake_ok f" "readable f kind rid = Some r"
  obtains f' where "fake_Get lib kind rid f = (Inr r, f')" "counted f f'"
proof -
  obtain f' where f': "gate lib ''get'' f = (Inr (), f')" "counted f f'" by (rule gate_calm [OF fake_okD(1) [OF assms(1)]])
  have "fake_Get lib kind rid f = (Inr r, f')"
    using assms(2) f'
    by (auto simp: fake_Get_def andThen_def counted_same [OF f'(2)] readable_def Let_def split: option.splits if_splits)
  then show thesis using f'(2) by (rule that)
qed

lemma Get_absent:
  assumes "fake_ok f" "readable f kind rid = None"
  obtains err f' where "fake_Get lib kind rid f = (Inl err, f')" "KindOf (Some err) = KindNotFound" "counted f f'"
proof -
  obtain f' where f': "gate lib ''get'' f = (Inr (), f')" "counted f f'" by (rule gate_calm [OF fake_okD(1) [OF assms(1)]])
  have "\<exists>err. fake_Get lib kind rid f = (Inl err, f') \<and> KindOf (Some err) = KindNotFound"
    using assms(2) f'
    by (auto simp: fake_Get_def andThen_def counted_same [OF f'(2)] readable_def Let_def Errorf_def KindOf_def
        split: option.splits if_splits)
  then show thesis using that f'(2) by blast
qed

section \<open>Listing\<close>

lemma listed_live_sorted:
  "sorted (map (\<lambda>r. (fr_updated_at r, fr_id r)) (listed_live since b))"
  "set (listed_live since b) = {r \<in> snd ` set b. since \<le> fr_updated_at r \<and> \<not> fr_deleted r}"
  by (auto simp: listed_live_def)

lemma listed_live_distinct:
  assumes "wf_map b" "\<And>rid r. map_of b rid = Some r \<Longrightarrow> fr_id r = rid"
  shows "distinct (map fr_id (listed_live since b))"
proof -
  let ?P = "\<lambda>r. \<not> fr_updated_at r < since \<and> \<not> fr_deleted r"
  have ids: "map fr_id (map snd b) = map fst b"
    using assms by (auto simp: wf_map_def intro!: map_cong dest!: map_of_is_SomeI)
  have "distinct (map fr_id (filter ?P (map snd b)))"
    by (rule distinct_map_filter) (simp only: ids assms(1) [unfolded wf_map_def])
  then have "distinct (map fr_id (listed_live since b))"
    by (simp add: listed_live_def distinct_map)
  then show ?thesis .
qed


text \<open>A cursor is the decimal offset of the next page.\<close>

lemma digit_char_value: "k < 10 \<Longrightarrow> of_char (digit_char k) - 48 = (int k :: int)"
proof -
  assume "k < 10"
  then have "k \<in> {0, 1, 2, 3, 4, 5, 6, 7, 8, 9}" by auto
  then show ?thesis by (auto simp: digit_char_def)
qed

lemma parse_dec: "0 \<le> n \<Longrightarrow> foldl (\<lambda>a c. 10 * a + (of_char c - 48)) 0 (dec n) = (n :: int)"
proof (induction n rule: dec.induct)
  case (1 n)
  show ?case
  proof (cases "n < 10")
    case True
    with 1 show ?thesis by (simp add: dec_small digit_char_value)
  next
    case False
    with 1 have "foldl (\<lambda>a c. 10 * a + (of_char c - 48)) 0 (dec (n div 10)) = n div 10" by simp
    with False show ?thesis by (simp add: dec_large digit_char_value)
  qed
qed

lemma parse_itoa: "0 \<le> n \<Longrightarrow> n < 2 ^ 63 \<Longrightarrow> parse_int (itoa n) = Some n"
proof -
  assume n: "0 \<le> n" "n < 2 ^ 63"
  obtain c cs where d: "dec n = c # cs" by (cases "dec n") auto
  have digits: "\<forall>x \<in> set (dec n). is_digit x" using n(1) by (rule dec_digits)
  with d have "c \<noteq> CHR ''-''" "c \<noteq> CHR ''+''" by (auto simp: is_digit_def)
  moreover have "foldl (\<lambda>a x. 10 * a + (of_char x - 48)) 0 (c # cs) = n" using parse_dec [OF n(1)] d by simp
  moreover have "int64 n" using n by (simp add: int64_def)
  ultimately show ?thesis using n(1) d digits by (simp add: parse_int_def itoa_def list_all_iff del: foldl.simps)
qed


definition cursor_at :: "int \<Rightarrow> string" where
  "cursor_at s = (if s = 0 then '''' else itoa s)"

definition page_for :: "fake \<Rightarrow> string \<Rightarrow> gotime \<Rightarrow> string \<Rightarrow> page" where
  "page_for f kind since c =
     (case page_at kind f (listed_live since (fake_bucket kind f)) (listed_deleted (fk_caps f) since (fake_bucket kind f))
             (if c = '''' then 0 else the (parse_int c)) of
        Inr p \<Rightarrow> p | Inl _ \<Rightarrow> \<lparr>pg_records = [], pg_deleted = [], pg_cursor = ''''\<rparr>)"

lemma itoa_nonempty [simp]: "itoa n \<noteq> []"
  by (simp add: itoa_def)

lemma cursor_offset: "0 \<le> s \<Longrightarrow> s < 2 ^ 63 \<Longrightarrow> (if cursor_at s = '''' then 0 else the (parse_int (cursor_at s))) = s"
  by (simp add: cursor_at_def parse_itoa)

lemma page_at_same: "counted f f' \<Longrightarrow> page_at kind f' = page_at kind f"
  by (intro ext) (simp add: page_at_def counted_same Let_def)

lemma ListChanged_page:
  assumes "fake_ok f" "counted f0 f" "0 \<le> s" "s < 2 ^ 63"
  obtains f' where "fake_ListChanged lib kind since (cursor_at s) f = (Inr (page_for f0 kind since (cursor_at s)), f')" "counted f0 f'"
proof -
  obtain f1 where f1: "gate lib ''list'' f = (Inr (), f1)" "counted f f1" by (rule gate_calm [OF fake_okD(1) [OF assms(1)]])
  have c: "counted f0 f1" using assms(2) f1(2) by (rule counted_trans)
  let ?recs = "listed_live since (fake_bucket kind f0)" and ?gone = "listed_deleted (fk_caps f0) since (fake_bucket kind f0)"
  have "\<exists>p. page_at kind f0 ?recs ?gone s = Inr p" using assms(3) by (simp add: page_at_def Let_def)
  then have p: "page_at kind f0 ?recs ?gone s = Inr (page_for f0 kind since (cursor_at s))"
    using cursor_offset [OF assms(3,4)] by (auto simp: page_for_def)
  have o: "(if cursor_at s = '''' then Some 0 else parse_int (cursor_at s)) = Some s"
    using assms(3,4) by (simp add: cursor_at_def parse_itoa)
  have "fake_ListChanged lib kind since (cursor_at s) f = (Inr (page_for f0 kind since (cursor_at s)), f1)"
    by (simp add: fake_ListChanged_def andThen_def f1(1) counted_same [OF c] page_at_same [OF c] Let_def p o del: if_split)
  then show thesis using c by (rule that)
qed

text \<open>From every offset the cursors lead through the rest of the records and end.\<close>

lemma pages_from:
  fixes f :: fake and kind :: string and since :: gotime
  defines "recs \<equiv> listed_live since (fake_bucket kind f)" and "n \<equiv> int (length (listed_live since (fake_bucket kind f)))"
  assumes "n < 2 ^ 63" "0 \<le> s" "s \<le> n"
  shows "\<exists>pgs. page_chain (page_for f kind since) (cursor_at s) pgs \<and>
    concat (map pg_records pgs) = map (toModel kind f) (drop (nat s) recs) \<and> int (length pgs) \<le> n - s + 1 \<and>
    concat (map pg_deleted pgs) = (if s = 0 then listed_deleted (fk_caps f) since (fake_bucket kind f) else [])"
  using assms(4,5)
proof (induction "nat (n - s)" arbitrary: s rule: less_induct)
  case less
  let ?size = "ft_page_size (fk_faults f)" and ?gone = "listed_deleted (fk_caps f) since (fake_bucket kind f)"
  let ?pg = "page_for f kind since (cursor_at s)"
  have pg: "page_at kind f recs ?gone s = Inr ?pg"
    using cursor_offset [of s] less.prems assms(3) by (simp add: page_for_def page_at_def Let_def recs_def n_def)
  show ?case
  proof (cases "?size > 0 \<and> n - s > ?size")
    case True
    let ?next = "s + ?size"
    have p: "?pg = \<lparr>pg_records = map (toModel kind f) (take (nat ?size) (drop (nat s) recs)),
        pg_deleted = (if s = 0 then ?gone else []), pg_cursor = itoa ?next\<rparr>"
      using pg True less.prems by (simp add: page_at_def Let_def recs_def n_def)
    obtain pgs where pgs: "page_chain (page_for f kind since) (cursor_at ?next) pgs"
      "concat (map pg_records pgs) = map (toModel kind f) (drop (nat ?next) recs)"
      "int (length pgs) \<le> n - ?next + 1" "concat (map pg_deleted pgs) = []"
      using less.hyps [of ?next] True less.prems by auto
    have "pgs \<noteq> []" using pgs(1) by (cases pgs) simp_all
    moreover have "cursor_at ?next = itoa ?next" using True less.prems by (simp add: cursor_at_def)
    moreover have "map (toModel kind f) (take (nat ?size) (drop (nat s) recs)) @ map (toModel kind f) (drop (nat ?next) recs) =
        map (toModel kind f) (drop (nat s) recs)"
    proof -
      have "drop (nat ?next) recs = drop (nat ?size) (drop (nat s) recs)"
        using True less.prems by (simp add: nat_add_distrib add.commute)
      then show ?thesis by (simp only: map_append [symmetric] append_take_drop_id)
    qed
    ultimately show ?thesis
      using pgs p True by (intro exI [of _ "?pg # pgs"]) (simp add: HasMore_def)
  next
    case False
    then have p: "?pg = \<lparr>pg_records = map (toModel kind f) (drop (nat s) recs),
        pg_deleted = (if s = 0 then ?gone else []), pg_cursor = ''''\<rparr>"
      using pg less.prems by (auto simp: page_at_def Let_def recs_def n_def split: if_splits)
    then show ?thesis using less.prems by (intro exI [of _ "[?pg]"]) (simp add: HasMore_def)
  qed
qed


section \<open>Writing\<close>

lemma fake_ok_cong:
  "fk_faults f' = fk_faults f \<Longrightarrow> fk_data f' = fk_data f \<Longrightarrow> fk_next_id f' = fk_next_id f \<Longrightarrow> fk_name f' = fk_name f \<Longrightarrow>
   fake_ok f' = fake_ok f"
  by (simp add: fake_ok_def calm_def fake_bucket_def)

lemma readable_cong: "fk_data f' = fk_data f \<Longrightarrow> fk_caps f' = fk_caps f \<Longrightarrow> readable f' = readable f"
  by (intro ext) (simp add: readable_def fake_bucket_def toModel_def split: option.split)

lemma emit_same [simp]:
  "fk_data (emit now ev f) = fk_data f" "fk_caps (emit now ev f) = fk_caps f" "fk_faults (emit now ev f) = fk_faults f"
  "fk_name (emit now ev f) = fk_name f" "fk_next_id (emit now ev f) = fk_next_id f" "fk_idem (emit now ev f) = fk_idem f"
  by (simp_all add: emit_def Let_def)

lemma store_result_same [simp]:
  "fk_data (store_result key res f) = fk_data f" "fk_caps (store_result key res f) = fk_caps f"
  "fk_faults (store_result key res f) = fk_faults f" "fk_name (store_result key res f) = fk_name f"
  "fk_next_id (store_result key res f) = fk_next_id f"
  by (simp_all add: store_result_def)

lemma quiet_ok [simp]:
  "fake_ok (emit now ev f) = fake_ok f" "readable (emit now ev f) = readable f"
  "fake_ok (store_result key res f) = fake_ok f" "readable (store_result key res f) = readable f"
  by (intro fake_ok_cong readable_cong; simp)+

lemma bucket_update: "fake_bucket k (f\<lparr>fk_data := AList.update kind b (fk_data f)\<rparr>) = (if k = kind then b else fake_bucket k f)"
  by (simp add: fake_bucket_def)

lemma toModel_data [simp]: "toModel kind (f\<lparr>fk_data := d\<rparr>) = toModel kind f" "toModel kind (f\<lparr>fk_next_id := i\<rparr>) = toModel kind f"
  by (simp_all add: toModel_def fun_eq_iff)

lemma readable_update:
  "readable (f\<lparr>fk_data := AList.update kind b (fk_data f)\<rparr>) k i =
     (if k = kind then (case map_of b i of None \<Rightarrow> None | Some r \<Rightarrow> if fr_deleted r then None else Some (toModel kind f r))
      else readable f k i)"
  by (simp add: readable_def bucket_update split: option.split)

text \<open>Filing a record under its identifier keeps the fake sound when the identifier is handed out or known.\<close>

lemma fake_ok_file:
  assumes "fake_ok f" "fr_id r = rid" "rid \<noteq> ''''"
    and "\<And>k. fk_next_id f < k \<Longrightarrow> rid \<noteq> fk_name f @ ''-'' @ itoa k"
  shows "fake_ok (f\<lparr>fk_data := AList.update kind (AList.update rid r (fake_bucket kind f)) (fk_data f)\<rparr>)"
proof -
  have "calm (f\<lparr>fk_data := d\<rparr>) = calm f" for d by (simp add: calm_def)
  moreover have "fk_name f @ CHR ''-'' # itoa k \<noteq> fr_id r" if "fk_next_id f < k" for k
    using assms(4) [OF that] assms(2) by auto
  ultimately show ?thesis using assms(1-3) fake_okD [OF assms(1)] by (auto simp: fake_ok_def bucket_update)
qed

lemma fake_ok_drop:
  assumes "fake_ok f"
  shows "fake_ok (f\<lparr>fk_data := AList.update kind (AList.delete rid (fake_bucket kind f)) (fk_data f)\<rparr>)"
proof -
  have "calm (f\<lparr>fk_data := d\<rparr>) = calm f" for d by (simp add: calm_def)
  with assms fake_okD [OF assms(1)] show ?thesis by (auto simp: fake_ok_def bucket_update)
qed

lemma known_not_fresh:
  assumes "fake_ok f" "map_of (fake_bucket kind f) rid \<noteq> None" "fk_next_id f < k"
  shows "rid \<noteq> fk_name f @ ''-'' @ itoa k"
  using fake_okD(5) [OF assms(1,3), of kind] assms(2) by auto

lemma fresh_id_ok:
  assumes "fake_ok f"
  obtains f1 where "fresh_id '''' f = (fk_name f @ ''-'' @ itoa (fk_next_id f + 1), f1)" "fake_ok f1"
    "fk_data f1 = fk_data f" "fk_caps f1 = fk_caps f" "fk_next_id f1 = fk_next_id f + 1" "fk_name f1 = fk_name f"
    "fk_faults f1 = fk_faults f" "fk_idem f1 = fk_idem f"
proof
  let ?f1 = "f\<lparr>fk_next_id := fk_next_id f + 1\<rparr>"
  show "fresh_id '''' f = (fk_name f @ ''-'' @ itoa (fk_next_id f + 1), ?f1)" by (simp add: fresh_id_def)
  have "calm ?f1 = calm f" "fake_bucket k ?f1 = fake_bucket k f" for k by (simp_all add: calm_def fake_bucket_def)
  with assms show "fake_ok ?f1" by (auto simp: fake_ok_def)
qed simp_all

text \<open>What a write leaves behind, for an identifier that is known or was just handed out.\<close>

lemma write_fields_ok:
  assumes "fake_ok f" "rid \<noteq> ''''" "\<And>k. fk_next_id f < k \<Longrightarrow> rid \<noteq> fk_name f @ ''-'' @ itoa k"
    and "write_fields now kind rid fs f = (r, created, f2)"
  shows "fake_ok f2" and "fk_caps f2 = fk_caps f" and "fk_idem f2 = fk_idem f"
    and "created \<longleftrightarrow> map_of (fake_bucket kind f) rid = None"
    and "readable f2 k i = (if (k, i) = (kind, rid) then Some (toModel kind f r) else readable f k i)"
    and "fr_id r = rid" and "fr_updated_at r = stamp now f"
    and "map_of (fr_fields r) = (case map_of (fake_bucket kind f) rid of None \<Rightarrow> Map.empty | Some old \<Rightarrow> map_of (fr_fields old))
           ++ map_of (rev fs)"
proof -
  let ?old = "case map_of (fake_bucket kind f) rid of
    Some r \<Rightarrow> (r, False)
  | None \<Rightarrow> (\<lparr>fr_id = rid, fr_fields = [], fr_updated_at = zero_time, fr_version = 0, fr_deleted = False\<rparr>, True)"
  have r: "r = (fst ?old)\<lparr>fr_deleted := False, fr_fields := assign_all (fr_fields (fst ?old)) fs, fr_updated_at := stamp now f,
      fr_version := fr_version (fst ?old) + 1\<rparr>"
    and c: "created = snd ?old"
    and f2: "f2 = f\<lparr>fk_data := AList.update kind (AList.update rid r (fake_bucket kind f)) (fk_data f)\<rparr>"
    using assms(4) by (auto simp: write_fields_def Let_def case_prod_beta)
  have "fr_id (fst ?old) = rid" using fake_okD(3) [OF assms(1), of kind rid] by (auto split: option.split)
  then show id: "fr_id r = rid" by (simp add: r)
  show "fake_ok f2" unfolding f2 by (rule fake_ok_file [OF assms(1) id assms(2,3)])
  show "fk_caps f2 = fk_caps f" "fk_idem f2 = fk_idem f" by (simp_all add: f2)
  show "created \<longleftrightarrow> map_of (fake_bucket kind f) rid = None" by (auto simp: c split: option.split)
  show "fr_updated_at r = stamp now f" by (simp add: r)
  have "\<not> fr_deleted r" by (simp add: r)
  then show "readable f2 k i = (if (k, i) = (kind, rid) then Some (toModel kind f r) else readable f k i)"
    by (auto simp: f2 readable_update) (simp add: readable_def)
  show "map_of (fr_fields r) = (case map_of (fake_bucket kind f) rid of None \<Rightarrow> Map.empty | Some old \<Rightarrow> map_of (fr_fields old))
      ++ map_of (rev fs)"
    by (simp add: r map_of_assign_all split: option.split)
qed


text \<open>A key the peer has answered is answered again without a write.\<close>

definition used_key :: "fake \<Rightarrow> string \<Rightarrow> bool" where
  "used_key f key \<longleftrightarrow> cap_native_idempotency (fk_caps f) \<and> key \<noteq> '''' \<and> map_of (fk_idem f) key \<noteq> None"

lemma dash_not_empty [simp]: "name @ ''-'' @ s \<noteq> ''''"
  by simp

lemma readable_file: "readable f kind rid = Some r \<Longrightarrow> \<exists>x. map_of (fake_bucket kind f) rid = Some x \<and> r_fields r = fr_fields x"
  by (auto simp: readable_def toModel_def split: option.splits if_splits)

text \<open>The identifier of a write: handed out, or that of a record a client can read.\<close>

lemma target_id:
  assumes "fake_ok f" "rid0 = '''' \<or> readable f kind rid0 \<noteq> None" "fresh_id rid0 f = (rid, f1)"
  shows "fake_ok f1" "rid \<noteq> ''''" "\<And>k. fk_next_id f1 < k \<Longrightarrow> rid \<noteq> fk_name f1 @ ''-'' @ itoa k"
    "fk_caps f1 = fk_caps f" "fk_idem f1 = fk_idem f" "fake_bucket k f1 = fake_bucket k f" "readable f1 = readable f"
    "rid0 = '''' \<Longrightarrow> map_of (fake_bucket k f) rid = None"
    "rid0 \<noteq> '''' \<Longrightarrow> rid = rid0 \<and> map_of (fake_bucket kind f) rid \<noteq> None"
proof -
  have new: "rid = fk_name f @ ''-'' @ itoa (fk_next_id f + 1) \<and> fake_ok f1 \<and> fk_data f1 = fk_data f \<and> fk_caps f1 = fk_caps f \<and>
      fk_next_id f1 = fk_next_id f + 1 \<and> fk_name f1 = fk_name f \<and> fk_idem f1 = fk_idem f" if "rid0 = ''''"
    using fresh_id_ok [OF assms(1)] assms(3) that by (metis prod.inject)
  have old: "rid = rid0 \<and> f1 = f" if "rid0 \<noteq> ''''" using assms(3) that by (simp add: fresh_id_def)
  show "fake_ok f1" "fk_caps f1 = fk_caps f" "fk_idem f1 = fk_idem f" using new old assms(1) by blast+
  have data: "fk_data f1 = fk_data f" using new old by blast
  show "fake_bucket k f1 = fake_bucket k f" "readable f1 = readable f"
    using data \<open>fk_caps f1 = fk_caps f\<close> by (simp add: fake_bucket_def, intro readable_cong)
  show gone: "map_of (fake_bucket k f) rid = None" if "rid0 = ''''" for k
    using new [OF that] fake_okD(5) [OF assms(1), of "fk_next_id f + 1" k] by simp
  show known: "rid = rid0 \<and> map_of (fake_bucket kind f) rid \<noteq> None" if "rid0 \<noteq> ''''"
    using old [OF that] assms(2) that by (auto dest: readable_file)
  show "rid \<noteq> ''''" using new old by (cases "rid0 = ''''") auto
  show "rid \<noteq> fk_name f1 @ ''-'' @ itoa k" if "fk_next_id f1 < k" for k
  proof (cases "rid0 = ''''")
    case True
    with new that show ?thesis by (auto simp: itoa_inj)
  next
    case False
    with old that known [OF False] show ?thesis using known_not_fresh [OF assms(1), of kind rid0 k] by auto
  qed
qed

lemma Upsert_eq:
  assumes "fake_ok f" "\<not> used_key f key"
  obtains g where "fake_Upsert lib now kind rec key f = upsert_now now kind rec key g" "counted f g" "\<not> rejected g rec"
proof -
  obtain g where g: "gate lib ''upsert'' f = (Inr (), g)" "counted f g" by (rule gate_calm [OF fake_okD(1) [OF assms(1)]])
  have "fake_Upsert lib now kind rec key f = upsert_now now kind rec key g"
    using assms(2) g(1) by (auto simp: fake_Upsert_def used_key_def andThen_def)
  moreover have "\<not> rejected g rec"
    using fake_okD(1) [OF assms(1)] by (simp add: rejected_def counted_same [OF g(2)] calm_def Let_def)
  ultimately show thesis using that g(2) by blast
qed

lemma Upsert_ok:
  assumes "fake_ok f" "\<not> used_key f key" "wf_map (r_fields rec)"
    and "r_remote_id rec = '''' \<or> readable f kind (r_remote_id rec) \<noteq> None"
  obtains res f' r where "fake_Upsert lib now kind rec key f = (Inr res, f')" "fake_ok f'"
    "if r_remote_id rec = '''' then wr_remote_id res \<noteq> '''' \<and> (\<forall>k. readable f k (wr_remote_id res) = None)
     else wr_remote_id res = r_remote_id rec"
    "wr_created res \<longleftrightarrow> r_remote_id rec = ''''" "readable f' kind (wr_remote_id res) = Some r"
    "map_of (r_fields r) = (case readable f kind (wr_remote_id res) of None \<Rightarrow> Map.empty | Some old \<Rightarrow> map_of (r_fields old))
       ++ map_of (r_fields rec)"
    "\<And>k i. (k, i) \<noteq> (kind, wr_remote_id res) \<Longrightarrow> readable f' k i = readable f k i"
proof -
  obtain g where g: "fake_Upsert lib now kind rec key f = upsert_now now kind rec key g" "counted f g" "\<not> rejected g rec"
    by (rule Upsert_eq [OF assms(1,2)])
  note same = counted_same [OF g(2)]
  obtain rid f1 where f1: "fresh_id (r_remote_id rec) g = (rid, f1)" by fastforce
  obtain x created f2 where w: "write_fields now kind rid (r_fields rec) f1 = (x, created, f2)" by (metis prod_cases3)
  have ok: "fake_ok g" and "r_remote_id rec = '''' \<or> readable g kind (r_remote_id rec) \<noteq> None" using assms(1,4) same by simp_all
  note t = target_id [OF this f1, unfolded same]
  note wr = write_fields_ok [OF t(1,2,3) w, unfolded t(6)]
  let ?res = "\<lparr>wr_remote_id = rid, wr_created = (r_remote_id rec = '''' \<or> created), wr_version = itoa (fr_version x),
     wr_updated_at = fr_updated_at x\<rparr>"
  have old: "map_of (fake_bucket kind f) rid = Some y \<Longrightarrow> \<exists>r. readable f kind rid = Some r \<and> r_fields r = fr_fields y" for y
    using t(8) [of kind] t(9) assms(4) by (cases "r_remote_id rec = ''''") (simp_all, use readable_file in fastforce)
  show thesis
  proof (rule that)
    show "fake_Upsert lib now kind rec key f =
        (Inr ?res, emit now (upsert_event kind rid (toModel kind f2 x)) (store_result key ?res f2))"
      using g(1,3) f1 w by (simp add: upsert_now_def Let_def)
    show "fake_ok (emit now (upsert_event kind rid (toModel kind f2 x)) (store_result key ?res f2))" using wr(1) by simp
    show "if r_remote_id rec = '''' then wr_remote_id ?res \<noteq> '''' \<and> (\<forall>k. readable f k (wr_remote_id ?res) = None)
        else wr_remote_id ?res = r_remote_id rec"
      using t(2,8,9) by (simp add: readable_def)
    show "wr_created ?res \<longleftrightarrow> r_remote_id rec = ''''" using wr(4) t(9) by (cases "r_remote_id rec = ''''") auto
    show "readable (emit now (upsert_event kind rid (toModel kind f2 x)) (store_result key ?res f2)) kind (wr_remote_id ?res) =
        Some (toModel kind f1 x)"
      using wr(5) [of kind rid] by simp
    show "map_of (r_fields (toModel kind f1 x)) =
        (case readable f kind (wr_remote_id ?res) of None \<Rightarrow> Map.empty | Some old \<Rightarrow> map_of (r_fields old)) ++ map_of (r_fields rec)"
      using wr(8) old
      by (auto simp: toModel_def map_of_rev [OF assms(3)] split: option.splits) (auto simp: readable_def)
    show "readable (emit now (upsert_event kind rid (toModel kind f2 x)) (store_result key ?res f2)) k i = readable f k i"
      if "(k, i) \<noteq> (kind, wr_remote_id ?res)" for k i
      using wr(5) [of k i] that t(7) by auto
  qed
qed


lemma Upsert_replayed:
  assumes "fake_ok f" "\<not> used_key f key" "fake_Upsert lib now kind rec key f = (Inr res, f')" "used_key f' key"
  shows "fake_Upsert lib now' kind' rec' key f' = (Inr res, f')"
proof -
  obtain g where g: "fake_Upsert lib now kind rec key f = upsert_now now kind rec key g" "counted f g" "\<not> rejected g rec"
    by (rule Upsert_eq [OF assms(1,2)])
  have "map_of (fk_idem f') key = Some res"
    using assms(3,4) g(1,3)
    by (auto simp: upsert_now_def used_key_def store_result_def write_fields_def fresh_id_def Let_def case_prod_beta split: if_splits)
  then show ?thesis using assms(4) by (simp add: fake_Upsert_def used_key_def)
qed

lemma Delete_ok:
  assumes "fake_ok f"
  obtains f' where "fake_Delete lib now kind rid key f = (Inr (), f')" "fake_ok f'" "readable f' kind rid = None"
    "\<And>k i. (k, i) \<noteq> (kind, rid) \<Longrightarrow> readable f' k i = readable f k i"
proof -
  obtain g where g: "gate lib ''delete'' f = (Inr (), g)" "counted f g" by (rule gate_calm [OF fake_okD(1) [OF assms]])
  note same = counted_same [OF g(2)]
  have ok: "fake_ok g" using assms same(8) by simp
  let ?f' = "remove_record now kind rid g"
  have "fake_ok ?f' \<and> readable ?f' kind rid = None \<and> (\<forall>k i. (k, i) \<noteq> (kind, rid) \<longrightarrow> readable ?f' k i = readable g k i)"
  proof (cases "map_of (fake_bucket kind g) rid")
    case None
    then show ?thesis using ok by (simp add: remove_record_def readable_def)
  next
    case (Some r)
    note r = fake_okD(3,4) [OF ok Some]
    let ?gone = "r\<lparr>fr_deleted := True, fr_updated_at := stamp now g\<rparr>"
    have "fake_ok (g\<lparr>fk_data := AList.update kind (AList.update rid ?gone (fake_bucket kind g)) (fk_data g)\<rparr>)"
      by (rule fake_ok_file [OF ok]) (use r Some known_not_fresh [OF ok, of kind rid] in auto)
    with Some fake_ok_drop [OF ok] show ?thesis
      by (auto simp: remove_record_def Let_def readable_update AList.delete_conv) (simp_all add: readable_def)
  qed
  moreover have "fake_Delete lib now kind rid key f = (Inr (), ?f')" using g(1) by (simp add: fake_Delete_def andThen_def)
  ultimately show thesis using that same(9) by simp
qed

lemma Describe_ok:
  assumes "fake_ok f"
  obtains x f' where "fake_Describe lib kind f = (x, f')" "counted f f'"
    "case map_of (fk_schemas f) kind of Some s \<Rightarrow> x = Inr s | None \<Rightarrow> (\<exists>err. x = Inl err \<and> not_found err)"
proof -
  let ?g = "f\<lparr>fk_calls := AList.update ''describe'' (Calls ''describe'' f + 1) (fk_calls f)\<rparr>"
  let ?f' = "?g\<lparr>fk_describe_seen := fk_describe_seen ?g + 1\<rparr>"
  have calm: "calm f" by (rule fake_okD(1) [OF assms])
  then have gate: "gate lib ''describe'' f = (Inr (), ?g)" by (simp add: gate_def Let_def calm_def)
  have rename: "maybeRename ?f' = ?f'" using calm by (simp add: maybeRename_def Let_def calm_def)
  have "counted f ?f'" by (simp add: counted_def)
  moreover have "fake_Describe lib kind f = (case map_of (fk_schemas f) kind of
      None \<Rightarrow> (Inl (Errorf ?f' ''describe'' KindNotFound (''no object '' @ quoted kind)), ?f') | Some s \<Rightarrow> (Inr s, ?f'))"
    using gate rename by (simp add: fake_Describe_def andThen_def Let_def split: option.split)
  ultimately show thesis
    using that by (cases "map_of (fk_schemas f) kind") (auto simp: not_found_def Errorf_def KindOf_def)
qed


text \<open>The records a client can read are the listed ones.\<close>

lemma readable_finite: "finite {rid. readable f kind rid \<noteq> None}"
  by (rule finite_subset [OF _ finite_dom_map_of [of "fake_bucket kind f"]])
    (auto simp: readable_def split: option.splits)

lemma listed_readable:
  assumes "fake_ok f"
  shows "set (map (toModel kind f) (listed_live since (fake_bucket kind f))) =
    {r. \<exists>rid. readable f kind rid = Some r \<and> since \<le> r_updated_at r}"
proof -
  have filed: "x \<in> snd ` set (fake_bucket kind f) \<longleftrightarrow> (\<exists>rid. map_of (fake_bucket kind f) rid = Some x)" for x
    using wf_map_lookup [OF fake_okD(2) [OF assms]] by force
  then show ?thesis
    by (auto simp: listed_live_sorted readable_def toModel_def image_iff split: option.splits if_splits) fastforce
qed

lemma listed_model_distinct:
  assumes "fake_ok f"
  shows "distinct (map r_remote_id (map (toModel kind f) (listed_live since (fake_bucket kind f))))"
  using listed_live_distinct [OF fake_okD(2) [OF assms, of kind] fake_okD(3) [OF assms, of kind], of since]
  by (simp add: toModel_def comp_def)

lemma listed_readable_length:
  assumes "fake_ok f"
  shows "length (listed_live since (fake_bucket kind f)) \<le> card {rid. readable f kind rid \<noteq> None}"
proof -
  let ?rs = "map (toModel kind f) (listed_live since (fake_bucket kind f))"
  have "r_remote_id ` set ?rs \<subseteq> {rid. readable f kind rid \<noteq> None}"
    unfolding listed_readable [OF assms]
    using fake_okD(3) [OF assms, of kind] by (auto simp: readable_def toModel_def split: option.splits if_splits)
  then have "card (set (map r_remote_id ?rs)) \<le> card {rid. readable f kind rid \<noteq> None}"
    using readable_finite by (simp only: set_map) (rule card_mono)
  then show ?thesis using distinct_card [OF listed_model_distinct [OF assms, of kind since]] by simp
qed

lemma next_cursor:
  fixes f :: fake and kind :: string and since :: gotime
  defines "n \<equiv> int (length (listed_live since (fake_bucket kind f)))"
  assumes "0 \<le> s" "s \<le> n" "n < 2 ^ 63" "HasMore (page_for f kind since (cursor_at s))"
  shows "pg_cursor (page_for f kind since (cursor_at s)) \<in> cursor_at ` {s. 0 \<le> s \<and> s \<le> n}"
proof -
  let ?size = "ft_page_size (fk_faults f)"
  have more: "?size > 0 \<and> n - s > ?size \<and> pg_cursor (page_for f kind since (cursor_at s)) = itoa (s + ?size)"
    using assms(5) cursor_offset [of s] assms(2-4)
    by (auto simp: page_for_def page_at_def Let_def HasMore_def n_def split: if_splits)
  then show ?thesis using assms(2) by (auto simp: cursor_at_def image_iff intro!: exI [of _ "s + ?size"])
qed

lemma List_ok:
  assumes "fake_ok (w n)" "card {rid. readable (w n) kind rid \<noteq> None} < 2 ^ 63"
  shows "\<exists>f C pgs K. K w \<and> pages_of (fake_ops lib caps False) n kind since f C K \<and> page_chain f '''' pgs \<and>
    (\<forall>w'. K w' \<longrightarrow> fake_ok (w' n) \<and> readable (w' n) = readable (w n)) \<and>
    distinct (map r_remote_id (listed pgs)) \<and>
    set (listed pgs) = {r. \<exists>rid. readable (w n) kind rid = Some r \<and> since \<le> r_updated_at r} \<and>
    length pgs \<le> length (listed pgs) + 1"
proof -
  let ?f = "page_for (w n) kind since" and ?recs = "listed_live since (fake_bucket kind (w n))"
  let ?C = "cursor_at ` {s. 0 \<le> s \<and> s \<le> int (length ?recs)}" and ?K = "\<lambda>w'. counted (w n) (w' n)"
  have "length ?recs < 2 ^ 63" using listed_readable_length [OF assms(1)] assms(2) by (rule le_less_trans)
  then have "int (length ?recs) < int (2 ^ 63)" by (simp only: of_nat_less_iff)
  then have len: "int (length ?recs) < 2 ^ 63" by simp
  obtain pgs where pgs: "page_chain ?f '''' pgs" "listed pgs = map (toModel kind (w n)) ?recs"
    "int (length pgs) \<le> int (length ?recs) + 1"
    using pages_from [OF len, of 0] by (auto simp: cursor_at_def listed_def)
  have pages: "pages_of (fake_ops lib caps False) n kind since ?f ?C ?K"
    unfolding pages_of_def
  proof (intro conjI ballI allI impI)
    show "'''' \<in> ?C" by (auto simp: cursor_at_def image_iff intro!: exI [of _ 0])
    fix c assume "c \<in> ?C"
    then obtain s where s: "0 \<le> s" "s \<le> int (length ?recs)" "c = cursor_at s" by auto
    show "pg_cursor (?f c) \<in> ?C" if "HasMore (?f c)" using next_cursor [OF s(1,2) len] that s(3) by auto
    fix now w' assume "?K w'"
    moreover have "s < 2 ^ 63" using s(2) len by linarith
    ultimately obtain f' where "fake_ListChanged lib kind since c (w' n) = (Inr (?f c), f')" "counted (w n) f'"
      using ListChanged_page [of "w' n" "w n" s lib kind since] s(1,3) counted_same(8) assms(1) by metis
    then show "\<exists>w''. co_list (fake_ops lib caps False) n now kind since c w' = (Inr (?f c), w'') \<and> ?K w''"
      by (simp add: fake_ops_def on_fake_def under_ctx_def)
  qed
  have keep: "\<forall>w'. ?K w' \<longrightarrow> fake_ok (w' n) \<and> readable (w' n) = readable (w n)"
    using counted_same(8,9) assms(1) by blast
  have "length pgs \<le> length (listed pgs) + 1" using pgs(2,3) by simp
  with pages keep pgs(1) show ?thesis
    unfolding listed_readable [OF assms(1), of kind since, symmetric] pgs(2) [symmetric]
    by (intro exI [of _ ?f] exI [of _ ?C] exI [of _ pgs] exI [of _ ?K] conjI counted_refl refl
        listed_model_distinct [OF assms(1), of kind since, folded pgs(2)])
qed


section \<open>The fake is a connector\<close>

lemma on_fake_apply: "m (w n) = (x, f') \<Longrightarrow> on_fake n (under_ctx False m) w = (x, w(n := f'))"
  by (simp add: on_fake_def under_ctx_def)

lemma fake_calls [simp]:
  "co_describe (fake_ops lib caps c) n now kind = on_fake n (under_ctx c (fake_Describe lib kind))"
  "co_get (fake_ops lib caps c) n now kind rid = on_fake n (under_ctx c (fake_Get lib kind rid))"
  "co_upsert (fake_ops lib caps c) n now kind rec key = on_fake n (under_ctx c (fake_Upsert lib now kind rec key))"
  "co_delete (fake_ops lib caps c) n now kind rid key = on_fake n (under_ctx c (fake_Delete lib now kind rid key))"
  by (simp_all add: fake_ops_def)

interpretation fakes: crm_connector "fake_ops lib caps False" n "\<lambda>w. fake_ok (w n)" "\<lambda>w. readable (w n)"
  "\<lambda>w. used_key (w n)" "\<lambda>w kind. map_of (fk_schemas (w n)) kind"
proof
  fix w :: "string \<Rightarrow> fake" and now kind and rec :: crm_record and rid key since and r :: crm_record
  assume ok: "fake_ok (w n)"
  show "\<exists>x w'. co_describe (fake_ops lib caps False) n now kind w = (x, w') \<and> fake_ok (w' n) \<and> readable (w' n) = readable (w n) \<and>
      (case map_of (fk_schemas (w n)) kind of Some s \<Rightarrow> x = Inr s | None \<Rightarrow> (\<exists>err. x = Inl err \<and> not_found err))"
  proof -
    obtain x f' where d: "fake_Describe lib kind (w n) = (x, f')" "counted (w n) f'"
      "case map_of (fk_schemas (w n)) kind of Some s \<Rightarrow> x = Inr s | None \<Rightarrow> (\<exists>err. x = Inl err \<and> not_found err)"
      by (rule Describe_ok [OF ok])
    then show ?thesis using ok counted_same(8,9) [OF d(2)] on_fake_apply [of "fake_Describe lib kind" w n, OF d(1)] by auto
  qed
  show "\<exists>x w'. co_get (fake_ops lib caps False) n now kind rid w = (x, w') \<and> fake_ok (w' n) \<and> readable (w' n) = readable (w n) \<and>
      (case readable (w n) kind rid of Some r \<Rightarrow> x = Inr r | None \<Rightarrow> (\<exists>err. x = Inl err \<and> not_found err))"
  proof (cases "readable (w n) kind rid")
    case None
    obtain err f' where g: "fake_Get lib kind rid (w n) = (Inl err, f')" "KindOf (Some err) = KindNotFound" "counted (w n) f'"
      by (rule Get_absent [OF ok None])
    then show ?thesis using ok None counted_same(8,9) [OF g(3)] on_fake_apply [of "fake_Get lib kind rid" w n, OF g(1)] by (auto simp: not_found_def)
  next
    case (Some r)
    obtain f' where g: "fake_Get lib kind rid (w n) = (Inr r, f')" "counted (w n) f'" by (rule Get_found [OF ok Some])
    then show ?thesis using ok Some counted_same(8,9) [OF g(2)] on_fake_apply [of "fake_Get lib kind rid" w n, OF g(1)] by auto
  qed
  show "readable (w n) kind rid = Some r \<Longrightarrow> r_remote_id r = rid \<and> r_kind r = kind"
    using fake_okD(3) [OF ok] by (auto simp: readable_def toModel_def split: option.splits if_splits)
  show "\<exists>w'. co_delete (fake_ops lib caps False) n now kind rid key w = (Inr (), w') \<and> fake_ok (w' n) \<and> readable (w' n) kind rid = None \<and>
      (\<forall>k i. (k, i) \<noteq> (kind, rid) \<longrightarrow> readable (w' n) k i = readable (w n) k i)"
  proof -
    obtain f' where d: "fake_Delete lib now kind rid key (w n) = (Inr (), f')" "fake_ok f'" "readable f' kind rid = None"
      "\<And>k i. (k, i) \<noteq> (kind, rid) \<Longrightarrow> readable f' k i = readable (w n) k i"
      by (rule Delete_ok [OF ok, of lib now kind rid key]) (rule that)
    then show ?thesis using on_fake_apply [of "fake_Delete lib now kind rid key" w n, OF d(1)] by auto
  qed
  show "finite {rid. readable (w n) kind rid \<noteq> None} \<and>
      (card {rid. readable (w n) kind rid \<noteq> None} < 2 ^ 63 \<longrightarrow>
       (\<exists>f C pgs K. K w \<and> pages_of (fake_ops lib caps False) n kind since f C K \<and> page_chain f '''' pgs \<and>
         (\<forall>w'. K w' \<longrightarrow> fake_ok (w' n) \<and> readable (w' n) = readable (w n)) \<and>
         distinct (map r_remote_id (listed pgs)) \<and>
         set (listed pgs) = {r. \<exists>rid. readable (w n) kind rid = Some r \<and> since \<le> r_updated_at r} \<and>
         length pgs \<le> length (listed pgs) + 1))"
    using readable_finite List_ok [of w n, OF ok] by (intro conjI impI)
  assume unused: "\<not> used_key (w n) key"
  show "\<exists>res w' r. co_upsert (fake_ops lib caps False) n now kind rec key w = (Inr res, w') \<and> fake_ok (w' n) \<and>
      (if r_remote_id rec = '''' then wr_remote_id res \<noteq> '''' \<and> (\<forall>k. readable (w n) k (wr_remote_id res) = None)
       else wr_remote_id res = r_remote_id rec) \<and>
      (wr_created res \<longleftrightarrow> r_remote_id rec = '''') \<and> readable (w' n) kind (wr_remote_id res) = Some r \<and>
      map_of (r_fields r) = (case readable (w n) kind (wr_remote_id res) of None \<Rightarrow> Map.empty | Some old \<Rightarrow> map_of (r_fields old))
         ++ map_of (r_fields rec) \<and>
      (\<forall>k i. (k, i) \<noteq> (kind, wr_remote_id res) \<longrightarrow> readable (w' n) k i = readable (w n) k i)"
    if args: "wf_map (r_fields rec)" "r_remote_id rec = '''' \<or> readable (w n) kind (r_remote_id rec) \<noteq> None"
  proof -
    obtain res f' r where u: "fake_Upsert lib now kind rec key (w n) = (Inr res, f')" "fake_ok f'"
      "if r_remote_id rec = '''' then wr_remote_id res \<noteq> '''' \<and> (\<forall>k. readable (w n) k (wr_remote_id res) = None)
       else wr_remote_id res = r_remote_id rec"
      "wr_created res \<longleftrightarrow> r_remote_id rec = ''''" "readable f' kind (wr_remote_id res) = Some r"
      "map_of (r_fields r) = (case readable (w n) kind (wr_remote_id res) of None \<Rightarrow> Map.empty | Some old \<Rightarrow> map_of (r_fields old))
         ++ map_of (r_fields rec)"
      "\<And>k i. (k, i) \<noteq> (kind, wr_remote_id res) \<Longrightarrow> readable f' k i = readable (w n) k i"
      by (rule Upsert_ok [OF ok unused args, of lib now]) (rule that)
    note on_fake_apply [of "fake_Upsert lib now kind rec key" w n, OF u(1)]
    with u(2-7) show ?thesis by (intro exI [of _ res] exI [of _ "w(n := f')"] exI [of _ r] conjI) simp_all
  qed
  fix res w' now' kind' rec'
  assume call: "co_upsert (fake_ops lib caps False) n now kind rec key w = (Inr res, w')" and used: "used_key (w' n) key"
  obtain f' where f': "fake_Upsert lib now kind rec key (w n) = (Inr res, f')" "w' = w(n := f')"
    using call by (auto simp: on_fake_def under_ctx_def split: prod.splits)
  then have "fake_Upsert lib now' kind' rec' key (w' n) = (Inr res, w' n)"
    using Upsert_replayed [OF ok unused f'(1)] used by simp
  then show "co_upsert (fake_ops lib caps False) n now' kind' rec' key w' = (Inr res, w')"
    by (simp add: on_fake_def under_ctx_def)
qed


section \<open>Properties\<close>

lemma Upsert_used:
  assumes "fake_ok f" "\<not> used_key f key" "fake_Upsert lib now kind rec key f = (Inr res, f')"
    and "cap_native_idempotency (fk_caps f)" "key \<noteq> ''''"
  shows "used_key f' key"
proof -
  obtain g where g: "fake_Upsert lib now kind rec key f = upsert_now now kind rec key g" "counted f g" "\<not> rejected g rec"
    by (rule Upsert_eq [OF assms(1,2)])
  show ?thesis
    using assms(3-5) g(1,3) counted_same(2) [OF g(2)]
    by (auto simp: upsert_now_def used_key_def store_result_def write_fields_def fresh_id_def Let_def case_prod_beta split: if_splits)
qed

lemma fake_ok_New: "fake_ok (fake_New name caps secret schemas (no_faults\<lparr>ft_page_size := k\<rparr>))"
  by (simp add: fake_ok_def fake_New_def fake_bucket_def calm_def no_faults_def)

lemma ExternalUpsert_ok:
  assumes "fake_ok f" "rid0 = '''' \<or> readable f kind rid0 \<noteq> None"
  shows "fake_ok (snd (ExternalUpsert now kind rid0 fs f))"
proof -
  obtain rid f1 where f1: "fresh_id rid0 f = (rid, f1)" by fastforce
  obtain x created f2 where w: "write_fields now kind rid fs f1 = (x, created, f2)" by (metis prod_cases3)
  note t = target_id [OF assms f1]
  show ?thesis using f1 w write_fields_ok(1) [OF t(1,2,3) w] by (simp add: ExternalUpsert_def Let_def)
qed


definition example_peers :: "string \<Rightarrow> fake" where
  "example_peers n =
     (let f0 = fake_New n (co_caps example_conn n) '''' [] (no_faults\<lparr>ft_page_size := 1\<rparr>);
          f1 = snd (ExternalUpsert unix_epoch ''contact'' '''' [(''email'', VStr ''a@b.c'')] f0)
      in snd (ExternalUpsert (unix_epoch + second) ''contact'' '''' [(''email'', VStr ''d@e.f'')] f1))"

lemma example_peers_ok: "fake_ok (example_peers n)"
  unfolding example_peers_def Let_def by (intro ExternalUpsert_ok fake_ok_New) simp_all

definition peers_env :: "stdlib \<Rightarrow> (doc mem, string \<Rightarrow> fake) env" where
  "peers_env lib =
     \<lparr>pe_hash = (\<lambda>x. x), pe_store = mem_ops, pe_conn = fake_ops lib (co_caps example_conn) False, pe_windows = [],
      pe_ttl = DefaultTTL, pe_marks = [], pe_sync_list = [example_sync ''bidirectional''],
      pe_syncs = [(''contacts'', example_sync ''bidirectional'')], pe_cancelled = False, pe_max_attempts = 5\<rparr>"

definition peers_eng :: "(doc mem, string \<Rightarrow> fake) eng" where
  "peers_eng =
     \<lparr>en_store = NewMem, en_world = example_peers, en_now = unix_epoch, en_buckets = [],
      en_origin_stats = no_origin_stats, en_stats = no_stats, en_plan = None, en_seq = 0\<rparr>"

lemma toModel_sel: "r_remote_id (toModel kind f x) = fr_id x" "r_updated_at (toModel kind f x) = fr_updated_at x"
  by (simp_all add: toModel_def)

lemma peers_env_simps:
  "pe_conn (peers_env lib) = fake_ops lib (co_caps example_conn) False" "pe_store (peers_env lib) = mem_ops" "\<not> pe_cancelled (peers_env lib)"
  by (simp_all add: peers_env_def)

lemma example_bucket:
  "fake_bucket ''contact'' (example_peers ''hub'') =
     [(''hub-1'', \<lparr>fr_id = ''hub-1'', fr_fields = [(''email'', VStr ''a@b.c'')], fr_updated_at = unix_epoch, fr_version = 1,
        fr_deleted = False\<rparr>),
      (''hub-2'', \<lparr>fr_id = ''hub-2'', fr_fields = [(''email'', VStr ''d@e.f'')], fr_updated_at = unix_epoch + second, fr_version = 1,
        fr_deleted = False\<rparr>)]"
  by code_simp

lemma example_readable:
  "readable (example_peers ''hub'') ''contact'' rid = Some r \<longleftrightarrow>
     (rid, r) \<in> set (map (\<lambda>(i, x). (i, toModel ''contact'' (example_peers ''hub'') x)) (fake_bucket ''contact'' (example_peers ''hub'')))"
  by (auto simp: readable_def example_bucket split: if_splits)

lemma example_peers_records: "{rid. readable (example_peers ''hub'') ''contact'' rid \<noteq> None} = {''hub-1'', ''hub-2''}"
  by (auto simp: readable_def example_bucket split: if_splits)

definition example_lib0 :: stdlib where
  "example_lib0 = \<lparr>lib_mac = (\<lambda>k m. k @ m), lib_encode = (\<lambda>_. Inr ''''), lib_decode = (\<lambda>_. Inr []), lib_float = (\<lambda>_. 0), lib_int = (\<lambda>_ _. 0)\<rparr>"


text \<open>
  A create is read back and is not repeated. A write without an identifier under a fresh key
  makes a record that a client then reads with the fields that were sent, no other record changes,
  and a peer that keeps keys answers the same key again with the same result and without a write.
\<close>

theorem create_reads_back:
  assumes "fake_ok (w n)" "\<not> used_key (w n) key" "wf_map (r_fields rec)" "r_remote_id rec = ''''"
    and "cap_native_idempotency (fk_caps (w n))" "key \<noteq> ''''"
  shows "\<exists>res w' r w''. co_upsert (fake_ops lib caps False) n now kind rec key w = (Inr res, w') \<and> wr_created res \<and>
    co_get (fake_ops lib caps False) n now' kind (wr_remote_id res) w' = (Inr r, w'') \<and> r_remote_id r = wr_remote_id res \<and>
    map_of (r_fields r) = map_of (r_fields rec) \<and>
    (\<forall>k i. readable (w n) k i \<noteq> None \<longrightarrow> readable (w'' n) k i = readable (w n) k i) \<and>
    co_upsert (fake_ops lib caps False) n now'' kind' rec' key w' = (Inr res, w')"
proof -
  obtain res w' r w'' where c: "co_upsert (fake_ops lib caps False) n now kind rec key w = (Inr res, w')" "wr_created res"
    "co_get (fake_ops lib caps False) n now' kind (wr_remote_id res) w' = (Inr r, w'')" "r_remote_id r = wr_remote_id res"
    "map_of (r_fields r) = map_of (r_fields rec)"
    "\<forall>k i. readable (w n) k i \<noteq> None \<longrightarrow> readable (w'' n) k i = readable (w n) k i"
    using fakes.create_then_get [where w = w and n = n and lib = lib and caps = caps and now = now and now' = now' and kind = kind, OF assms(1-4)]
    by blast
  obtain f' where f': "fake_Upsert lib now kind rec key (w n) = (Inr res, f')" "w' = w(n := f')"
    using c(1) by (auto simp: on_fake_def under_ctx_def split: prod.splits)
  have "used_key (w' n) key" using Upsert_used [OF assms(1,2) f'(1) assms(5,6)] f'(2) by simp
  with fakes.replayed [where w = w and n = n, OF assms(1,2) c(1)] c show ?thesis by blast
qed

theorem create_reads_back_witness:
  "\<exists>res w' r w''. co_upsert (fake_ops example_lib0 (co_caps example_conn) False) ''hub'' unix_epoch ''contact'' \<lparr>r_kind = ''contact'', r_remote_id = '''', r_fields = [(''email'', VStr ''x'')], r_updated_at = 0, r_version = ''''\<rparr> ''k'' example_peers =
      (Inr res, w') \<and>
    co_get (fake_ops example_lib0 (co_caps example_conn) False) ''hub'' unix_epoch ''contact'' (wr_remote_id res) w' = (Inr r, w'') \<and>
    map_of (r_fields r) ''email'' = Some (VStr ''x'')"
proof -
  let ?rec = "\<lparr>r_kind = ''contact'', r_remote_id = '''', r_fields = [(''email'', VStr ''x'')], r_updated_at = 0, r_version = ''''\<rparr>"
  have "\<not> used_key (example_peers ''hub'') ''k''" "cap_native_idempotency (fk_caps (example_peers ''hub''))" by code_simp+
  moreover have "wf_map (r_fields ?rec)" "r_remote_id ?rec = ''''" "''k'' \<noteq> ''''" by (simp_all add: wf_map_def)
  ultimately obtain res w' r w'' where
    "co_upsert (fake_ops example_lib0 (co_caps example_conn) False) ''hub'' unix_epoch ''contact'' ?rec ''k'' example_peers = (Inr res, w')"
    "co_get (fake_ops example_lib0 (co_caps example_conn) False) ''hub'' unix_epoch ''contact'' (wr_remote_id res) w' = (Inr r, w'')"
    "map_of (r_fields r) = map_of (r_fields ?rec)"
    using create_reads_back [of example_peers "''hub''" "''k''" ?rec example_lib0 "co_caps example_conn" unix_epoch "''contact''" unix_epoch] example_peers_ok
    by blast
  then show ?thesis by (intro exI conjI) (assumption+, simp)
qed


text \<open>
  A generated identifier is not checked against the records that are there: after a record was
  entered under the identifier \<open>hub-1\<close>, the first create reports a new record but writes over that
  one, and a client still reads one record, with the fields of both.
\<close>

theorem generated_id_overwrites:
  "let f0 = fake_New ''hub'' (co_caps example_conn ''hub'') '''' [] no_faults;
       f1 = snd (ExternalUpsert unix_epoch ''contact'' ''hub-1'' [(''email'', VStr ''a@b.c'')] f0);
       (x, f2) = upsert_now unix_epoch ''contact''
         \<lparr>r_kind = ''contact'', r_remote_id = '''', r_fields = [(''phone'', VStr ''1'')], r_updated_at = 0, r_version = ''''\<rparr> '''' f1
   in (case x of Inr res \<Rightarrow> wr_created res \<and> wr_remote_id res = ''hub-1'' | Inl _ \<Rightarrow> False) \<and>
      map r_fields (Records ''contact'' f2) = [[(''email'', VStr ''a@b.c''), (''phone'', VStr ''1'')]]"
  by code_simp

end
