(* ===== verification/Config.thy ===== *)
theory Config
  imports Conflict Identity Rate_Limit
begin

text \<open>
  \<^verbatim>\<open>internal/config/config.go\<close>: the configuration as it is after decoding, its defaults and
  its validation. Reading and decoding the file is \<^verbatim>\<open>encoding/json\<close>'s; a float of the file
  is a rational here. An error names the path it is about, as in the source; the value a message
  prints at its end is left out. The two loops over Go maps are in a fixed order here.
\<close>

section \<open>The file\<close>

record rate_limit =
  rl_rate_per_sec :: rat
  rl_burst :: int

record cfg_connector =
  cc_base_dir :: string
  cc_name :: string
  cc_driver :: string
  cc_echo_window :: duration
  cc_overlap :: duration
  cc_rate_limit :: rate_limit
  cc_options :: "(string, string) gomap"

record cfg_identity =
  ci_keys :: "string list"
  ci_on_ambiguous :: string

record cfg_conflict =
  cf_default :: string
  cf_per_field :: "(string, string) gomap"

record field_pair =
  fp_canonical :: string
  fp_left :: string
  fp_right :: string
  fp_transform :: string
  fp_direction :: string

record cfg_sync =
  cs_kind :: string
  cs_left :: string
  cs_right :: string
  cs_direction :: string
  cs_identity :: cfg_identity
  cs_conflict :: cfg_conflict
  cs_pairs :: "field_pair list"

record config =
  cg_dir :: string
  cg_log_level :: string
  cg_listen :: string
  cg_state_dir :: string
  cg_workers :: int
  cg_max_attempts :: int
  cg_connectors :: "cfg_connector list"
  cg_syncs :: "cfg_sync list"

definition validAmbiguous :: "string list" where
  "validAmbiguous = [''review'', ''create'', ''skip'']"

definition validConflicts :: "string list" where
  "validConflicts = [''left_wins'', ''right_wins'', ''newest_wins'', ''field_level'', ''review'']"

definition validLogLevels :: "string list" where
  "validLogLevels = [''debug'', ''info'', ''warn'', ''error'']"

definition oneOf :: "string \<Rightarrow> string list \<Rightarrow> bool" where
  "oneOf v allowed = list_ex (\<lambda>a. v = a) allowed"

section \<open>Defaults\<close>

definition or_default :: "'a \<Rightarrow> 'a \<Rightarrow> 'a \<Rightarrow> 'a" where
  "or_default zero d v = (if v = zero then d else v)"

definition default_connector :: "string \<Rightarrow> cfg_connector \<Rightarrow> cfg_connector" where
  "default_connector dir c =
     c\<lparr>cc_base_dir := dir,
       cc_echo_window := or_default 0 (5 * minute) (cc_echo_window c),
       cc_overlap := or_default 0 (2 * minute) (cc_overlap c),
       cc_rate_limit := \<lparr>rl_rate_per_sec = or_default 0 5 (rl_rate_per_sec (cc_rate_limit c)),
                         rl_burst = or_default 0 10 (rl_burst (cc_rate_limit c))\<rparr>\<rparr>"

definition default_sync :: "cfg_sync \<Rightarrow> cfg_sync" where
  "default_sync s =
     s\<lparr>cs_direction := or_default '''' Bidirectional (cs_direction s),
       cs_identity := (cs_identity s)\<lparr>ci_on_ambiguous := or_default '''' ''review'' (ci_on_ambiguous (cs_identity s))\<rparr>,
       cs_conflict := (cs_conflict s)\<lparr>cf_default := or_default '''' ''review'' (cf_default (cs_conflict s))\<rparr>\<rparr>"

definition applyDefaults :: "config \<Rightarrow> config" where
  "applyDefaults c =
     c\<lparr>cg_log_level := or_default '''' ''info'' (cg_log_level c),
       cg_listen := or_default '''' ''127.0.0.1:8080'' (cg_listen c),
       cg_state_dir := or_default '''' ''./state'' (cg_state_dir c),
       cg_workers := or_default 0 4 (cg_workers c),
       cg_max_attempts := or_default 0 6 (cg_max_attempts c),
       cg_connectors := map (default_connector (cg_dir c)) (cg_connectors c),
       cg_syncs := map default_sync (cg_syncs c)\<rparr>"

section \<open>Validation\<close>

abbreviation (input) problem :: "bool \<Rightarrow> string \<Rightarrow> gerr list" where
  "problem bad what \<equiv> (if bad then [ErrText what] else [])"

definition check_connector :: "string \<Rightarrow> cfg_connector \<Rightarrow> string list \<Rightarrow> gerr list \<times> string list" where
  "check_connector loc c seen =
     (let (errs, seen') =
            (if cc_name c = '''' then ([ErrText (loc @ ''.name: must not be empty'')], seen)
             else if cc_name c \<in> set seen then ([ErrText (loc @ ''.name: '' @ quoted (cc_name c) @ '' is used twice'')], seen)
             else ([], cc_name c # seen))
      in (errs
          @ problem (cc_driver c = '''') (loc @ ''.driver: must not be empty'')
          @ problem (cc_echo_window c \<le> 0) (loc @ ''.echo_window: must be positive'')
          @ problem (cc_overlap c < 0) (loc @ ''.watermark_overlap: must not be negative'')
          @ problem (rl_rate_per_sec (cc_rate_limit c) \<le> 0) (loc @ ''.rate_limit.rate_per_sec: must be positive'')
          @ problem (rl_burst (cc_rate_limit c) < 1) (loc @ ''.rate_limit.burst: must be at least 1''), seen'))"

fun check_connectors :: "nat \<Rightarrow> cfg_connector list \<Rightarrow> string list \<Rightarrow> gerr list \<times> string list" where
  "check_connectors i [] seen = ([], seen)"
| "check_connectors i (c # cs) seen =
     (case check_connector (''connectors['' @ itoa (int i) @ '']'') c seen of
        (errs, seen1) \<Rightarrow> (case check_connectors (Suc i) cs seen1 of (errs', seen2) \<Rightarrow> (errs @ errs', seen2)))"

definition check_side :: "string \<Rightarrow> string \<Rightarrow> string \<Rightarrow> string list \<Rightarrow> gerr list" where
  "check_side loc label name connectors =
     (if name = '''' then [ErrText (loc @ ''.'' @ label @ '': must name a connector'')]
      else problem (name \<notin> set connectors) (loc @ ''.'' @ label @ '': '' @ quoted name @ '' is not a declared connector''))"

definition check_field :: "string \<Rightarrow> field_pair \<Rightarrow> string list \<Rightarrow> gerr list \<times> string list" where
  "check_field loc f canonical =
     (let (errs, canonical') =
            (if fp_canonical f = '''' then ([ErrText (loc @ ''.canonical: must not be empty'')], canonical)
             else if fp_canonical f \<in> set canonical
             then ([ErrText (loc @ ''.canonical: '' @ quoted (fp_canonical f) @ '' is mapped twice in the same sync'')], canonical)
             else ([], fp_canonical f # canonical))
      in (errs
          @ problem (fp_left f = '''') (loc @ ''.left: must name a field'')
          @ problem (fp_right f = '''') (loc @ ''.right: must name a field'')
          @ problem (\<not> oneOf (fp_transform f) Known)
              (loc @ ''.transform: '' @ quoted (fp_transform f) @ '' is not a known transform'')
          @ problem (fp_direction f \<noteq> '''' \<and> \<not> oneOf (fp_direction f) Directions)
              (loc @ ''.direction: '' @ quoted (fp_direction f) @ '' is not a direction''), canonical'))"

fun check_fields :: "string \<Rightarrow> nat \<Rightarrow> field_pair list \<Rightarrow> string list \<Rightarrow> gerr list \<times> string list" where
  "check_fields loc j [] canonical = ([], canonical)"
| "check_fields loc j (f # fs) canonical =
     (case check_field (loc @ ''.fields['' @ itoa (int j) @ '']'') f canonical of
        (errs, c1) \<Rightarrow> (case check_fields loc (Suc j) fs c1 of (errs', c2) \<Rightarrow> (errs @ errs', c2)))"

definition check_policy :: "string \<Rightarrow> string list \<Rightarrow> string \<times> string \<Rightarrow> gerr list" where
  "check_policy loc canonical fp =
     (case fp of (field, policy) \<Rightarrow>
        problem (field \<notin> set canonical)
          (loc @ ''.conflict.per_field: '' @ quoted field @ '' is not a mapped canonical field'')
        @ problem (\<not> oneOf policy validConflicts)
            (loc @ ''.conflict.per_field['' @ field @ '']: '' @ quoted policy @ '' is not a policy''))"

definition validate_sync_cfg :: "string \<Rightarrow> string list \<Rightarrow> cfg_sync \<Rightarrow> gerr list" where
  "validate_sync_cfg loc connectors s =
     (let (field_errs, canonical) = check_fields loc 0 (cs_pairs s) []
      in problem (cs_kind s = '''') (loc @ ''.kind: must not be empty'')
         @ check_side loc ''left'' (cs_left s) connectors @ check_side loc ''right'' (cs_right s) connectors
         @ problem (cs_left s \<noteq> '''' \<and> cs_left s = cs_right s)
             (loc @ '': left and right are both '' @ quoted (cs_left s) @ ''; a sync needs two distinct connectors'')
         @ problem (\<not> oneOf (cs_direction s) Directions) (loc @ ''.direction: '' @ quoted (cs_direction s) @ '' is not a direction'')
         @ problem (\<not> oneOf (ci_on_ambiguous (cs_identity s)) validAmbiguous)
             (loc @ ''.identity.on_ambiguous: '' @ quoted (ci_on_ambiguous (cs_identity s)) @ '' is not a choice'')
         @ problem (\<not> oneOf (cf_default (cs_conflict s)) validConflicts)
             (loc @ ''.conflict.default: '' @ quoted (cf_default (cs_conflict s)) @ '' is not a policy'')
         @ problem (cs_pairs s = []) (loc @ ''.fields: a sync with no fields would write nothing'')
         @ field_errs
         @ concat (map (check_policy loc canonical) (cf_per_field (cs_conflict s))))"

fun validate_syncs_cfg :: "nat \<Rightarrow> string list \<Rightarrow> cfg_sync list \<Rightarrow> gerr list" where
  "validate_syncs_cfg i connectors [] = []"
| "validate_syncs_cfg i connectors (s # ss) =
     validate_sync_cfg (''syncs['' @ itoa (int i) @ '']'') connectors s @ validate_syncs_cfg (Suc i) connectors ss"

definition config_Validate :: "config \<Rightarrow> gerr option" where
  "config_Validate c =
     (let (conn_errs, seen) = check_connectors 0 (cg_connectors c) []
      in join_errors
           (problem (\<not> oneOf (cg_log_level c) validLogLevels) (''log_level: '' @ quoted (cg_log_level c) @ '' is not a level'')
            @ problem (cg_workers c < 1) ''workers: must be at least 1''
            @ problem (cg_max_attempts c < 1) ''max_attempts: must be at least 1''
            @ problem (length (cg_connectors c) < 2) ''connectors: at least two connectors are required''
            @ conn_errs
            @ problem (cg_syncs c = []) ''syncs: at least one sync is required''
            @ validate_syncs_cfg 0 seen (cg_syncs c)))"

definition Load :: "config \<Rightarrow> gerr + config" where
  "Load decoded =
     (let c = applyDefaults decoded in case config_Validate c of Some err \<Rightarrow> Inl err | None \<Rightarrow> Inr c)"

section \<open>Use\<close>

definition cfg_CanonicalNames :: "cfg_sync \<Rightarrow> string list" where
  "cfg_CanonicalNames s = map fp_canonical (cs_pairs s)"

definition MappingSpec :: "cfg_sync \<Rightarrow> mapping_spec" where
  "MappingSpec s =
     \<lparr>sp_kind = cs_kind s, sp_direction = cs_direction s,
      sp_fields = map (\<lambda>f. \<lparr>fs_canonical = fp_canonical f, fs_left = fp_left f, fs_right = fp_right f,
                            fs_transform = fp_transform f, fs_direction = fp_direction f\<rparr>) (cs_pairs s)\<rparr>"

section \<open>What is accepted\<close>

definition connector_ok :: "cfg_connector \<Rightarrow> bool" where
  "connector_ok c \<longleftrightarrow> cc_name c \<noteq> '''' \<and> cc_driver c \<noteq> '''' \<and> 0 < cc_echo_window c \<and> 0 \<le> cc_overlap c \<and>
     0 < rl_rate_per_sec (cc_rate_limit c) \<and> 1 \<le> rl_burst (cc_rate_limit c)"

definition pair_ok :: "field_pair \<Rightarrow> bool" where
  "pair_ok f \<longleftrightarrow> fp_canonical f \<noteq> '''' \<and> fp_left f \<noteq> '''' \<and> fp_right f \<noteq> '''' \<and>
     fp_transform f \<in> set Known \<and> (fp_direction f = '''' \<or> fp_direction f \<in> set Directions)"

definition sync_ok :: "string set \<Rightarrow> cfg_sync \<Rightarrow> bool" where
  "sync_ok names s \<longleftrightarrow>
     cs_kind s \<noteq> '''' \<and> {cs_left s, cs_right s} \<subseteq> names - {''''} \<and> cs_left s \<noteq> cs_right s \<and>
     cs_direction s \<in> set Directions \<and> ci_on_ambiguous (cs_identity s) \<in> set validAmbiguous \<and>
     cf_default (cs_conflict s) \<in> set validConflicts \<and> cs_pairs s \<noteq> [] \<and>
     (\<forall>f \<in> set (cs_pairs s). pair_ok f) \<and> distinct (map fp_canonical (cs_pairs s)) \<and>
     (\<forall>(f, p) \<in> set (cf_per_field (cs_conflict s)). f \<in> fp_canonical ` set (cs_pairs s) \<and> p \<in> set validConflicts)"

definition config_ok :: "config \<Rightarrow> bool" where
  "config_ok c \<longleftrightarrow>
     cg_log_level c \<in> set validLogLevels \<and> 1 \<le> cg_workers c \<and> 1 \<le> cg_max_attempts c \<and>
     2 \<le> length (cg_connectors c) \<and> (\<forall>x \<in> set (cg_connectors c). connector_ok x) \<and>
     distinct (map cc_name (cg_connectors c)) \<and> cg_syncs c \<noteq> [] \<and>
     (\<forall>s \<in> set (cg_syncs c). sync_ok (cc_name ` set (cg_connectors c)) s)"

lemma oneOf_iff: "oneOf v xs \<longleftrightarrow> v \<in> set xs"
  by (auto simp: oneOf_def list_ex_iff)

lemma check_connector_iff:
  "fst (check_connector loc c seen) = [] \<longleftrightarrow> connector_ok c \<and> cc_name c \<notin> set seen"
  "fst (check_connector loc c seen) = [] \<Longrightarrow> snd (check_connector loc c seen) = cc_name c # seen"
  by (auto simp: check_connector_def connector_ok_def Let_def not_less not_le split: if_splits)

lemma check_connectors_iff:
  "(fst (check_connectors i cs seen) = [] \<longleftrightarrow>
     (\<forall>c \<in> set cs. connector_ok c) \<and> distinct (map cc_name cs) \<and> cc_name ` set cs \<inter> set seen = {}) \<and>
   (fst (check_connectors i cs seen) = [] \<longrightarrow> set (snd (check_connectors i cs seen)) = cc_name ` set cs \<union> set seen)"
proof (induction cs arbitrary: i seen)
  case (Cons c cs)
  obtain loc' where s: "check_connectors i (c # cs) seen = (case check_connector loc' c seen of
      (errs, seen1) \<Rightarrow> (case check_connectors (Suc i) cs seen1 of (errs', seen2) \<Rightarrow> (errs @ errs', seen2)))" by simp
  show ?case using Cons.IH [of "Suc i" "cc_name c # seen"] check_connector_iff [of loc' c seen]
    unfolding s by (auto simp: case_prod_beta)
qed simp

lemma check_field_iff:
  "fst (check_field loc c seen) = [] \<longleftrightarrow> pair_ok c \<and> fp_canonical c \<notin> set seen"
  "fst (check_field loc c seen) = [] \<Longrightarrow> snd (check_field loc c seen) = fp_canonical c # seen"
  by (auto simp: check_field_def pair_ok_def Let_def oneOf_iff split: if_splits)

lemma check_fields_iff:
  "(fst (check_fields loc i cs seen) = [] \<longleftrightarrow>
     (\<forall>c \<in> set cs. pair_ok c) \<and> distinct (map fp_canonical cs) \<and> fp_canonical ` set cs \<inter> set seen = {}) \<and>
   (fst (check_fields loc i cs seen) = [] \<longrightarrow> set (snd (check_fields loc i cs seen)) = fp_canonical ` set cs \<union> set seen)"
proof (induction cs arbitrary: i seen)
  case (Cons c cs)
  obtain loc' where s: "check_fields loc i (c # cs) seen = (case check_field loc' c seen of
      (errs, seen1) \<Rightarrow> (case check_fields loc (Suc i) cs seen1 of (errs', seen2) \<Rightarrow> (errs @ errs', seen2)))" by simp
  show ?case using Cons.IH [of "Suc i" "fp_canonical c # seen"] check_field_iff [of loc' c seen]
    unfolding s by (auto simp: case_prod_beta)
qed simp

lemma check_side_iff: "check_side loc label name cs = [] \<longleftrightarrow> name \<in> set cs - {''''}"
  by (auto simp: check_side_def)

lemma validate_sync_iff: "validate_sync_cfg loc connectors s = [] \<longleftrightarrow> sync_ok (set connectors) s"
proof -
  obtain errs canonical where f: "check_fields loc 0 (cs_pairs s) [] = (errs, canonical)" by fastforce
  have e: "errs = [] \<longleftrightarrow> (\<forall>f \<in> set (cs_pairs s). pair_ok f) \<and> distinct (map fp_canonical (cs_pairs s))"
    using check_fields_iff [of loc 0 "cs_pairs s" "[]"] f by simp
  have "set canonical = fp_canonical ` set (cs_pairs s)" if "errs = []"
    using check_fields_iff [of loc 0 "cs_pairs s" "[]"] f that by simp
  with e show ?thesis
    by (auto simp: validate_sync_cfg_def sync_ok_def f check_side_iff oneOf_iff check_policy_def split: if_splits)
qed

lemma validate_syncs_iff: "validate_syncs_cfg i connectors ss = [] \<longleftrightarrow> (\<forall>s \<in> set ss. sync_ok (set connectors) s)"
  by (induction ss arbitrary: i) (simp_all add: validate_sync_iff)

lemma config_Validate_iff: "config_Validate c = None \<longleftrightarrow> config_ok c"
proof -
  obtain errs seen where s: "check_connectors 0 (cg_connectors c) [] = (errs, seen)" by fastforce
  have e: "errs = [] \<longleftrightarrow> (\<forall>x \<in> set (cg_connectors c). connector_ok x) \<and> distinct (map cc_name (cg_connectors c))"
    using check_connectors_iff [of 0 "cg_connectors c" "[]"] s by simp
  have "set seen = cc_name ` set (cg_connectors c)" if "errs = []"
    using check_connectors_iff [of 0 "cg_connectors c" "[]"] s that by simp
  with e show ?thesis
    by (auto simp: config_Validate_def config_ok_def s join_errors_def oneOf_iff validate_syncs_iff not_less split: if_splits)
qed


section \<open>What is built from it\<close>

lemma new_fields_complete:
  assumes "\<forall>f \<in> set fs. spec_ok (m_direction m) f" "distinct (map fs_canonical fs)"
    "\<forall>f \<in> set fs. map_of (m_byName m) (fs_canonical f) = None"
  shows "\<exists>m'. new_fields i fs (m, []) = (m', []) \<and> length (m_fields m') = length (m_fields m) + length fs"
  using assms
proof (induction fs arbitrary: i m)
  case (Cons f fs)
  let ?m = "m\<lparr>m_fields := m_fields m @ [built (m_direction m) f],
     m_byName := AList.update (fs_canonical f) (built (m_direction m) f) (m_byName m)\<rparr>"
  have n: "new_field i f (m, []) = (?m, [])" using Cons.prems by (intro new_field_cases) auto
  have "\<forall>g \<in> set fs. map_of (m_byName ?m) (fs_canonical g) = None" using Cons.prems by (auto simp: image_iff)
  then have "\<exists>m'. new_fields (Suc i) fs (?m, []) = (m', []) \<and> length (m_fields m') = length (m_fields ?m) + length fs"
    using Cons.prems by (intro Cons.IH) auto
  with n show ?case by auto
qed simp

lemma New_iff:
  assumes "IsValidDirection (sp_direction s)" "sp_fields s \<noteq> []" "distinct (map fs_canonical (sp_fields s))"
  shows "(\<exists>m. New s = Inr m) \<longleftrightarrow> (\<forall>f \<in> set (sp_fields s). spec_ok (sp_direction s) f)"
proof
  assume "\<exists>m. New s = Inr m"
  then show "\<forall>f \<in> set (sp_fields s). spec_ok (sp_direction s) f" using New_sound(6) by blast
next
  assume a: "\<forall>f \<in> set (sp_fields s). spec_ok (sp_direction s) f"
  let ?m = "\<lparr>m_kind = sp_kind s, m_direction = sp_direction s, m_fields = [], m_byName = []\<rparr>"
  have "\<exists>m'. new_fields 0 (sp_fields s) (?m, []) = (m', []) \<and> length (m_fields m') = length (m_fields ?m) + length (sp_fields s)"
    using a assms by (intro new_fields_complete) auto
  then obtain m' where "new_fields 0 (sp_fields s) (?m, []) = (m', [])" "m_fields m' \<noteq> []" using assms(2) by fastforce
  then show "\<exists>m. New s = Inr m" using assms(1) by (simp add: New_def)
qed

lemma direction_valid: "d \<in> set Directions \<Longrightarrow> IsValidDirection d"
  by (auto simp: Directions_def IsValidDirection_def directionBits_def)

lemma policies_same: "set validConflicts = {p. IsValidPolicy p}"
  by (auto simp: validConflicts_def IsValidPolicy_def Policies_def LeftWins_def RightWins_def NewestWins_def
      FieldLevel_def ReviewPolicy_def)

lemma conflict_New_ok:
  assumes "d \<in> set validConflicts" "\<forall>(f, p) \<in> set per. p \<in> set validConflicts"
  shows "\<exists>r. conflict_New d per skew = Inr r"
proof -
  have v: "IsValidPolicy d" "\<forall>(f, p) \<in> set per. IsValidPolicy p" using assms by (auto simp: policies_same)
  have "d \<noteq> ''''" using assms(1) by (auto simp: validConflicts_def)
  moreover have "find (\<lambda>(f, p). \<not> IsValidPolicy p) per = None" using v(2) by (auto simp: find_None_iff)
  ultimately show ?thesis using v(1) by (simp add: conflict_New_def Let_def)
qed

section \<open>Properties\<close>

text \<open>
  C28: What is loaded can be run. A configuration is loaded exactly when, with its defaults filled
  in, it is well formed: distinct named connectors with positive limits, syncs between two
  different declared ones, known directions, policies and transforms, distinct mapped fields. Of
  a loaded sync the conflict resolver is always built, and the mapper exactly when no field's
  direction excludes the direction of its sync.
\<close>

theorem loaded_config_builds:
  "(Load decoded = Inr c \<longleftrightarrow> c = applyDefaults decoded \<and> config_ok c) \<and>
   (Load decoded = Inr c \<longrightarrow> (\<forall>s \<in> set (cg_syncs c).
     (\<exists>r. conflict_New (cf_default (cs_conflict s)) (cf_per_field (cs_conflict s)) 0 = Inr r) \<and>
     ((\<exists>m. New (MappingSpec s) = Inr m) \<longleftrightarrow>
        (\<forall>f \<in> set (cs_pairs s). Narrow (cs_direction s) (fp_direction f) \<noteq> None))))"
proof -
  have load: "Load decoded = Inr c \<longleftrightarrow> c = applyDefaults decoded \<and> config_ok c"
    using config_Validate_iff [of "applyDefaults decoded"] by (auto simp: Load_def Let_def split: option.splits)
  have "(\<exists>r. conflict_New (cf_default (cs_conflict s)) (cf_per_field (cs_conflict s)) 0 = Inr r) \<and>
     ((\<exists>m. New (MappingSpec s) = Inr m) \<longleftrightarrow>
        (\<forall>f \<in> set (cs_pairs s). Narrow (cs_direction s) (fp_direction f) \<noteq> None))"
    if "Load decoded = Inr c" "s \<in> set (cg_syncs c)" for s
  proof -
    from that load have "config_ok c" by blast
    with that(2) have s: "sync_ok (cc_name ` set (cg_connectors c)) s" by (simp add: config_ok_def)
    have "(\<exists>m. New (MappingSpec s) = Inr m) \<longleftrightarrow> (\<forall>f \<in> set (sp_fields (MappingSpec s)). spec_ok (sp_direction (MappingSpec s)) f)"
      using s by (intro New_iff) (auto simp: MappingSpec_def sync_ok_def comp_def direction_valid)
    also have "\<dots> \<longleftrightarrow> (\<forall>f \<in> set (cs_pairs s). Narrow (cs_direction s) (fp_direction f) \<noteq> None)"
      using s by (auto simp: MappingSpec_def sync_ok_def spec_ok_def pair_ok_def IsKnown_def list_ex_iff)
    finally have mapper: "(\<exists>m. New (MappingSpec s) = Inr m) \<longleftrightarrow>
      (\<forall>f \<in> set (cs_pairs s). Narrow (cs_direction s) (fp_direction f) \<noteq> None)" .
    have "\<exists>r. conflict_New (cf_default (cs_conflict s)) (cf_per_field (cs_conflict s)) 0 = Inr r"
      by (rule conflict_New_ok) (use s in \<open>auto simp: sync_ok_def\<close>)
    with mapper show ?thesis by blast
  qed
  with load show ?thesis by blast
qed

definition example_connector :: "string \<Rightarrow> cfg_connector" where
  "example_connector name =
     \<lparr>cc_base_dir = '''', cc_name = name, cc_driver = ''fake'', cc_echo_window = 0, cc_overlap = 0,
      cc_rate_limit = \<lparr>rl_rate_per_sec = 0, rl_burst = 0\<rparr>, cc_options = []\<rparr>"

definition example_config :: "string \<Rightarrow> string \<Rightarrow> config" where
  "example_config sync_direction field_direction =
     \<lparr>cg_dir = '''', cg_log_level = '''', cg_listen = '''', cg_state_dir = '''', cg_workers = 0, cg_max_attempts = 0,
      cg_connectors = [example_connector ''hub'', example_connector ''sales''],
      cg_syncs = [\<lparr>cs_kind = ''contact'', cs_left = ''hub'', cs_right = ''sales'', cs_direction = sync_direction,
        cs_identity = \<lparr>ci_keys = [''email''], ci_on_ambiguous = ''''\<rparr>,
        cs_conflict = \<lparr>cf_default = '''', cf_per_field = []\<rparr>,
        cs_pairs = [\<lparr>fp_canonical = ''email'', fp_left = ''email'', fp_right = ''mail'', fp_transform = '''',
          fp_direction = field_direction\<rparr>]\<rparr>]\<rparr>"

theorem loaded_config_builds_witness:
  "\<exists>c. Load (example_config '''' '''') = Inr c \<and> (\<forall>s \<in> set (cg_syncs c). \<exists>m. New (MappingSpec s) = Inr m)"
proof -
  let ?c = "applyDefaults (example_config '''' '''')"
  have ok: "config_ok ?c" by code_simp
  have n: "\<forall>s \<in> set (cg_syncs ?c). \<forall>f \<in> set (cs_pairs s). Narrow (cs_direction s) (fp_direction f) \<noteq> None" by code_simp
  show ?thesis using loaded_config_builds [of "example_config '''' ''''" ?c] ok n by blast
qed

text \<open>
  A field whose direction contradicts its sync's passes the loader, although it can never be
  synced; only building the mapper reports it.
\<close>

theorem contradictory_direction_loads:
  "\<exists>c err. Load (example_config ''left_to_right'' ''right_to_left'') = Inr c \<and>
     (\<exists>s \<in> set (cg_syncs c). New (MappingSpec s) = Inl err)"
proof -
  let ?c = "applyDefaults (example_config ''left_to_right'' ''right_to_left'')"
  have ok: "config_Validate ?c = None" by code_simp
  have "\<exists>err. New (MappingSpec (hd (cg_syncs ?c))) = Inl err"
  proof (cases "New (MappingSpec (hd (cg_syncs ?c)))")
    case (Inr m)
    have "Narrow ''left_to_right'' ''right_to_left'' = None" by code_simp
    with New_sound(6) [OF Inr] show ?thesis
      by (simp add: MappingSpec_def applyDefaults_def example_config_def default_sync_def or_default_def spec_ok_def)
  qed simp
  moreover have "hd (cg_syncs ?c) \<in> set (cg_syncs ?c)" by (simp add: applyDefaults_def example_config_def)
  ultimately show ?thesis using ok by (auto simp: Load_def)
qed

end
