(* ===== verification/Driver.thy ===== *)
theory Driver
  imports Fake_Contract Config
begin

text \<open>
  \<^verbatim>\<open>internal/driver\<close>: the registry that turns a configured connector into a live one
  (\<^verbatim>\<open>driver.go\<close>) and the driver of the fake with its fixture file (\<^verbatim>\<open>fake.go\<close>). Reading a file
  and decoding its JSON text are parameters; a decoded fixture lists its objects in the order the
  loops over its map meet them.
\<close>

section \<open>The registry\<close>

type_synonym 'c factory = "gotime \<Rightarrow> cfg_connector \<Rightarrow> gerr + 'c"
type_synonym 'c drivers = "(string, 'c factory) gomap"

text \<open>\<^const>\<open>None\<close> is the panic on a second registration.\<close>

definition Register :: "string \<Rightarrow> 'c factory \<Rightarrow> 'c drivers \<Rightarrow> 'c drivers option" where
  "Register name f ds = (if map_of ds name \<noteq> None then None else Some (AList.update name f ds))"

definition Names :: "'c drivers \<Rightarrow> string list" where
  "Names ds = sort_strings (map fst ds)"

definition Build :: "'c drivers \<Rightarrow> gotime \<Rightarrow> cfg_connector \<Rightarrow> gerr + 'c" where
  "Build ds now cfg =
     (case map_of ds (cc_driver cfg) of
        None \<Rightarrow> Inl (ErrText (''connector '' @ quoted (cc_name cfg) @ '' asks for driver '' @ quoted (cc_driver cfg) @
          '', which is not built in; the drivers are: '' @ sprint (VList (map VStr (Names ds)))))
      | Some factory \<Rightarrow>
          (case factory now cfg of
             Inl err \<Rightarrow> Inl (ErrWrap (''connector '' @ quoted (cc_name cfg)) err)
           | Inr conn \<Rightarrow> Inr conn))"

fun build_each :: "'c drivers \<Rightarrow> gotime \<Rightarrow> cfg_connector list \<Rightarrow> (string, 'c) gomap \<Rightarrow> gerr + (string, 'c) gomap" where
  "build_each ds now [] out = Inr out"
| "build_each ds now (cc # ccs) out =
     (case Build ds now cc of
        Inl err \<Rightarrow> Inl err
      | Inr conn \<Rightarrow> build_each ds now ccs (AList.update (cc_name cc) conn out))"

definition BuildAll :: "'c drivers \<Rightarrow> gotime \<Rightarrow> config \<Rightarrow> gerr + (string, 'c) gomap" where
  "BuildAll ds now cfg = build_each ds now (cg_connectors cfg) []"

section \<open>The driver of the fake\<close>

record fixture_object =
  fo_fields :: "schema_field list"
  fo_records :: "(string \<times> fields) list"

type_synonym fixture = "(string, fixture_object) gomap"

record files =
  fs_read :: "string \<Rightarrow> gerr + string"
  fs_fixture :: "string \<Rightarrow> gerr + fixture"

text \<open>\<^verbatim>\<open>strconv.ParseBool\<close>; any other text is an error, on which the fallback is used.\<close>

definition parse_bool :: "string \<Rightarrow> bool option" where
  "parse_bool s =
     (if s \<in> set [''1'', ''t'', ''T'', ''TRUE'', ''true'', ''True''] then Some True
      else if s \<in> set [''0'', ''f'', ''F'', ''FALSE'', ''false'', ''False''] then Some False else None)"

definition boolOption :: "cfg_connector \<Rightarrow> string \<Rightarrow> bool \<Rightarrow> bool" where
  "boolOption cfg name fallback =
     (case map_of (cc_options cfg) name of
        None \<Rightarrow> fallback
      | Some raw \<Rightarrow> (case parse_bool raw of None \<Rightarrow> fallback | Some v \<Rightarrow> v))"

definition intOption :: "cfg_connector \<Rightarrow> string \<Rightarrow> gerr + int" where
  "intOption cfg name =
     (case map_of (cc_options cfg) name of
        None \<Rightarrow> Inr 0
      | Some raw \<Rightarrow>
          if raw = '''' then Inr 0
          else case parse_int raw of
                 None \<Rightarrow> Inl (ErrText (''option '' @ name @ '': '' @ quoted raw @ '' is not a number''))
               | Some n \<Rightarrow> Inr n)"

definition option_or_empty :: "cfg_connector \<Rightarrow> string \<Rightarrow> string" where
  "option_or_empty cfg name = (case map_of (cc_options cfg) name of None \<Rightarrow> '''' | Some v \<Rightarrow> v)"

text \<open>\<^verbatim>\<open>filepath.Join\<close> of two parts that are not empty: the cleaned path.\<close>

fun clean_parts :: "bool \<Rightarrow> string list \<Rightarrow> string list \<Rightarrow> string list" where
  "clean_parts rooted acc [] = rev acc"
| "clean_parts rooted acc (p # ps) =
     (if p = '''' \<or> p = ''.'' then clean_parts rooted acc ps
      else if p \<noteq> ''..'' then clean_parts rooted (p # acc) ps
      else case acc of
             a # as \<Rightarrow> if a \<noteq> ''..'' then clean_parts rooted as ps else clean_parts rooted (''..'' # acc) ps
           | [] \<Rightarrow> clean_parts rooted (if rooted then [] else [''..'']) ps)"

definition is_abs :: "string \<Rightarrow> bool" where
  "is_abs path \<longleftrightarrow> path \<noteq> '''' \<and> hd path = CHR ''/''"

definition join_path :: "string \<Rightarrow> string \<Rightarrow> string" where
  "join_path base path =
     (let s = base @ ''/'' @ path; parts = clean_parts (is_abs s) [] (split_at (CHR ''/'') s);
          out = (if is_abs s then ''/'' else '''') @ join_strings ''/'' parts
      in if out = '''' then ''.'' else out)"

definition load_fixture :: "files \<Rightarrow> cfg_connector \<Rightarrow> gerr + fixture" where
  "load_fixture fs cfg =
     (let path0 = option_or_empty cfg ''file''
      in if path0 = '''' then Inr []
         else let path = (if \<not> is_abs path0 \<and> cc_base_dir cfg \<noteq> '''' then join_path (cc_base_dir cfg) path0 else path0)
         in case fs_read fs path of
              Inl err \<Rightarrow> Inl (ErrWrap ''read fixture'' err)
            | Inr raw \<Rightarrow>
                (case fs_fixture fs raw of
                   Inl err \<Rightarrow> Inl (ErrWrap (''parse fixture '' @ path) err)
                 | Inr fx \<Rightarrow> Inr fx))"

definition fixture_schemas :: "fixture \<Rightarrow> (string, schema) gomap" where
  "fixture_schemas fx =
     fold (\<lambda>(kind, ob). AList.update kind \<lparr>sc_kind = kind, sc_fields = fo_fields ob\<rparr>) fx []"

definition seeds :: "fixture \<Rightarrow> (string \<times> string \<times> fields) list" where
  "seeds fx = concat (map (\<lambda>(kind, ob). map (\<lambda>(i, fs). (kind, i, fs)) (fo_records ob)) fx)"

definition seed_all :: "gotime \<Rightarrow> (string \<times> string \<times> fields) list \<Rightarrow> fake \<Rightarrow> fake" where
  "seed_all now = fold (\<lambda>(kind, i, fs) f. snd (ExternalUpsert now kind i fs f))"

definition buildFake :: "files \<Rightarrow> fake factory" where
  "buildFake fs now cfg =
     (case intOption cfg ''timestamp_granularity_seconds'' of
        Inl err \<Rightarrow> Inl err
      | Inr granularity \<Rightarrow>
          (case load_fixture fs cfg of
             Inl err \<Rightarrow> Inl err
           | Inr fx \<Rightarrow>
               let caps = \<lparr>cap_native_idempotency = boolOption cfg ''native_idempotency'' True,
                           cap_webhooks = boolOption cfg ''webhooks'' True, cap_soft_delete = boolOption cfg ''soft_delete'' False,
                           cap_etags = boolOption cfg ''etags'' True, cap_max_page_size = 0,
                           cap_modified_at_exact = \<not> granularity > 0\<rparr>;
                   ft = (if granularity > 0 then no_faults\<lparr>ft_timestamp_granularity := wrap64 (granularity * second)\<rparr> else no_faults);
                   secret = option_or_empty cfg ''webhook_secret'';
                   f = fake_New (cc_name cfg) caps (if secret = '''' then cc_name cfg @ ''-secret'' else secret) (fixture_schemas fx) ft
               in Inr (seed_all now (seeds fx) f)))"

section \<open>Properties\<close>

lemma build_each_ok:
  "build_each ds now ccs out = Inr m \<Longrightarrow> distinct (map cc_name ccs) \<Longrightarrow>
   (\<forall>cc \<in> set ccs. \<exists>c. Build ds now cc = Inr c \<and> map_of m (cc_name cc) = Some c) \<and>
   (\<forall>n. n \<notin> cc_name ` set ccs \<longrightarrow> map_of m n = map_of out n)"
proof (induction ccs arbitrary: out)
  case (Cons cc ccs)
  then obtain c where c: "Build ds now cc = Inr c" "build_each ds now ccs (AList.update (cc_name cc) c out) = Inr m"
    by (auto split: sum.splits)
  from Cons.IH [OF c(2)] Cons.prems(2) c(1) show ?case by auto
qed simp


lemma build_each_error:
  "build_each ds now ccs out = Inl err \<Longrightarrow>
   \<exists>before cc after. ccs = before @ cc # after \<and> (\<forall>x \<in> set before. \<exists>c. Build ds now x = Inr c) \<and> Build ds now cc = Inl err"
proof (induction ccs arbitrary: out)
  case (Cons cc ccs)
  show ?case
  proof (cases "Build ds now cc")
    case (Inl e)
    with Cons.prems have "Build ds now cc = Inl err" by simp
    then show ?thesis by (intro exI [of _ "[]"] exI [of _ cc] exI [of _ ccs]) simp
  next
    case (Inr c)
    with Cons.prems have "build_each ds now ccs (AList.update (cc_name cc) c out) = Inl err" by simp
    from Cons.IH [OF this] obtain before x after where
      "ccs = before @ x # after" "\<forall>y \<in> set before. \<exists>c. Build ds now y = Inr c" "Build ds now x = Inl err" by blast
    with Inr show ?thesis by (intro exI [of _ "cc # before"] exI [of _ x] exI [of _ after]) simp
  qed
qed simp

lemma Build_ok: "Build ds now cc = Inr c \<Longrightarrow> \<exists>f. map_of ds (cc_driver cc) = Some f \<and> f now cc = Inr c"
  by (auto simp: Build_def split: option.splits sum.splits)

lemma Build_error: "Build ds now cc = Inl err \<Longrightarrow> \<exists>rest. err_text err = ''connector '' @ quoted (cc_name cc) @ rest"
  by (auto simp: Build_def split: option.splits sum.splits)

text \<open>
  Every configured connector is built or the start is refused. When the names are distinct, a
  map that is returned holds for each configured connector exactly what the driver it names built
  from its configuration, and nothing else; otherwise the error is that of the first connector that
  could not be built, and it names that connector.
\<close>

theorem build_all_exact:
  assumes "distinct (map cc_name (cg_connectors cfg))"
  shows "case BuildAll ds now cfg of
      Inr m \<Rightarrow> (\<forall>cc \<in> set (cg_connectors cfg). \<exists>f c. map_of ds (cc_driver cc) = Some f \<and> f now cc = Inr c \<and> map_of m (cc_name cc) = Some c) \<and>
        dom (map_of m) = cc_name ` set (cg_connectors cfg)
    | Inl err \<Rightarrow> \<exists>before cc after rest. cg_connectors cfg = before @ cc # after \<and>
        (\<forall>x \<in> set before. \<exists>c. Build ds now x = Inr c) \<and> Build ds now cc = Inl err \<and>
        err_text err = ''connector '' @ quoted (cc_name cc) @ rest"
proof (cases "BuildAll ds now cfg")
  case (Inl err)
  then have "build_each ds now (cg_connectors cfg) [] = Inl err" by (simp add: BuildAll_def)
  from build_each_error [OF this] obtain before cc after where
    b: "cg_connectors cfg = before @ cc # after" "\<forall>x \<in> set before. \<exists>c. Build ds now x = Inr c" "Build ds now cc = Inl err" by blast
  from Build_error [OF b(3)] obtain rest where "err_text err = ''connector '' @ quoted (cc_name cc) @ rest" by blast
  with Inl b show ?thesis by auto
next
  case (Inr m)
  then have m: "build_each ds now (cg_connectors cfg) [] = Inr m" by (simp add: BuildAll_def)
  note ok = build_each_ok [OF m assms]
  then have "dom (map_of m) = cc_name ` set (cg_connectors cfg)" by (auto simp: dom_def)
  with Inr ok Build_ok show ?thesis by fastforce
qed

theorem build_all_exact_witness:
  "\<exists>m. BuildAll [(''fake'', \<lambda>now cc. Inr (cc_name cc))] 0 (example_config '''' '''') = Inr m \<and> map_of m ''sales'' = Some ''sales''"
  using build_all_exact [of "example_config '''' ''''" "[(''fake'', \<lambda>now cc. Inr (cc_name cc))]" 0]
  by (simp add: example_config_def example_connector_def BuildAll_def Build_def)

lemma ExternalUpsert_bucket:
  assumes "i \<noteq> ''''"
  shows "map_of (fake_bucket k (snd (ExternalUpsert now kind i fs f))) j =
    (if (k, j) = (kind, i) then Some \<lparr>fr_id = (case map_of (fake_bucket kind f) i of None \<Rightarrow> i | Some r \<Rightarrow> fr_id r),
        fr_fields = assign_all (case map_of (fake_bucket kind f) i of None \<Rightarrow> [] | Some r \<Rightarrow> fr_fields r) fs,
        fr_updated_at = stamp now f,
        fr_version = (case map_of (fake_bucket kind f) i of None \<Rightarrow> 0 | Some r \<Rightarrow> fr_version r) + 1, fr_deleted = False\<rparr>
     else map_of (fake_bucket k f) j)"
  using assms
  by (simp add: ExternalUpsert_def fresh_id_def write_fields_def Let_def fake_bucket_def case_prod_beta split: option.split)

lemma emit_schemas: "fk_schemas (emit now ev f) = fk_schemas f"
  by (simp add: emit_def Let_def)

lemma ExternalUpsert_keeps:
  "fk_caps (snd (ExternalUpsert now kind i fs f)) = fk_caps f" "fk_faults (snd (ExternalUpsert now kind i fs f)) = fk_faults f"
  "fk_schemas (snd (ExternalUpsert now kind i fs f)) = fk_schemas f"
  by (simp_all add: ExternalUpsert_def fresh_id_def write_fields_def Let_def case_prod_beta emit_schemas)

lemma seed_all_bucket:
  assumes "distinct (map (\<lambda>(k, i, fs). (k, i)) xs)" "\<forall>(k, i, fs) \<in> set xs. i \<noteq> '''' \<and> map_of (fake_bucket k f) i = None"
  shows "\<And>k i fs. (k, i, fs) \<in> set xs \<Longrightarrow>
      \<exists>r. map_of (fake_bucket k (seed_all now xs f)) i = Some r \<and> fr_id r = i \<and> fr_fields r = assign_all [] fs \<and> \<not> fr_deleted r"
    and "\<And>k i. (k, i) \<notin> (\<lambda>(k, i, fs). (k, i)) ` set xs \<Longrightarrow> map_of (fake_bucket k (seed_all now xs f)) i = map_of (fake_bucket k f) i"
proof -
  have "(\<forall>k i fs. (k, i, fs) \<in> set xs \<longrightarrow>
        (\<exists>r. map_of (fake_bucket k (seed_all now xs f)) i = Some r \<and> fr_id r = i \<and> fr_fields r = assign_all [] fs \<and> \<not> fr_deleted r)) \<and>
      (\<forall>k i. (k, i) \<notin> (\<lambda>(k, i, fs). (k, i)) ` set xs \<longrightarrow>
        map_of (fake_bucket k (seed_all now xs f)) i = map_of (fake_bucket k f) i)"
    using assms
  proof (induction xs arbitrary: f)
    case Nil
    then show ?case by (simp add: seed_all_def)
  next
    case (Cons x xs)
    obtain kind j gs where x: "x = (kind, j, gs)" by (cases x)
    let ?f = "snd (ExternalUpsert now kind j gs f)"
    have j: "j \<noteq> ''''" "map_of (fake_bucket kind f) j = None" using Cons.prems(2) x by auto
    note e = ExternalUpsert_bucket [OF j(1), where now = now and kind = kind and fs = gs and f = f]
    have "i \<noteq> '''' \<and> map_of (fake_bucket k ?f) i = None" if "(k, i, fs) \<in> set xs" for k i fs
    proof -
      have "(k, i) \<noteq> (kind, j)" using Cons.prems(1) x that by force
      moreover have "i \<noteq> '''' \<and> map_of (fake_bucket k f) i = None" using Cons.prems(2) that by auto
      ultimately show ?thesis by (simp add: e)
    qed
    then have "\<forall>(k, i, fs) \<in> set xs. i \<noteq> '''' \<and> map_of (fake_bucket k ?f) i = None" by blast
    with Cons.IH [of ?f] Cons.prems(1) x
    have IH: "\<forall>k i fs. (k, i, fs) \<in> set xs \<longrightarrow>
        (\<exists>r. map_of (fake_bucket k (seed_all now xs ?f)) i = Some r \<and> fr_id r = i \<and> fr_fields r = assign_all [] fs \<and> \<not> fr_deleted r)"
      "\<forall>k i. (k, i) \<notin> (\<lambda>(k, i, fs). (k, i)) ` set xs \<longrightarrow> map_of (fake_bucket k (seed_all now xs ?f)) i = map_of (fake_bucket k ?f) i"
      by simp_all
    have s: "seed_all now (x # xs) f = seed_all now xs ?f" by (simp add: seed_all_def x)
    have "(kind, j) \<notin> (\<lambda>(k, i, fs). (k, i)) ` set xs" using Cons.prems(1) x by force
    then have new: "map_of (fake_bucket kind (seed_all now xs ?f)) j =
        Some \<lparr>fr_id = j, fr_fields = assign_all [] gs, fr_updated_at = stamp now f, fr_version = 1, fr_deleted = False\<rparr>"
      using IH(2) by (simp add: e j(2))
    show ?case unfolding s using IH new e x by (auto split: if_splits)
  qed
  then show "\<And>k i fs. (k, i, fs) \<in> set xs \<Longrightarrow>
      \<exists>r. map_of (fake_bucket k (seed_all now xs f)) i = Some r \<and> fr_id r = i \<and> fr_fields r = assign_all [] fs \<and> \<not> fr_deleted r"
    and "\<And>k i. (k, i) \<notin> (\<lambda>(k, i, fs). (k, i)) ` set xs \<Longrightarrow> map_of (fake_bucket k (seed_all now xs f)) i = map_of (fake_bucket k f) i"
    by blast+
qed


lemma seed_all_keeps:
  "fk_caps (seed_all now xs f) = fk_caps f" "fk_faults (seed_all now xs f) = fk_faults f" "fk_schemas (seed_all now xs f) = fk_schemas f"
  by (induction xs arbitrary: f) (auto simp: seed_all_def ExternalUpsert_keeps)

lemma map_of_indexed:
  "wf_map xs \<Longrightarrow> map_of (fold (\<lambda>(k, v). AList.update k (g k v)) xs m) k =
     (case map_of xs k of None \<Rightarrow> map_of m k | Some v \<Rightarrow> Some (g k v))"
proof (induction xs arbitrary: m)
  case (Cons x xs)
  obtain j v where x: "x = (j, v)" by (cases x)
  with Cons have "map_of xs j = None" by (simp add: wf_map_def map_of_eq_None_iff)
  with Cons x show ?case by (auto simp: wf_map_def split: option.split)
qed simp

lemma buildFake_parts:
  assumes "buildFake fs now cfg = Inr f" "load_fixture fs cfg = Inr fx"
  shows "\<exists>name caps secret ft. f = seed_all now (seeds fx) (fake_New name caps secret (fixture_schemas fx) ft) \<and>
    (ft = no_faults \<or> (\<exists>g. ft = no_faults\<lparr>ft_timestamp_granularity := g\<rparr>))"
proof -
  obtain n where "intOption cfg ''timestamp_granularity_seconds'' = Inr n" using assms(1) by (auto simp: buildFake_def split: sum.splits)
  with assms show ?thesis
    by (simp add: buildFake_def Let_def) (intro exI conjI, rule sym, assumption, cases "0 < n", simp, blast, simp)
qed



definition example_fixture :: fixture where
  "example_fixture = [(''contact'', \<lparr>fo_fields = [\<lparr>sf_name = ''email'', sf_type = ''string'', sf_read_only = False, sf_required = False\<rparr>],
     fo_records = [(''7'', [(''email'', VStr ''a@b.c'')]), (''8'', [(''email'', VStr ''d@e.f'')])]\<rparr>)]"

definition example_files :: files where
  "example_files = \<lparr>fs_read = (\<lambda>path. if path = ''/etc/crm/hub.json'' then Inr ''text'' else Inl (ErrText ''no such file'')),
     fs_fixture = (\<lambda>raw. Inr example_fixture)\<rparr>"

definition example_crm :: cfg_connector where
  "example_crm = (example_connector ''hub'')\<lparr>cc_base_dir := ''/etc/crm/conf.d'', cc_options := [(''file'', ''../hub.json'')]\<rparr>"


end
