(* ===== verification/Engine_New.thy ===== *)
theory Engine_New
  imports Polling Webhook_Ingest Config Overlay_Store
begin

text \<open>
  \<^verbatim>\<open>New\<close> and \<^verbatim>\<open>buildSync\<close> of \<^verbatim>\<open>internal/engine/engine.go\<close> and \<^verbatim>\<open>Plan\<close> of
  \<^verbatim>\<open>plan.go\<close>. The supplied connectors are their names and the operations of \<open>conn_ops\<close>.
  Logging is left out.
\<close>

section \<open>Building\<close>

record ('s, 'w) options =
  ot_config :: "config option"
  ot_store :: "(('s, doc) store_ops \<times> 's) option"
  ot_connectors :: "string list"
  ot_conn :: "'w conn_ops"
  ot_world :: 'w
  ot_now :: gotime
  ot_hash :: "string \<Rightarrow> string"
  ot_dry_run :: bool
  ot_cancelled :: bool

definition new_peer :: "string list \<Rightarrow> string \<Rightarrow> side \<Rightarrow> gerr + peer" where
  "new_peer conns name sd =
     (if name \<notin> set conns then Inl (ErrText (''no connector supplied for '' @ quoted name))
      else Inr \<lparr>pr_name = name, pr_side = sd\<rparr>)"

definition sync_name :: "cfg_sync \<Rightarrow> string" where
  "sync_name cs = cs_kind cs @ '':'' @ cs_left cs @ ''-'' @ cs_right cs"

definition buildSync :: "string list \<Rightarrow> cfg_sync \<Rightarrow> gerr + sync" where
  "buildSync conns cs =
     (case New (MappingSpec cs) of Inl err \<Rightarrow> Inl err | Inr m \<Rightarrow>
     (case conflict_New (cf_default (cs_conflict cs)) (cf_per_field (cs_conflict cs)) 0 of Inl err \<Rightarrow> Inl err | Inr res \<Rightarrow>
     (case new_peer conns (cs_left cs) Left of Inl err \<Rightarrow> Inl err | Inr left \<Rightarrow>
     (case new_peer conns (cs_right cs) Right of Inl err \<Rightarrow> Inl err | Inr right \<Rightarrow>
        Inr \<lparr>sy_name = sync_name cs, sy_kind = cs_kind cs, sy_left = left, sy_right = right, sy_mapper = m,
             sy_identity = identity_New (cs_kind cs) (ci_keys (cs_identity cs)) (ci_on_ambiguous (cs_identity cs)),
             sy_conflict = res, sy_canonical = CanonicalNames m\<rparr>))))"

fun build_syncs :: "nat \<Rightarrow> string list \<Rightarrow> cfg_sync list \<Rightarrow> gerr + sync list" where
  "build_syncs i conns [] = Inr []"
| "build_syncs i conns (cs # css) =
     (case buildSync conns cs of
        Inl err \<Rightarrow> Inl (ErrWrap (''engine: syncs['' @ itoa (int i) @ '']'') err)
      | Inr s \<Rightarrow> (case build_syncs (Suc i) conns css of Inl err \<Rightarrow> Inl err | Inr ss \<Rightarrow> Inr (s # ss)))"

definition add_bucket :: "gotime \<Rightarrow> cfg_connector \<Rightarrow> bucket_set \<Rightarrow> bucket_set" where
  "add_bucket now c bs =
     snd (set_Add now (cc_name c) (rl_rate_per_sec (cc_rate_limit c)) (rl_burst (cc_rate_limit c)) bs)"

definition engine_New :: "('s, 'w) options \<Rightarrow> gerr + ('s, 'w) env \<times> ('s, 'w) rt" where
  "engine_New opts =
     (case ot_config opts of None \<Rightarrow> Inl (ErrText ''engine: no configuration'') | Some cfg \<Rightarrow>
     (case ot_store opts of None \<Rightarrow> Inl (ErrText ''engine: no store'') | Some (ops, st) \<Rightarrow>
     (case find (\<lambda>c. cc_name c \<notin> set (ot_connectors opts)) (cg_connectors cfg) of
        Some c \<Rightarrow> Inl (ErrText (''engine: no connector supplied for '' @ quoted (cc_name c)))
      | None \<Rightarrow>
     (case build_syncs 0 (ot_connectors opts) (cg_syncs cfg) of Inl err \<Rightarrow> Inl err | Inr ss \<Rightarrow>
        Inr (\<lparr>pe_hash = ot_hash opts, pe_store = ops, pe_conn = ot_conn opts,
              pe_windows = fold (\<lambda>c. AList.update (cc_name c) (cc_echo_window c)) (cg_connectors cfg) [],
              pe_ttl = NewCache 0,
              pe_marks = fold (\<lambda>c. AList.update (cc_name c)
                  \<lparr>pc_overlap = cc_overlap c,
                   pc_exact_timestamps = cap_modified_at_exact (co_caps (ot_conn opts) (cc_name c))\<rparr>) (cg_connectors cfg) [],
              pe_sync_list = ss,
              pe_syncs = fold (\<lambda>s. AList.update (sy_name s) s) ss [],
              pe_cancelled = ot_cancelled opts, pe_max_attempts = cg_max_attempts cfg\<rparr>,
             \<lparr>rt_eng = \<lparr>en_store = st, en_world = ot_world opts, en_now = ot_now opts,
                 en_buckets = fold (add_bucket (ot_now opts)) (cg_connectors cfg) [],
                 en_origin_stats = no_origin_stats, en_stats = no_stats,
                 en_plan = (if ot_dry_run opts then Some \<lparr>pn_changes = [], pn_next = 0\<rparr> else None), en_seq = 0\<rparr>,
              rt_queue = newWorkQueue (cg_workers cfg), rt_handles = 0, rt_draws = 0\<rparr>)))))"

section \<open>Dry runs\<close>

record plan_report =
  pp_changes :: "planned_change list"
  pp_reviews :: "queue_item list"
  pp_dead_letters :: "queue_item list"
  pp_errors :: "string list"

definition PlannedChanges :: "('s, 'w) eng \<Rightarrow> planned_change list" where
  "PlannedChanges e = (case en_plan e of None \<Rightarrow> [] | Some p \<Rightarrow> pn_changes p)"

definition plan_options :: "('s, 'w) options \<Rightarrow> (('s, doc) overlay, 'w) options" where
  "plan_options opts =
     \<lparr>ot_config = ot_config opts, ot_store = map_option (\<lambda>(ops, st). (overlay_ops ops, NewOverlay st)) (ot_store opts),
      ot_connectors = ot_connectors opts, ot_conn = ot_conn opts, ot_world = ot_world opts, ot_now = ot_now opts,
      ot_hash = ot_hash opts, ot_dry_run = True, ot_cancelled = ot_cancelled opts\<rparr>"

text \<open>
  The result, and the state the run leaves behind, of which only the base store and the world
  outlive it: the overlay is closed on return. \<^const>\<open>None\<close> is a run that never returns.
\<close>

definition plan_run ::
  "('s, 'w) env \<Rightarrow> (nat \<Rightarrow> int \<Rightarrow> int) \<Rightarrow> (nat \<Rightarrow> nat \<Rightarrow> bool) \<Rightarrow> ('s, 'w) rt \<Rightarrow>
     ((gerr + plan_report) \<times> ('s, 'w) rt) option" where
  "plan_run env rnd sel r0 =
     (case engine_Validate env (rt_eng r0) of
        (Some err, e) \<Rightarrow> Some (Inl err, r0\<lparr>rt_eng := e\<rparr>)
      | (None, e) \<Rightarrow>
          (case Cycle env rnd sel (r0\<lparr>rt_eng := e\<rparr>) of
             None \<Rightarrow> None
           | Some (cycleErr, r1) \<Rightarrow>
               (case on_eng (Reviews env 0) r1 of
                  (Inl err, r2) \<Rightarrow> Some (Inl err, r2)
                | (Inr reviews, r2) \<Rightarrow>
                    (case on_eng (DeadLetters env 0) r2 of
                       (Inl err, r3) \<Rightarrow> Some (Inl err, r3)
                     | (Inr dead, r3) \<Rightarrow>
                         Some (Inr \<lparr>pp_changes = PlannedChanges (rt_eng r1), pp_reviews = reviews, pp_dead_letters = dead,
                                    pp_errors = (case cycleErr of None \<Rightarrow> [] | Some err \<Rightarrow> [err_text err])\<rparr>, r3)))))"

definition close_overlay :: "(('s, doc) overlay, 'w) rt \<Rightarrow> (('s, doc) overlay, 'w) rt" where
  "close_overlay r = snd (on_eng (\<lambda>e. (case overlay_close (en_store e) of (x, ov) \<Rightarrow> (x, e\<lparr>en_store := ov\<rparr>))) r)"

definition Plan ::
  "(nat \<Rightarrow> int \<Rightarrow> int) \<Rightarrow> (nat \<Rightarrow> nat \<Rightarrow> bool) \<Rightarrow> ('s, 'w) options \<Rightarrow>
     ((gerr + plan_report) \<times> (('s, doc) overlay, 'w) rt option) option" where
  "Plan rnd sel opts =
     (case engine_New (plan_options opts) of
        Inl err \<Rightarrow> Some (Inl err, None)
      | Inr (env, r) \<Rightarrow> map_option (\<lambda>(x, r'). (x, Some (close_overlay r'))) (plan_run env rnd sel r))"

definition plan_Empty :: "plan_report \<Rightarrow> bool" where
  "plan_Empty r \<longleftrightarrow> pp_changes r = [] \<and> pp_reviews r = [] \<and> pp_dead_letters r = []"


section \<open>What is built\<close>

definition sync_ready :: "string set \<Rightarrow> sync \<Rightarrow> bool" where
  "sync_ready names s \<longleftrightarrow>
     wf_mapper (sy_mapper s) \<and> m_kind (sy_mapper s) = sy_kind s \<and> sy_canonical s = CanonicalNames (sy_mapper s) \<and>
     pr_side (sy_left s) = Left \<and> pr_side (sy_right s) = Right \<and>
     {pr_name (sy_left s), pr_name (sy_right s)} \<subseteq> names \<and>
     (\<forall>p \<in> {sy_left s, sy_right s}. peerByName s (pr_name p) = Some p)"

lemma buildSync_ready:
  assumes "buildSync conns cs = Inr s" and "cs_left cs \<noteq> cs_right cs"
  shows "sync_ready (set conns) s" and "sy_name s = sync_name cs"
proof -
  obtain m where m: "New (MappingSpec cs) = Inr m" and s: "sy_mapper s = m" "sy_kind s = cs_kind cs"
    "sy_canonical s = CanonicalNames m" "sy_name s = sync_name cs"
    "sy_left s = \<lparr>pr_name = cs_left cs, pr_side = Left\<rparr>" "sy_right s = \<lparr>pr_name = cs_right cs, pr_side = Right\<rparr>"
    "cs_left cs \<in> set conns" "cs_right cs \<in> set conns"
    using assms(1) by (auto simp: buildSync_def new_peer_def split: sum.splits if_splits)
  with New_sound(1,4) [OF m] assms(2) show "sync_ready (set conns) s" "sy_name s = sync_name cs"
    by (auto simp: sync_ready_def peerByName_def MappingSpec_def)
qed

lemma build_syncs_ready:
  assumes "build_syncs i conns css = Inr ss" and "\<forall>cs \<in> set css. cs_left cs \<noteq> cs_right cs"
  shows "map sy_name ss = map sync_name css \<and> (\<forall>s \<in> set ss. sync_ready (set conns) s)"
  using assms
proof (induction css arbitrary: i ss)
  case (Cons cs css)
  then obtain s ss' where "buildSync conns cs = Inr s" "build_syncs (Suc i) conns css = Inr ss'" "ss = s # ss'"
    by (auto split: sum.splits)
  with Cons.IH [of "Suc i" ss'] Cons.prems(2) buildSync_ready [of conns cs s] show ?case by auto
qed simp

lemma by_name_other: "k \<notin> f ` set ss \<Longrightarrow> map_of (fold (\<lambda>s. AList.update (f s) s) ss m) k = map_of m k"
  by (induction ss arbitrary: m) auto

lemma by_name: "distinct (map f ss) \<Longrightarrow> s \<in> set ss \<Longrightarrow> map_of (fold (\<lambda>s. AList.update (f s) s) ss m) (f s) = Some s"
  by (induction ss arbitrary: m) (auto simp: by_name_other)

section \<open>Properties\<close>

text \<open>
  C32: An engine built from a loaded configuration is ready to run. It has one sync for each
  configured one, in order, between two different supplied connectors whose events it can tell
  apart, with a well-formed mapper of its kind; a sync is found by its name when the names are
  distinct; there is at least one attempt for each task, and the queue is open and empty.
\<close>

theorem new_engine_ready:
  assumes "ot_config opts = Some cfg" and "config_ok cfg" and "engine_New opts = Inr (env, r)"
  shows "map sy_name (pe_sync_list env) = map sync_name (cg_syncs cfg) \<and>
    (\<forall>s \<in> set (pe_sync_list env). sync_ready (set (ot_connectors opts)) s \<and>
       (distinct (map sync_name (cg_syncs cfg)) \<longrightarrow> map_of (pe_syncs env) (sy_name s) = Some s)) \<and>
    1 \<le> pe_max_attempts env \<and> queue_run (cg_workers cfg) (rt_queue r) {#} {} \<and> \<not> wq_closed (rt_queue r)"
proof -
  obtain ss where ss: "build_syncs 0 (ot_connectors opts) (cg_syncs cfg) = Inr ss"
    and env: "pe_sync_list env = ss" "pe_syncs env = fold (\<lambda>s. AList.update (sy_name s) s) ss []"
      "pe_max_attempts env = cg_max_attempts cfg" "rt_queue r = newWorkQueue (cg_workers cfg)"
    using assms(1,3) by (auto simp: engine_New_def split: option.splits sum.splits prod.splits)
  have ready: "map sy_name ss = map sync_name (cg_syncs cfg) \<and> (\<forall>s \<in> set ss. sync_ready (set (ot_connectors opts)) s)"
    by (rule build_syncs_ready [OF ss]) (use assms(2) in \<open>auto simp: config_ok_def sync_ok_def\<close>)
  have found: "map_of (pe_syncs env) (sy_name s) = Some s" if "distinct (map sy_name ss)" "s \<in> set ss" for s
    using by_name [OF that] by (simp add: env)
  have "1 \<le> cg_max_attempts cfg" using assms(2) by (simp add: config_ok_def)
  with ready found env queue_run.start [of "cg_workers cfg"] show ?thesis by (auto simp: newWorkQueue_def Let_def)
qed


definition example_options :: "config \<Rightarrow> string list \<Rightarrow> (doc mem, (string \<times> string) list) options" where
  "example_options cfg names =
     \<lparr>ot_config = Some cfg, ot_store = Some (mem_ops, NewMem), ot_connectors = names,
      ot_conn = example_conn\<lparr>co_list := \<lambda>n now kind since cursor w. (Inr
        \<lparr>pg_records = (if n = ''hub'' then [\<lparr>r_kind = ''contact'', r_remote_id = ''1'',
           r_fields = [(''email'', VStr ''a@b.c'')], r_updated_at = 7, r_version = ''''\<rparr>] else []),
         pg_deleted = [], pg_cursor = ''''\<rparr>, w),
        co_describe := \<lambda>n now kind w. (Inr \<lparr>sc_kind = kind, sc_fields =
          map (\<lambda>x. \<lparr>sf_name = x, sf_type = ''string'', sf_read_only = False, sf_required = False\<rparr>) [''email'', ''mail'']\<rparr>, w)\<rparr>,
      ot_world = [], ot_now = unix_epoch, ot_hash = (\<lambda>x. x), ot_dry_run = False, ot_cancelled = False\<rparr>"

definition example_cfg :: config where
  "example_cfg = applyDefaults (example_config '''' '''')"

theorem new_engine_ready_witness:
  "\<exists>env r. engine_New (example_options example_cfg [''hub'', ''sales'']) = Inr (env, r) \<and>
     map sy_name (pe_sync_list env) = [''contact:hub-sales''] \<and> 1 \<le> pe_max_attempts env"
proof -
  let ?opts = "example_options example_cfg [''hub'', ''sales'']"
  have c: "ot_config ?opts = Some example_cfg" by (simp add: example_options_def)
  have ok: "config_ok example_cfg" by code_simp
  have n: "map sync_name (cg_syncs example_cfg) = [''contact:hub-sales'']" by code_simp
  have "case engine_New ?opts of Inr _ \<Rightarrow> True | Inl _ \<Rightarrow> False" by code_simp
  then obtain env r where e: "engine_New ?opts = Inr (env, r)" by (auto split: sum.splits)
  from new_engine_ready [OF c ok e] n e show ?thesis by auto
qed


text \<open>
  The name of a sync joins its parts with characters a connector's name may hold, and a
  configuration is not refused for two syncs of one name: the engine then polls both, and looks
  both up as the last of them.
\<close>

definition clashing_cfg :: config where
  "clashing_cfg = applyDefaults ((example_config '''' '''')\<lparr>
     cg_connectors := map example_connector [''a'', ''b-c'', ''a-b'', ''c''],
     cg_syncs := (let s = hd (cg_syncs (example_config '''' ''''))
       in [s\<lparr>cs_left := ''a'', cs_right := ''b-c''\<rparr>, s\<lparr>cs_left := ''a-b'', cs_right := ''c''\<rparr>])\<rparr>)"

theorem same_name_syncs_shadow:
  "\<exists>env r s1 s2. config_ok clashing_cfg \<and>
     engine_New (example_options clashing_cfg [''a'', ''b-c'', ''a-b'', ''c'']) = Inr (env, r) \<and>
     pe_sync_list env = [s1, s2] \<and> peerByName s1 ''a'' \<noteq> None \<and>
     map_of (pe_syncs env) (sy_name s1) = Some s2 \<and> peerByName s2 ''a'' = None"
proof -
  have ok: "config_ok clashing_cfg" by code_simp
  define sound where "sound er \<longleftrightarrow> (let ss = pe_sync_list (fst er) in length ss = 2 \<and> peerByName (ss ! 0) ''a'' \<noteq> None \<and>
    sy_name (ss ! 0) = sy_name (ss ! 1) \<and> peerByName (ss ! 1) ''a'' = None)" for er :: "(doc mem, (string \<times> string) list) env \<times> (doc mem, (string \<times> string) list) rt"
  have "case engine_New (example_options clashing_cfg [''a'', ''b-c'', ''a-b'', ''c'']) of Inl _ \<Rightarrow> False | Inr er \<Rightarrow> sound er"
    unfolding sound_def by code_simp
  then obtain env r where e: "engine_New (example_options clashing_cfg [''a'', ''b-c'', ''a-b'', ''c'']) = Inr (env, r)"
    and "sound (env, r)" by (auto split: sum.splits)
  then obtain s1 s2 where s: "pe_sync_list env = [s1, s2]" "peerByName s1 ''a'' \<noteq> None" "sy_name s1 = sy_name s2" "peerByName s2 ''a'' = None"
    by (auto simp: sound_def Let_def numeral_2_eq_2 length_Suc_conv)
  have "pe_syncs env = fold (\<lambda>s. AList.update (sy_name s) s) (pe_sync_list env) []"
    using e by (auto simp: engine_New_def split: option.splits sum.splits prod.splits)
  then have "map_of (pe_syncs env) (sy_name s1) = Some s2" by (simp add: s)
  with ok e s(1,2,4) show ?thesis by blast
qed

end
