(* ===== verification/Report.thy ===== *)
theory Report
  imports Doctor Engine_New "HOL-Library.Sublist"
begin

text \<open>
  \<^verbatim>\<open>internal/report/report.go\<close>: what a person reads of a diagnosis and of a plan. A writer is the
  text written to it. Padding counts characters, exact for ASCII text as everywhere in the library.
\<close>

abbreviation (input) newline :: string where
  "newline \<equiv> [CHR 0x0A]"

section \<open>A diagnosis\<close>

definition pad_right :: "nat \<Rightarrow> string \<Rightarrow> string" where
  "pad_right w s = s @ replicate (w - length s) (CHR '' '')"

definition label_width :: "check list \<Rightarrow> nat" where
  "label_width cs =
     foldl (\<lambda>w c. let n = length (ck_name c) + length (ck_subject c) + 1 in if n > w then n else w) 0 cs"

definition label :: "check \<Rightarrow> string" where
  "label c = ck_name c @ (if ck_subject c \<noteq> '''' then '' '' @ ck_subject c else '''')"

definition check_line :: "nat \<Rightarrow> check \<Rightarrow> string" where
  "check_line w c =
     (if ck_ok c then ''ok  '' else ''FAIL'') @ ''  '' @ pad_right w (label c) @ ''  '' @ ck_detail c @ newline"

definition Doctor_text :: "diagnosis \<Rightarrow> string" where
  "Doctor_text d =
     (if dg_checks d = [] then ''Nothing to check: no syncs are configured.'' @ newline
      else concat (map (check_line (label_width (dg_checks d))) (dg_checks d)) @ newline @
        (let failures = Failures d; total = itoa (int (length (dg_checks d)))
         in if length failures > 0 then itoa (int (length failures)) @ '' of '' @ total @ '' checks failed.'' @ newline
            else ''All '' @ total @ '' checks passed.'' @ newline))"

section \<open>A plan\<close>

definition render :: "val \<Rightarrow> string" where
  "render v = (case v of VNil \<Rightarrow> ''(unset)'' | VStr s \<Rightarrow> quoted s | _ \<Rightarrow> sprint v)"

definition writeChange :: "planned_change \<Rightarrow> string" where
  "writeChange c =
     (let fields = concat (map (\<lambda>(f, v). ''    '' @ f @ '' = '' @ render v @ newline) (pl_fields c))
      in if pl_action c = ActionCreate then
           ''  create on '' @ ref_connector (pl_target c) @ newline @ ''    from '' @ ref_string (pl_source c) @ newline @ fields
         else if pl_action c = ActionDelete then
           ''  delete '' @ ref_string (pl_target c) @ newline @
           ''    because '' @ ref_string (pl_source c) @ '' was deleted'' @ newline
         else ''  update '' @ ref_string (pl_target c) @ newline @ ''    from '' @ ref_string (pl_source c) @ newline @ fields)"

definition planned_actions :: "string \<Rightarrow> plan_report \<Rightarrow> nat" where
  "planned_actions action r = length (filter (\<lambda>c. pl_action c = action) (pp_changes r))"

definition summarise :: "plan_report \<Rightarrow> string" where
  "summarise r =
     (let part = (\<lambda>n what. if n > 0 then [itoa (int n) @ what] else []);
          parts = concat (map (\<lambda>action. part (planned_actions action r) ('' to '' @ action)) [ActionCreate, ActionUpdate, ActionDelete]) @
            part (length (pp_reviews r)) '' waiting for a decision'' @
            part (length (pp_dead_letters r)) '' that would fail''
      in if parts = [] then ''Nothing to do'' else join_strings '', '' parts)"

definition writeErrors :: "string list \<Rightarrow> string" where
  "writeErrors errs =
     (if errs = [] then ''''
      else newline @ ''The plan is incomplete. '' @ itoa (int (length errs)) @ '' peer error(s):'' @ newline @
        concat (map (\<lambda>e. concat (map (\<lambda>line. ''  '' @ line @ newline) (split_at (CHR 0x0A) e))) errs))"

definition waiting :: "string \<Rightarrow> queue_item list \<Rightarrow> string" where
  "waiting title items =
     (if items = [] then ''''
      else title @ '' ('' @ itoa (int (length items)) @ '')'' @ newline @
        concat (map (\<lambda>i. ''  '' @ ref_string (q_ref i) @ newline @ ''    '' @ q_reason i @ newline) items) @ newline)"

text \<open>The names of the syncs with changes, sorted, and the changes of one.\<close>

definition sync_names :: "planned_change list \<Rightarrow> string list" where
  "sync_names cs = sort_strings (fold (\<lambda>c names. if pl_sync c \<in> set names then names else names @ [pl_sync c]) cs [])"

definition of_sync :: "planned_change list \<Rightarrow> string \<Rightarrow> planned_change list" where
  "of_sync cs name = filter (\<lambda>c. pl_sync c = name) cs"

definition Plan_text :: "plan_report \<Rightarrow> string" where
  "Plan_text r =
     (if plan_Empty r then
        (if pp_errors r \<noteq> [] then ''Nothing to report from the peers that answered.'' @ newline
         else ''Nothing to do: both sides already agree.'' @ newline) @ writeErrors (pp_errors r)
      else
        concat (map (\<lambda>name. name @ newline @ concat (map writeChange (of_sync (pp_changes r) name)) @ newline)
          (sync_names (pp_changes r))) @
        waiting ''Waiting for a decision'' (pp_reviews r) @ waiting ''Would fail'' (pp_dead_letters r) @
        summarise r @ ''.'' @ newline @ writeErrors (pp_errors r))"

section \<open>Properties\<close>

lemma seen_names:
  "set (fold (\<lambda>c names. if f c \<in> set names then names else names @ [f c]) cs names) = set names \<union> f ` set cs"
  "distinct names \<Longrightarrow> distinct (fold (\<lambda>c names. if f c \<in> set names then names else names @ [f c]) cs names)"
  by (induction cs arbitrary: names) auto

lemma sync_names: "distinct (sync_names cs)" "set (sync_names cs) = pl_sync ` set cs"
  by (simp_all add: sync_names_def seen_names)

lemma grouped_mset:
  assumes "distinct names" "pl_sync ` set cs \<subseteq> set names"
  shows "mset (concat (map (of_sync cs) names)) = mset cs"
  using assms(2)
proof (induction cs)
  case Nil
  then show ?case by (simp add: of_sync_def map_replicate_const)
next
  case (Cons c cs)
  have "mset (concat (map (of_sync (c # cs)) ns)) = (if pl_sync c \<in> set ns then {# c #} else {#}) + mset (concat (map (of_sync cs) ns))"
    if "distinct ns" for ns
    using that by (induction ns) (auto simp: of_sync_def)
  with assms(1) Cons show ?case by simp
qed

lemma sublist_in_concat: "x \<in> set xs \<Longrightarrow> sublist s x \<Longrightarrow> sublist s (concat xs)"
  by (auto simp: in_set_conv_decomp sublist_def) (metis append.assoc)

lemma sublist_left: "sublist s a \<Longrightarrow> sublist s (a @ b)" and sublist_right: "sublist s b \<Longrightarrow> sublist s (a @ b)"
  by (auto simp: sublist_def) (metis append.assoc)+

lemma label_width_bound: "c \<in> set cs \<Longrightarrow> length (label c) \<le> label_width cs"
proof -
  let ?f = "\<lambda>w c. let n = length (ck_name c) + length (ck_subject c) + 1 in if n > w then n else w"
  have mono: "w \<le> foldl ?f w cs" for w cs
  proof (induction cs arbitrary: w)
    case (Cons c cs)
    have "w \<le> ?f w c" by (simp add: Let_def)
    with Cons [of "?f w c"] show ?case by simp
  qed simp
  have "c \<in> set cs \<Longrightarrow> length (label c) \<le> foldl ?f w cs" for w
  proof (induction cs arbitrary: w)
    case (Cons d cs)
    have "length (label d) \<le> ?f w d" by (simp add: label_def Let_def)
    with mono [of "?f w d" cs] Cons show ?case by auto
  qed simp
  then show "c \<in> set cs \<Longrightarrow> length (label c) \<le> label_width cs" by (simp add: label_width_def)
qed

text \<open>
  A diagnosis is readable. Every check has a line of its own in the text, and the details of all
  the lines start in the same column, whatever the length of the names.
\<close>

theorem diagnosis_columns_align:
  assumes "c \<in> set (dg_checks d)"
  shows "\<exists>p. check_line (label_width (dg_checks d)) c = p @ ck_detail c @ newline \<and> length p = label_width (dg_checks d) + 8 \<and>
    sublist (check_line (label_width (dg_checks d)) c) (Doctor_text d)"
proof -
  let ?w = "label_width (dg_checks d)"
  let ?p = "(if ck_ok c then ''ok  '' else ''FAIL'') @ ''  '' @ pad_right ?w (label c) @ ''  ''"
  have "check_line ?w c = ?p @ ck_detail c @ newline" by (simp add: check_line_def)
  moreover have "length ?p = ?w + 8" using label_width_bound [OF assms] by (simp add: pad_right_def)
  moreover have "sublist (check_line ?w c) (Doctor_text d)"
    using assms by (auto simp: Doctor_text_def intro!: sublist_left sublist_in_concat)
  ultimately show ?thesis by blast
qed

definition example_diagnosis :: diagnosis where
  "example_diagnosis = fail_check ''connector'' ''hub contact'' ''no answer'' (pass_check ''store'' '''' ''writable'' \<lparr>dg_checks = []\<rparr>)"

theorem diagnosis_columns_align_witness:
  "\<exists>p. check_line 21 \<lparr>ck_name = ''store'', ck_subject = '''', ck_ok = True, ck_detail = ''writable''\<rparr> = p @ ''writable'' @ newline \<and>
     length p = 29"
proof -
  have w: "label_width (dg_checks example_diagnosis) = 21" by code_simp
  have "\<lparr>ck_name = ''store'', ck_subject = '''', ck_ok = True, ck_detail = ''writable''\<rparr> \<in> set (dg_checks example_diagnosis)"
    by (simp add: example_diagnosis_def fail_check_def pass_check_def)
  from diagnosis_columns_align [OF this] show ?thesis unfolding w by auto
qed



definition example_report :: plan_report where
  "example_report =
     \<lparr>pp_changes = map (\<lambda>(s, a). \<lparr>pl_sync = s, pl_action = a,
          pl_source = \<lparr>ref_connector = ''hub'', ref_kind = ''contact'', ref_remote_id = ''1''\<rparr>,
          pl_target = \<lparr>ref_connector = ''sales'', ref_kind = ''contact'', ref_remote_id = ''2''\<rparr>, pl_fields = [(''mail'', VStr ''x'')]\<rparr>)
        [(''b'', ActionUpdate), (''a'', ActionDelete), (''b'', ActionUpdate)],
      pp_reviews = [], pp_dead_letters = [], pp_errors = [''no answer'']\<rparr>"


end
