(* ===== verification/Dry_Run.thy ===== *)
theory Dry_Run
  imports Engine_New Store_Access
begin

text \<open>
  What a dry run promises: it changes nothing outside. The peers are only read, because the run
  records a plan (\<open>peers_read\<close>), and the state directory is only read, because every store access
  goes through the overlay (\<open>engine_kept\<close>).
\<close>

section \<open>The overlay never writes to its base\<close>

locale base_read =
  fixes ops :: "('s, doc) store_ops" and st :: 's
  assumes get_reads: "snd (so_get ops now c k st) = st"
    and list_reads: "snd (so_list ops now c n st) = st"
begin

abbreviation on_same_base :: "('s, doc) overlay \<Rightarrow> bool" where
  "on_same_base ov \<equiv> ov_base ov = st"

lemma same_on_over: "keeps on_same_base (on_over f)"
  by (simp add: keeps_def on_over_def case_prod_beta)

lemma same_on_base:
  "keeps on_same_base (on_base (so_get ops now c k))" "keeps on_same_base (on_base (so_list ops now c n))"
  by (simp_all add: keeps_def on_base_def case_prod_beta get_reads list_reads)

lemma same_get: "keeps on_same_base (overlay_get ops now c k)"
proof (rule keeps_pointwise)
  fix ov :: "('s, doc) overlay"
  have "keeps on_same_base (andThen (on_over (mem_get now c k))
      (\<lambda>r. if r \<noteq> None then ret r
           else if tomb c k \<in> ov_deleted ov then ret None
           else on_base (so_get ops now c k)))"
    by (auto intro!: keeps_andThen same_on_over same_on_base)
  moreover have "keeps on_same_base (Pair (Inl ErrClosed))" by simp
  ultimately show "\<exists>m. keeps on_same_base m \<and> overlay_get ops now c k ov = m ov"
    by (cases "ov_closed ov") (auto simp: overlay_get_def)
qed

lemma same_list: "keeps on_same_base (overlay_list ops now c n)"
proof (rule keeps_pointwise)
  fix ov :: "('s, doc) overlay"
  have "keeps on_same_base (andThen (on_base (so_list ops now c 0)) (\<lambda>baseEntries.
      andThen (on_over (mem_list now c 0)) (\<lambda>overEntries.
        let merged = merged_entries c (ov_deleted ov) baseEntries overEntries
        in ret (entries_at merged (limited n (sort_strings (map fst merged)))))))"
    by (auto intro!: keeps_andThen same_on_over same_on_base simp: Let_def)
  moreover have "keeps on_same_base (Pair (Inl ErrClosed))" by simp
  ultimately show "\<exists>m. keeps on_same_base m \<and> overlay_list ops now c n ov = m ov"
    by (cases "ov_closed ov") (auto simp: overlay_list_def)
qed

lemma same_writes:
  "keeps on_same_base (overlay_put now c k v t)" "keeps on_same_base (overlay_delete now c k)"
  "keeps on_same_base (\<lambda>ov. andThen (on_over (mem_delete now c k)) (\<lambda>_. ret r)
     (ov\<lparr>ov_deleted := insert (tomb c k) (ov_deleted ov)\<rparr>))"
  by (auto simp: keeps_def overlay_put_def overlay_delete_def on_over_def andThen_def
      split: prod.split sum.split)

lemma same_take: "keeps on_same_base (overlay_take ops now c k)"
  unfolding overlay_take_def by (auto intro!: keeps_andThen same_get same_writes)

end

text \<open>Its operations keep the base, so they are the store of a run that keeps it.\<close>

context base_read
begin

lemma overlay_kept: "store_kept (overlay_ops ops) on_same_base"
  by unfold_locales (simp_all add: overlay_ops_def same_get same_list same_writes same_take)

end

sublocale base_read \<subseteq> store_kept "overlay_ops ops" on_same_base
  by (rule overlay_kept)

section \<open>A whole plan\<close>

context run_kept
begin

lemma run_plan_run: "plan_run env rnd sel r = Some (x, r') \<Longrightarrow> in_run I r \<Longrightarrow> in_run I r'"
  using run_Validate [of "rt_eng r"] keepsD [OF run_items(1)] keepsD [OF run_items(2)]
  unfolding plan_run_def
  by (auto split: prod.splits option.splits sum.splits dest!: run_Cycle) (metis in_run_def snd_conv)+

end

context engine_kept
begin

lemmas plan_kept = run.run_plan_run

end

context peers_read
begin

lemmas plan_dry = dry.run_plan_run

end

lemma engine_New_parts:
  assumes "engine_New opts = Inr (env, r)" and "ot_store opts = Some (ops, st)"
  shows "pe_store env = ops" and "pe_conn env = ot_conn opts" and "en_store (rt_eng r) = st"
    and "en_world (rt_eng r) = ot_world opts" and "en_plan (rt_eng r) \<noteq> None \<longleftrightarrow> ot_dry_run opts"
  using assms by (auto simp: engine_New_def split: option.splits sum.splits prod.splits if_splits)

lemma plan_keeps:
  fixes opts :: "('s, 'w) options"
  assumes run: "Plan rnd sel opts = Some (res, Some r)"
    and store: "ot_store opts = Some (ops, st)"
    and base: "\<And>now c k. snd (so_get ops now c k st) = st" "\<And>now c n. snd (so_list ops now c n st) = st"
    and world: "Q (ot_world opts)"
    and reads: "\<And>name now kind rid w. Q w \<Longrightarrow> Q (snd (co_get (ot_conn opts) name now kind rid w))"
      "\<And>name now kind since cursor w. Q w \<Longrightarrow> Q (snd (co_list (ot_conn opts) name now kind since cursor w))"
      "\<And>name now kind w. Q w \<Longrightarrow> Q (snd (co_describe (ot_conn opts) name now kind w))"
  shows "ov_base (en_store (rt_eng r)) = st \<and> Q (en_world (rt_eng r))"
proof -
  obtain env r0 r' where new: "engine_New (plan_options opts) = Inr (env, r0)"
    and plan: "plan_run env rnd sel r0 = Some (res, r')" and r: "r = close_overlay r'"
    using run by (auto simp: Plan_def split: sum.splits prod.splits option.splits)
  have "ot_store (plan_options opts) = Some (overlay_ops ops, NewOverlay st)"
    by (simp add: plan_options_def store)
  note parts = engine_New_parts [OF new this]
  have "store_kept (pe_store env) (\<lambda>ov. ov_base ov = st)"
    unfolding parts(1) by (rule base_read.overlay_kept) (unfold_locales, (rule base)+)
  then have "engine_kept env (\<lambda>ov. ov_base ov = st)" by (rule engine_kept.intro)
  from engine_kept.plan_kept [OF this plan] parts(3)
  have "ov_base (en_store (rt_eng r')) = st" by (simp add: in_run_def in_store_def NewOverlay_def)
  moreover have "peers_read env Q"
    by unfold_locales (use reads in \<open>simp_all add: parts(2) plan_options_def\<close>)
  from peers_read.plan_dry [OF this plan] parts(4,5) world
  have "Q (en_world (rt_eng r'))" by (simp add: in_run_def dry_def outside_def plan_options_def)
  ultimately show ?thesis
    by (simp add: r close_overlay_def on_eng_def overlay_close_def on_over_def case_prod_beta)
qed

text \<open>
  A plan changes nothing. However the dry run goes, the state directory is afterwards as it was,
  and the peers were only asked to describe themselves, to list changes and to return records:
  whatever those reads leave true of the peers is still true. So the plan can be made against
  production.
\<close>

theorem plan_changes_nothing:
  fixes opts :: "('s, 'w) options"
  assumes run: "Plan rnd sel opts = Some (res, Some r)"
    and store: "ot_store opts = Some (ops, st)"
    and base: "\<And>now c k. snd (so_get ops now c k st) = st" "\<And>now c n. snd (so_list ops now c n st) = st"
    and world: "Q (ot_world opts)"
    and reads: "\<And>name now kind rid w. Q w \<Longrightarrow> Q (snd (co_get (ot_conn opts) name now kind rid w))"
      "\<And>name now kind since cursor w. Q w \<Longrightarrow> Q (snd (co_list (ot_conn opts) name now kind since cursor w))"
      "\<And>name now kind w. Q w \<Longrightarrow> Q (snd (co_describe (ot_conn opts) name now kind w))"
  shows "ov_base (en_store (rt_eng r)) = st \<and> Q (en_world (rt_eng r))"
  by (rule plan_keeps [OF run store base world reads])


definition example_plan :: "((gerr + plan_report) \<times> ((doc mem, doc) overlay, (string \<times> string) list) rt option) option" where
  "example_plan = Plan (\<lambda>_ _. 0) (\<lambda>_ _. True) (example_options example_cfg [''hub'', ''sales''])"

lemma planned_cases:
  assumes "case p of Some (Inr x, Some r) \<Rightarrow> P x | _ \<Rightarrow> False"
  obtains x r where "p = Some (Inr x, Some r)" "P x"
proof (cases p)
  case (Some y)
  with assms that show ?thesis by (cases y; cases "fst y"; cases "snd y") auto
qed (use assms in simp)

theorem plan_changes_nothing_witness:
  "\<exists>rep r. example_plan = Some (Inr rep, Some r) \<and> map pl_action (pp_changes rep) = [ActionCreate] \<and>
     ov_base (en_store (rt_eng r)) = NewMem \<and> en_world (rt_eng r) = []"
proof -
  have "case example_plan of Some (Inr rep, Some r) \<Rightarrow> map pl_action (pp_changes rep) = [ActionCreate] | _ \<Rightarrow> False"
    by code_simp
  then obtain rep r where p: "example_plan = Some (Inr rep, Some r)" and a: "map pl_action (pp_changes rep) = [ActionCreate]"
    by (rule planned_cases)
  let ?opts = "example_options example_cfg [''hub'', ''sales'']"
  have s: "ot_store ?opts = Some (mem_ops, NewMem)" and w: "ot_world ?opts = []" by (simp_all add: example_options_def)
  have r: "snd (so_get mem_ops now c k NewMem) = NewMem" "snd (so_list mem_ops now c n NewMem) = NewMem" for now c k n
    by (simp_all add: mem_ops_def mem_get_def mem_list_def split: option.split)
  have "ov_base (en_store (rt_eng r)) = NewMem \<and> en_world (rt_eng r) = []"
    by (rule plan_changes_nothing [OF p [unfolded example_plan_def] s r, where Q = "\<lambda>w. w = []"])
       (simp_all add: w, simp_all add: example_options_def)
  with p a show ?thesis by (intro exI [of _ rep] exI [of _ r] conjI) simp_all
qed

end
