(* ===== verification/File_Store.thy ===== *)
theory File_Store
  imports Mem_Store "HOL-Library.Product_Lexorder"
begin

text \<open>
  \<^verbatim>\<open>internal/store/file.go\<close>: the durable store. The live set is kept in memory as in the memory
  store; every mutation is appended to a log and synced before it is applied, and now and then the
  live set is written out as a snapshot and the log is cut.

  The disk holds the log as a list of lines, each a whole record or a torn one, the snapshot and
  the temporary snapshot. A line is represented by the operation it decodes to, a snapshot by its
  operations. Every system call goes through \<open>syscall\<close>: \<open>io n\<close> is how the \<open>n\<close>-th one ends.
  What a crash can leave behind is kept beside each file: \<open>dk_log_after\<close> and
  \<open>dk_snap_after\<close> list the contents that may be found after a crash, and a sync cuts the list
  to the present content. \<open>fl_history\<close> records the disk after every call, so that a crash at any
  moment of an operation can be spoken about.
\<close>

section \<open>The disk\<close>

text \<open>The struct \<^verbatim>\<open>op\<close>; its flag \<^verbatim>\<open>D\<close> tells a deletion from a write.\<close>

datatype 'v fop =
    OpPut (op_c: string) (op_k: string) 'v int
  | OpDelete (op_c: string) (op_k: string)

datatype 'v line = Whole "'v fop" | Torn

datatype 'v snapfile = Missing | Corrupt | Snap "(string \<times> 'v fop) list"

record 'v disk =
  dk_log :: "'v line list"
  dk_log_after :: "'v line list list"
  dk_snap :: "'v snapfile"
  dk_snap_after :: "'v snapfile list"
  dk_temp :: "'v snapfile"
  dk_temp_synced :: "'v snapfile"

datatype io = IoOk | IoFail | IoShort

record 'v fstore =
  fl_disk :: "'v disk"
  fl_calls :: nat
  fl_history :: "'v disk list"
  fl_ops :: int
  fl_compact_after :: int
  fl_data :: "(string, 'v coll) gomap"
  fl_closed :: bool

definition defaultCompactAfter :: int where "defaultCompactAfter = 1000"

definition syscall :: "(nat \<Rightarrow> io) \<Rightarrow> string \<Rightarrow> (io \<Rightarrow> 'v disk \<Rightarrow> 'v disk) \<Rightarrow> ('v fstore, gerr, unit) st" where
  "syscall io what eff f =
     (let x = io (fl_calls f); d = eff x (fl_disk f);
          f' = f\<lparr>fl_disk := d, fl_calls := fl_calls f + 1, fl_history := fl_history f @ [d]\<rparr>
      in if x = IoOk then (Inr (), f') else (Inl (ErrText what), f'))"

text \<open>A write that fails may have left part of the line.\<close>

definition do_write_log :: "'v fop \<Rightarrow> io \<Rightarrow> 'v disk \<Rightarrow> 'v disk" where
  "do_write_log opr x d =
     (case x of
        IoOk \<Rightarrow> d\<lparr>dk_log := dk_log d @ [Whole opr],
                  dk_log_after := dk_log_after d @ [dk_log d @ [Torn], dk_log d @ [Whole opr]]\<rparr>
      | IoShort \<Rightarrow> d\<lparr>dk_log := dk_log d @ [Torn], dk_log_after := dk_log_after d @ [dk_log d @ [Torn]]\<rparr>
      | IoFail \<Rightarrow> d)"

definition do_sync_log :: "io \<Rightarrow> 'v disk \<Rightarrow> 'v disk" where
  "do_sync_log x d = (if x = IoOk then d\<lparr>dk_log_after := [dk_log d]\<rparr> else d)"

definition do_open_temp :: "io \<Rightarrow> 'v disk \<Rightarrow> 'v disk" where
  "do_open_temp x d = (if x = IoOk then d\<lparr>dk_temp := Corrupt, dk_temp_synced := Corrupt\<rparr> else d)"

definition do_write_temp :: "(string \<times> 'v fop) list \<Rightarrow> io \<Rightarrow> 'v disk \<Rightarrow> 'v disk" where
  "do_write_temp snap x d = (if x = IoOk then d\<lparr>dk_temp := Snap snap\<rparr> else d)"

definition do_sync_temp :: "io \<Rightarrow> 'v disk \<Rightarrow> 'v disk" where
  "do_sync_temp x d = (if x = IoOk then d\<lparr>dk_temp_synced := dk_temp d\<rparr> else d)"

definition do_nothing :: "io \<Rightarrow> 'v disk \<Rightarrow> 'v disk" where
  "do_nothing x d = d"

definition do_rename :: "io \<Rightarrow> 'v disk \<Rightarrow> 'v disk" where
  "do_rename x d =
     (if x = IoOk then d\<lparr>dk_snap := dk_temp d, dk_snap_after := dk_snap_after d @ [dk_temp_synced d], dk_temp := Missing\<rparr>
      else d)"

definition do_sync_dir :: "io \<Rightarrow> 'v disk \<Rightarrow> 'v disk" where
  "do_sync_dir x d = (if x = IoOk then d\<lparr>dk_snap_after := [last (dk_snap_after d)]\<rparr> else d)"

definition do_truncate_log :: "io \<Rightarrow> 'v disk \<Rightarrow> 'v disk" where
  "do_truncate_log x d = (if x = IoOk then d\<lparr>dk_log := [], dk_log_after := dk_log_after d @ [[]]\<rparr> else d)"

lemma do_nothing_id [simp]: "do_nothing x d = d"
  by (simp add: do_nothing_def)

section \<open>Operations\<close>

definition exp_nano :: "gotime \<Rightarrow> int" where
  "exp_nano expires = (if expires = zero_time then 0 else unix_nano expires)"

definition nano_exp :: "int \<Rightarrow> gotime" where
  "nano_exp n = (if n \<noteq> 0 then from_unix_nano n else zero_time)"

definition data_coll :: "(string, 'v coll) gomap \<Rightarrow> string \<Rightarrow> 'v coll" where
  "data_coll data c = (case map_of data c of Some es \<Rightarrow> es | None \<Rightarrow> [])"

definition put_op :: "string \<Rightarrow> string \<Rightarrow> 'v \<Rightarrow> gotime \<Rightarrow> 'v fop" where
  "put_op c k v expires = OpPut c k v (exp_nano expires)"

fun apply_op :: "string \<Rightarrow> 'v fop \<Rightarrow> (string, 'v coll) gomap \<Rightarrow> (string, 'v coll) gomap" where
  "apply_op c (OpDelete _ k) data =
     (case map_of data c of
        None \<Rightarrow> data | Some es \<Rightarrow> AList.update c (AList.delete k es) data)"
| "apply_op c (OpPut _ k v e) data =
     AList.update c
       (AList.update k \<lparr>e_key = k, e_value = v, e_expires = nano_exp e\<rparr> (data_coll data c)) data"

definition append_log :: "(nat \<Rightarrow> io) \<Rightarrow> 'v fop \<Rightarrow> ('v fstore, gerr, unit) st" where
  "append_log io opr =
     andThen (syscall io ''store: append'' (do_write_log opr)) (\<lambda>_.
     andThen (syscall io ''store: fsync'' do_sync_log) (\<lambda>_ f.
     (Inr (), f\<lparr>fl_ops := fl_ops f + 1\<rparr>)))"

definition snap_of :: "(string, 'v coll) gomap \<Rightarrow> (string \<times> 'v fop) list" where
  "snap_of data =
     concat (map (\<lambda>(c, es). map (\<lambda>(k, e). (c, put_op c k (e_value e) (e_expires e))) es) data)"

definition compact :: "(nat \<Rightarrow> io) \<Rightarrow> ('v fstore, gerr, unit) st" where
  "compact io f =
     andThen (syscall io ''store: open temp snapshot'' do_open_temp) (\<lambda>_.
     andThen (syscall io ''store: write temp snapshot'' (do_write_temp (snap_of (fl_data f)))) (\<lambda>_.
     andThen (syscall io ''store: fsync temp snapshot'' do_sync_temp) (\<lambda>_.
     andThen (syscall io ''store: close temp snapshot'' do_nothing) (\<lambda>_.
     andThen (syscall io ''store: commit snapshot'' do_rename) (\<lambda>_.
     andThen (syscall io ''store: open dir'' do_nothing) (\<lambda>_.
     andThen (syscall io ''store: fsync dir'' do_sync_dir) (\<lambda>_.
     andThen (syscall io ''store: truncate log'' do_truncate_log) (\<lambda>_.
     andThen (syscall io ''store: rewind log'' do_nothing) (\<lambda>_.
     andThen (syscall io ''store: fsync truncated log'' do_sync_log) (\<lambda>_ f.
     (Inr (), f\<lparr>fl_ops := 0\<rparr>))))))))))) f"

definition maybeCompact :: "(nat \<Rightarrow> io) \<Rightarrow> ('v fstore, gerr, unit) st" where
  "maybeCompact io f = (if fl_compact_after f > 0 \<and> fl_ops f \<ge> fl_compact_after f then compact io f else (Inr (), f))"

text \<open>What \<^verbatim>\<open>Put\<close>, \<^verbatim>\<open>Delete\<close> and \<^verbatim>\<open>Take\<close> do: append, apply, then compact if due.\<close>

definition append_apply :: "(nat \<Rightarrow> io) \<Rightarrow> 'v fop \<Rightarrow> ('v fstore, gerr, unit) st" where
  "append_apply io opr =
     andThen (append_log io opr) (\<lambda>_ f. (Inr (), f\<lparr>fl_data := apply_op (op_c opr) opr (fl_data f)\<rparr>))"

definition mutate :: "(nat \<Rightarrow> io) \<Rightarrow> 'v fop \<Rightarrow> ('v fstore, gerr, unit) st" where
  "mutate io opr = andThen (append_apply io opr) (\<lambda>_. maybeCompact io)"

section \<open>The store\<close>

definition file_get :: "gotime \<Rightarrow> string \<Rightarrow> string \<Rightarrow> ('v fstore, gerr, 'v option) st" where
  "file_get now c k f =
     (if fl_closed f then (Inl ErrClosed, f)
      else case map_of (data_coll (fl_data f) c) k of
             None \<Rightarrow> (Inr None, f)
           | Some e \<Rightarrow> (Inr (if \<not> live (e_expires e) now then None else Some (e_value e)), f))"

definition file_put :: "(nat \<Rightarrow> io) \<Rightarrow> gotime \<Rightarrow> string \<Rightarrow> string \<Rightarrow> 'v \<Rightarrow> gotime \<Rightarrow> ('v fstore, gerr, unit) st" where
  "file_put io now c k v expires f =
     (if fl_closed f then (Inl ErrClosed, f) else mutate io (put_op c k v expires) f)"

definition file_delete :: "(nat \<Rightarrow> io) \<Rightarrow> gotime \<Rightarrow> string \<Rightarrow> string \<Rightarrow> ('v fstore, gerr, unit) st" where
  "file_delete io now c k f =
     (if fl_closed f then (Inl ErrClosed, f)
      else if map_of (data_coll (fl_data f) c) k = None then (Inr (), f)
      else mutate io (OpDelete c k) f)"

definition file_take :: "(nat \<Rightarrow> io) \<Rightarrow> gotime \<Rightarrow> string \<Rightarrow> string \<Rightarrow> ('v fstore, gerr, 'v option) st" where
  "file_take io now c k f =
     (if fl_closed f then (Inl ErrClosed, f)
      else case map_of (data_coll (fl_data f) c) k of
             None \<Rightarrow> (Inr None, f)
           | Some e \<Rightarrow>
               andThen (mutate io (OpDelete c k)) (\<lambda>_.
                 ret (if \<not> live (e_expires e) now then None else Some (e_value e))) f)"

definition file_list :: "gotime \<Rightarrow> string \<Rightarrow> int \<Rightarrow> ('v fstore, gerr, 'v entry list) st" where
  "file_list now c limit f =
     (if fl_closed f then (Inl ErrClosed, f)
      else let es = data_coll (fl_data f) c
           in (Inr (entries_at es (limited limit (sort_strings (live_keys now es)))), f))"

definition file_len :: "gotime \<Rightarrow> string \<Rightarrow> ('v fstore, gerr, int) st" where
  "file_len now c f =
     (if fl_closed f then (Inl ErrClosed, f)
      else (Inr (int (length (live_keys now (data_coll (fl_data f) c)))), f))"

definition dead_refs :: "gotime \<Rightarrow> (string, 'v coll) gomap \<Rightarrow> (string \<times> string) list" where
  "dead_refs now data =
     sort (concat (map (\<lambda>(c, es). map (\<lambda>(k, e). (c, k)) (filter (\<lambda>(k, e). \<not> live (e_expires e) now) es)) data))"

definition file_sweep :: "(nat \<Rightarrow> io) \<Rightarrow> gotime \<Rightarrow> ('v fstore, gerr, int) st" where
  "file_sweep io now f =
     (if fl_closed f then (Inl ErrClosed, f)
      else let dead = dead_refs now (fl_data f)
           in andThen (for_each (\<lambda>(c, k). append_apply io (OpDelete c k)) dead) (\<lambda>_.
              andThen (maybeCompact io) (\<lambda>_. ret (int (length dead)))) f)"

definition file_close :: "('v fstore, gerr, unit) st" where
  "file_close f = (Inr (), f\<lparr>fl_closed := True, fl_data := []\<rparr>)"

definition file_Compact :: "(nat \<Rightarrow> io) \<Rightarrow> ('v fstore, gerr, unit) st" where
  "file_Compact io f = (if fl_closed f then (Inl ErrClosed, f) else compact io f)"

definition file_ops :: "(nat \<Rightarrow> io) \<Rightarrow> ('v fstore, 'v) store_ops" where
  "file_ops io =
     \<lparr>so_get = file_get, so_put = file_put io, so_delete = file_delete io, so_take = file_take io,
      so_list = file_list, so_len = file_len, so_sweep = file_sweep io, so_close = file_close\<rparr>"

section \<open>Opening\<close>

text \<open>Replaying stops at the first line that is not a whole record; what was read is kept.\<close>

fun replayLog :: "'v line list \<Rightarrow> (string, 'v coll) gomap \<Rightarrow> 'v line list \<times> (string, 'v coll) gomap" where
  "replayLog [] data = ([], data)"
| "replayLog (Torn # ls) data = ([], data)"
| "replayLog (Whole opr # ls) data =
     (case replayLog ls (apply_op (op_c opr) opr data) of (good, data') \<Rightarrow> (Whole opr # good, data'))"

definition loadSnapshot :: "'v snapfile \<Rightarrow> gerr + (string, 'v coll) gomap" where
  "loadSnapshot s =
     (case s of
        Missing \<Rightarrow> Inr []
      | Corrupt \<Rightarrow> Inl (ErrText ''store: snapshot is corrupt'')
      | Snap ops \<Rightarrow> Inr (fold (\<lambda>(c, opr). apply_op c opr) ops []))"

definition recover :: "'v snapfile \<Rightarrow> 'v line list \<Rightarrow> gerr + 'v line list \<times> (string, 'v coll) gomap" where
  "recover s log = (case loadSnapshot s of Inl err \<Rightarrow> Inl err | Inr data \<Rightarrow> Inr (replayLog log data))"

definition OpenFile :: "int \<Rightarrow> 'v snapfile \<Rightarrow> 'v line list \<Rightarrow> gerr + 'v fstore" where
  "OpenFile compactAfter s log =
     (let compact = (if compactAfter = 0 then defaultCompactAfter else if compactAfter < 0 then 0 else compactAfter)
      in case recover s log of
           Inl err \<Rightarrow> Inl err
         | Inr (good, data) \<Rightarrow>
             Inr \<lparr>fl_disk = \<lparr>dk_log = good, dk_log_after = [log, good], dk_snap = s, dk_snap_after = [s],
                             dk_temp = Missing, dk_temp_synced = Missing\<rparr>,
                  fl_calls = 0, fl_history = [], fl_ops = 0, fl_compact_after = compact, fl_data = data,
                  fl_closed = False\<rparr>)"

section \<open>Without input or output errors\<close>

abbreviation all_ok :: "nat \<Rightarrow> io" where
  "all_ok \<equiv> \<lambda>_. IoOk"

definition mem_of :: "'v fstore \<Rightarrow> 'v mem" where
  "mem_of f = \<lparr>mm_closed = fl_closed f, mm_data = fl_data f\<rparr>"

lemma mem_of_simps [simp]: "mm_closed (mem_of f) = fl_closed f" "mm_data (mem_of f) = fl_data f"
  "mem_coll (mem_of f) c = data_coll (fl_data f) c"
  by (simp_all add: mem_of_def mem_coll_def data_coll_def)

definition called :: "(io \<Rightarrow> 'v disk \<Rightarrow> 'v disk) \<Rightarrow> 'v fstore \<Rightarrow> 'v fstore" where
  "called eff f = f\<lparr>fl_disk := eff IoOk (fl_disk f), fl_calls := fl_calls f + 1,
     fl_history := fl_history f @ [eff IoOk (fl_disk f)]\<rparr>"

lemma called_simps [simp]:
  "fl_disk (called eff f) = eff IoOk (fl_disk f)" "fl_history (called eff f) = fl_history f @ [eff IoOk (fl_disk f)]"
  "fl_ops (called eff f) = fl_ops f" "fl_compact_after (called eff f) = fl_compact_after f"
  "fl_data (called eff f) = fl_data f" "fl_closed (called eff f) = fl_closed f"
  by (simp_all add: called_def)

lemma syscall_ok: "syscall all_ok what eff f = (Inr (), called eff f)"
  by (simp add: syscall_def Let_def called_def)

lemma andThen_syscall_ok: "andThen (syscall all_ok what eff) g f = g () (called eff f)"
  by (simp add: andThen_def syscall_ok)

lemma compact_ok:
  obtains f' where "compact all_ok f = (Inr (), f')" "fl_data f' = fl_data f" "fl_closed f' = fl_closed f"
    "fl_compact_after f' = fl_compact_after f"
proof -
  have "\<exists>f'. compact all_ok f = (Inr (), f') \<and> fl_data f' = fl_data f \<and> fl_closed f' = fl_closed f \<and>
      fl_compact_after f' = fl_compact_after f"
    unfolding compact_def andThen_syscall_ok by simp
  with that show thesis by blast
qed

lemma maybeCompact_ok:
  obtains f' where "maybeCompact all_ok f = (Inr (), f')" "mem_of f' = mem_of f"
proof (cases "fl_compact_after f > 0 \<and> fl_ops f \<ge> fl_compact_after f")
  case True
  obtain f' where "compact all_ok f = (Inr (), f')" "fl_data f' = fl_data f" "fl_closed f' = fl_closed f"
    by (rule compact_ok)
  with True that [of f'] show thesis by (simp add: maybeCompact_def mem_of_def)
next
  case False
  then have "maybeCompact all_ok f = (Inr (), f)" by (auto simp: maybeCompact_def)
  then show thesis by (rule that) simp
qed

lemma append_apply_ok:
  obtains f' where "append_apply all_ok opr f = (Inr (), f')" "fl_data f' = apply_op (op_c opr) opr (fl_data f)"
    "fl_closed f' = fl_closed f"
  by (rule that [of "snd (append_apply all_ok opr f)"])
     (simp_all add: append_apply_def append_log_def andThen_def syscall_ok)

lemma mutate_ok:
  obtains f' where "mutate all_ok opr f = (Inr (), f')"
    "mem_of f' = \<lparr>mm_closed = fl_closed f, mm_data = apply_op (op_c opr) opr (fl_data f)\<rparr>"
proof -
  obtain f1 where f1: "append_apply all_ok opr f = (Inr (), f1)" "fl_data f1 = apply_op (op_c opr) opr (fl_data f)"
    "fl_closed f1 = fl_closed f" by (rule append_apply_ok)
  obtain f' where "maybeCompact all_ok f1 = (Inr (), f')" "mem_of f' = mem_of f1" by (rule maybeCompact_ok)
  with f1 that [of f'] show thesis by (simp add: mutate_def andThen_def mem_of_def)
qed

section \<open>The same store as the memory store\<close>

text \<open>Expiry times that nanoseconds of the Unix epoch in an \<^verbatim>\<open>int64\<close> can carry.\<close>

definition exp_ok :: "gotime \<Rightarrow> bool" where
  "exp_ok e \<longleftrightarrow> e = zero_time \<or> (int64 (e - unix_epoch) \<and> e \<noteq> unix_epoch)"

lemma nano_exp_nano: "exp_ok e \<Longrightarrow> nano_exp (exp_nano e) = e"
  by (auto simp: exp_ok_def nano_exp_def exp_nano_def unix_nano_def from_unix_nano_def wrap64_id)

lemma apply_put: "exp_ok e \<Longrightarrow>
  \<lparr>mm_closed = mm_closed m, mm_data = apply_op c (put_op c k v e) (mm_data m)\<rparr> = mem_put_entry c k v e m"
  by (cases m) (simp add: put_op_def mem_put_entry_def nano_exp_nano mem_coll_def data_coll_def)

lemma apply_delete:
  "\<lparr>mm_closed = mm_closed m, mm_data = apply_op c (OpDelete c k) (mm_data m)\<rparr> = mem_remove c k m"
  by (cases m) (simp add: mem_remove_def split: option.split)

lemma update_same: "map_of m c = Some es \<Longrightarrow> AList.update c es m = m"
  by (induction m) auto

lemma mem_remove_absent: "map_of (mem_coll m c) k = None \<Longrightarrow> mem_remove c k m = m"
  by (cases m) (auto simp: mem_remove_def mem_coll_def AList.delete_id map_of_eq_None_iff update_same split: option.splits)

definition drop_keys :: "(string \<times> string) set \<Rightarrow> (string, 'v coll) gomap \<Rightarrow> (string, 'v coll) gomap" where
  "drop_keys dead data = map (\<lambda>(c, es). (c, filter (\<lambda>(k, e). (c, k) \<notin> dead) es)) data"

lemma apply_delete_drop: "wf_map data \<Longrightarrow> apply_op c (OpDelete c k) data = drop_keys {(c, k)} data"
proof (induction data)
  case Nil
  then show ?case by (simp add: drop_keys_def)
next
  case (Cons x data)
  obtain c' es where x: "x = (c', es)" by fastforce
  have d: "AList.delete k es = filter (\<lambda>(k', e). k' \<noteq> k) es"
    by (auto simp: AList.delete_eq intro!: filter_cong)
  have none: "drop_keys {(c', k)} data = data"
    if "c' \<notin> fst ` set data" using that by (induction data) (auto simp: drop_keys_def)
  show ?case
  proof (cases "c' = c")
    case True
    then show ?thesis using Cons.prems x d none by (simp add: wf_map_def drop_keys_def)
  next
    case False
    have f: "filter (\<lambda>(k', e). c' = c \<longrightarrow> k' \<noteq> k) es = es" using False by (intro filter_True) auto
    have "apply_op c (OpDelete c k) (x # data) = x # apply_op c (OpDelete c k) data"
      using False x by (simp split: option.split)
    with f show ?thesis using Cons x by (simp add: wf_map_def drop_keys_def del: apply_op.simps)
  qed
qed

lemma drop_keys_wf [simp]: "wf_map data \<Longrightarrow> wf_map (drop_keys dead data)"
  by (simp add: drop_keys_def wf_map_def comp_def case_prod_beta)

lemma drop_keys_drop: "drop_keys dead (drop_keys dead' data) = drop_keys (dead \<union> dead') data"
  by (auto simp: drop_keys_def filter_filter case_prod_beta intro!: filter_cong)

lemma fold_delete_drop:
  "wf_map data \<Longrightarrow> fold (\<lambda>(c, k). apply_op c (OpDelete c k)) dead data = drop_keys (set dead) data"
proof (induction dead arbitrary: data)
  case Nil
  have "filter (\<lambda>(k, e). True) es = es" for es :: "'a coll" by (simp add: case_prod_beta)
  then show ?case by (simp add: drop_keys_def case_prod_beta)
next
  case (Cons x dead)
  then show ?case by (cases x) (simp add: apply_delete_drop drop_keys_drop del: apply_op.simps)
qed

lemma dead_refs_sweep:
  assumes "mem_ok (mem_of f)"
  shows "drop_keys (set (dead_refs now (fl_data f))) (fl_data f) =
      map (\<lambda>(c, es). (c, filter (\<lambda>(k, e). live (e_expires e) now) es)) (fl_data f)"
    and "length (dead_refs now (fl_data f)) = sum_list (map (dead_count now \<circ> snd) (fl_data f))"
proof -
  have wf: "wf_map (fl_data f)" "\<And>c es. (c, es) \<in> set (fl_data f) \<Longrightarrow> wf_map es"
    using assms by (auto simp: mem_ok_def)
  have dead: "(c, k) \<in> set (dead_refs now (fl_data f)) \<longleftrightarrow> \<not> live (e_expires e) now"
    if es: "(c, es) \<in> set (fl_data f)" and e: "(k, e) \<in> set es" for c k e es
  proof -
    have "es' = es" if "(c, es') \<in> set (fl_data f)" for es'
      using that es wf(1) by (auto simp: wf_map_def dest: eq_key_imp_eq_value)
    moreover have "e' = e" if "(k, e') \<in> set es" for e'
      using that e wf(2) [OF es] by (auto simp: wf_map_def dest: eq_key_imp_eq_value)
    moreover have "(c, k) \<in> set (dead_refs now (fl_data f)) \<longleftrightarrow>
        (\<exists>es' e'. (c, es') \<in> set (fl_data f) \<and> (k, e') \<in> set es' \<and> \<not> live (e_expires e') now)"
      unfolding dead_refs_def by (auto simp: image_iff split: prod.splits)
    ultimately show ?thesis using es e by metis
  qed
  show "drop_keys (set (dead_refs now (fl_data f))) (fl_data f) =
      map (\<lambda>(c, es). (c, filter (\<lambda>(k, e). live (e_expires e) now) es)) (fl_data f)"
    unfolding drop_keys_def by (rule map_cong [OF refl]) (auto simp: dead intro!: filter_cong)
  show "length (dead_refs now (fl_data f)) = sum_list (map (dead_count now \<circ> snd) (fl_data f))"
    by (simp add: dead_refs_def length_concat comp_def dead_count_def case_prod_beta)
qed

lemma for_each_deletes:
  "\<exists>f'. for_each (\<lambda>(c, k). append_apply all_ok (OpDelete c k)) dead f = (Inr (), f') \<and>
     fl_data f' = fold (\<lambda>(c, k). apply_op c (OpDelete c k)) dead (fl_data f) \<and> fl_closed f' = fl_closed f"
proof (induction dead arbitrary: f)
  case (Cons x dead)
  obtain c k where x: "x = (c, k)" by fastforce
  obtain f1 where f1: "append_apply all_ok (OpDelete c k) f = (Inr (), f1)"
    "fl_data f1 = apply_op c (OpDelete c k) (fl_data f)" "fl_closed f1 = fl_closed f"
    by (rule append_apply_ok [of "OpDelete c k" f]) (simp del: apply_op.simps)
  from Cons.IH [of f1] f1 show ?case by (simp add: x andThen_def del: apply_op.simps)
qed simp

lemma file_step:
  assumes ok: "mem_ok (mem_of f)" and e: "\<And>c k v e. call = CallPut c k v e \<Longrightarrow> exp_ok e"
  shows "fst (do_call (file_ops all_ok) now call f) = fst (do_call mem_ops now call (mem_of f)) \<and>
    mem_of (snd (do_call (file_ops all_ok) now call f)) = snd (do_call mem_ops now call (mem_of f))"
proof -
  have "\<not> mm_closed (mem_of f)" using ok by (rule mem_ok_open)
  then have cl: "\<not> fl_closed f" by simp
  have put: "mem_of f' = mem_put_entry c k v x (mem_of f)"
    if "mem_of f' = \<lparr>mm_closed = fl_closed f, mm_data = apply_op c (put_op c k v x) (fl_data f)\<rparr>" "exp_ok x" for f' c k v x
    using that apply_put [of x "mem_of f" c k v] by (simp del: apply_op.simps)
  have del: "mem_of f' = mem_remove c k (mem_of f)"
    if "mem_of f' = \<lparr>mm_closed = fl_closed f, mm_data = apply_op c (OpDelete c k) (fl_data f)\<rparr>" for f' c k
    using that apply_delete [of "mem_of f" c k] by (simp del: apply_op.simps)
  show ?thesis
  proof (cases call)
    case (CallGet c k)
    then show ?thesis
      by (auto simp: file_ops_def mem_ops_def file_get_def mem_get_def cl reply_of_def split: option.split)
  next
    case (CallPut c k v x)
    obtain f' where "mutate all_ok (put_op c k v x) f = (Inr (), f')"
      "mem_of f' = \<lparr>mm_closed = fl_closed f, mm_data = apply_op c (put_op c k v x) (fl_data f)\<rparr>"
      by (rule mutate_ok [of "put_op c k v x" f]) (simp add: put_op_def)
    with put [of f' c k v x] e [OF CallPut] CallPut show ?thesis
      by (simp add: file_ops_def mem_ops_def file_put_def mem_put_def cl reply_of_def)
  next
    case (CallDelete c k)
    obtain f' where "mutate all_ok (OpDelete c k) f = (Inr (), f')"
      "mem_of f' = \<lparr>mm_closed = fl_closed f, mm_data = apply_op c (OpDelete c k) (fl_data f)\<rparr>"
      by (rule mutate_ok [of "OpDelete c k" f]) (simp del: apply_op.simps)
    with del [of f' c k] mem_remove_absent [of "mem_of f" c k] CallDelete show ?thesis
      by (simp add: file_ops_def mem_ops_def file_delete_def mem_delete_def cl reply_of_def)
  next
    case (CallTake c k)
    obtain f' where "mutate all_ok (OpDelete c k) f = (Inr (), f')"
      "mem_of f' = \<lparr>mm_closed = fl_closed f, mm_data = apply_op c (OpDelete c k) (fl_data f)\<rparr>"
      by (rule mutate_ok [of "OpDelete c k" f]) (simp del: apply_op.simps)
    with del [of f' c k] CallTake show ?thesis
      by (simp add: file_ops_def mem_ops_def file_take_def mem_take_def cl reply_of_def andThen_def Let_def split: option.split)
  next
    case (CallList c n)
    then show ?thesis
      by (simp add: file_ops_def mem_ops_def file_list_def mem_list_def cl reply_of_def Let_def)
  next
    case CallSweep
    let ?dead = "dead_refs now (fl_data f)"
    obtain f1 where f1: "for_each (\<lambda>(c, k). append_apply all_ok (OpDelete c k)) ?dead f = (Inr (), f1)"
      "fl_data f1 = fold (\<lambda>(c, k). apply_op c (OpDelete c k)) ?dead (fl_data f)" "fl_closed f1 = fl_closed f"
      using for_each_deletes [of ?dead f] by blast
    obtain f' where f': "maybeCompact all_ok f1 = (Inr (), f')" "mem_of f' = mem_of f1" by (rule maybeCompact_ok)
    have "wf_map (fl_data f)" using ok by (simp add: mem_ok_def)
    then have "mem_of f1 = snd (mem_sweep now (mem_of f))"
      using f1(2,3) dead_refs_sweep(1) [OF ok, of now]
      by (simp add: mem_sweep_def cl fold_delete_drop mem_of_def)
    with CallSweep f1(1) f' show ?thesis
      by (simp add: file_ops_def mem_ops_def file_sweep_def cl reply_of_def andThen_def Let_def mem_sweep_def)
  qed
qed

section \<open>Recovery\<close>

definition lookup :: "(string, 'v coll) gomap \<Rightarrow> string \<Rightarrow> string \<Rightarrow> 'v entry option" where
  "lookup data c k = map_of (data_coll data c) k"

definition same_data :: "(string, 'v coll) gomap \<Rightarrow> (string, 'v coll) gomap \<Rightarrow> bool" where
  "same_data d d' \<longleftrightarrow> (\<forall>c k. lookup d c k = lookup d' c k)"

fun op_entry :: "'v fop \<Rightarrow> 'v entry option" where
  "op_entry (OpPut c k v e) = Some \<lparr>e_key = k, e_value = v, e_expires = nano_exp e\<rparr>"
| "op_entry (OpDelete c k) = None"

abbreviation apply1 :: "'v fop \<Rightarrow> (string, 'v coll) gomap \<Rightarrow> (string, 'v coll) gomap" where
  "apply1 opr \<equiv> apply_op (op_c opr) opr"

lemma lookup_apply:
  "lookup (apply1 opr data) c k =
     (if c = op_c opr \<and> k = op_k opr then op_entry opr else lookup data c k)"
  by (cases opr) (auto simp: lookup_def data_coll_def split: option.splits)

text \<open>The last operation on a key decides what is under it.\<close>

lemma lookup_fold:
  "lookup (fold apply1 ops data) c k =
     (case find (\<lambda>opr. op_c opr = c \<and> op_k opr = k) (rev ops) of
        None \<Rightarrow> lookup data c k | Some opr \<Rightarrow> op_entry opr)"
  by (induction ops rule: rev_induct) (auto simp: lookup_apply)

lemma same_data_refl [simp]: "same_data d d"
  by (simp add: same_data_def)

lemma same_data_trans: "same_data d d' \<Longrightarrow> same_data d' d'' \<Longrightarrow> same_data d d''"
  by (simp add: same_data_def)

lemma same_data_apply: "same_data d d' \<Longrightarrow> same_data (apply1 opr d) (apply1 opr d')"
  by (simp add: same_data_def lookup_apply)

lemma replay_twice: "same_data d' (fold apply1 ops d) \<Longrightarrow> same_data (fold apply1 ops d') d'"
  by (auto simp: same_data_def lookup_fold split: option.splits)

fun whole_ops :: "'v line list \<Rightarrow> 'v fop list" where
  "whole_ops [] = []" | "whole_ops (Torn # ls) = []" | "whole_ops (Whole opr # ls) = opr # whole_ops ls"

abbreviation all_whole :: "'v line list \<Rightarrow> bool" where
  "all_whole ls \<equiv> Torn \<notin> set ls"

lemma replayLog_ops: "snd (replayLog ls data) = fold apply1 (whole_ops ls) data"
  by (induction ls data rule: replayLog.induct) (auto simp: case_prod_beta)

lemma replayLog_good: "fst (replayLog ls data) = map Whole (whole_ops ls)"
  by (induction ls data rule: replayLog.induct) (auto simp: case_prod_beta)

lemma whole_ops_append:
  "all_whole ls \<Longrightarrow> whole_ops (ls @ ls') = whole_ops ls @ whole_ops ls'"
  by (induction ls rule: whole_ops.induct) auto

text \<open>What a snapshot of the live set restores.\<close>

definition normal :: "(string, 'v coll) gomap \<Rightarrow> bool" where
  "normal data \<longleftrightarrow> (\<forall>c k e. lookup data c k = Some e \<longrightarrow>
     e_key e = k \<and> nano_exp (exp_nano (e_expires e)) = e_expires e)"

lemma exp_nano_int64: "int64 (exp_nano e)"
  unfolding exp_nano_def unix_nano_def using wrap64_int64 [of "e - unix_epoch"] by (simp add: int64_def)

lemma exp_nano_stable: "nano_exp (exp_nano (nano_exp (exp_nano e))) = nano_exp (exp_nano e)"
proof (cases "exp_nano e = 0")
  case False
  let ?n = "exp_nano e"
  have "from_unix_nano ?n \<noteq> 0" using exp_nano_int64 [of e] by (simp add: int64_def from_unix_nano_def unix_epoch_def)
  then have "exp_nano (from_unix_nano ?n) = ?n"
    using unix_nano_from [OF exp_nano_int64, of e] by (simp add: exp_nano_def [of "from_unix_nano ?n"])
  with False show ?thesis by (simp add: nano_exp_def)
qed (simp add: nano_exp_def exp_nano_def)

lemma find_member: "find P xs = Some x \<Longrightarrow> x \<in> set xs \<and> P x"
  by (induction xs) (auto split: if_splits)

lemma snap_of_member:
  "x \<in> set (snap_of data) \<longleftrightarrow>
     (\<exists>c es k e. (c, es) \<in> set data \<and> (k, e) \<in> set es \<and> x = (c, OpPut c k (e_value e) (exp_nano (e_expires e))))"
proof
  assume "x \<in> set (snap_of data)"
  then show "\<exists>c es k e. (c, es) \<in> set data \<and> (k, e) \<in> set es \<and> x = (c, OpPut c k (e_value e) (exp_nano (e_expires e)))"
    unfolding snap_of_def put_op_def by auto
next
  assume "\<exists>c es k e. (c, es) \<in> set data \<and> (k, e) \<in> set es \<and> x = (c, OpPut c k (e_value e) (exp_nano (e_expires e)))"
  then obtain c es k e where "(c, es) \<in> set data" "(k, e) \<in> set es"
    "x = (c, OpPut c k (e_value e) (exp_nano (e_expires e)))" by blast
  then show "x \<in> set (snap_of data)"
  proof -
    assume a: "(c, es) \<in> set data" "(k, e) \<in> set es" "x = (c, OpPut c k (e_value e) (exp_nano (e_expires e)))"
    have "x \<in> set (map (\<lambda>(k, e). (c, put_op c k (e_value e) (e_expires e))) es)"
      unfolding set_map by (rule image_eqI [OF _ a(2)]) (simp add: a(3) put_op_def)
    moreover have "map (\<lambda>(k, e). (c, put_op c k (e_value e) (e_expires e))) es \<in>
        set (map (\<lambda>(c, es). map (\<lambda>(k, e). (c, put_op c k (e_value e) (e_expires e))) es) data)"
      unfolding set_map by (rule image_eqI [OF _ a(1)]) simp
    ultimately show ?thesis unfolding snap_of_def set_concat by blast
  qed
qed

lemma snap_restores:
  assumes ok: "wf_map data" "\<And>c es. (c, es) \<in> set data \<Longrightarrow> wf_map es" and n: "normal data"
  shows "same_data (fold apply1 (map snd (snap_of data)) []) data"
  unfolding same_data_def
proof (intro allI)
  fix c k
  let ?ops = "map snd (snap_of data)" and ?P = "\<lambda>opr. op_c opr = c \<and> op_k opr = k"
  have mem: "opr \<in> set ?ops \<and> ?P opr \<longleftrightarrow>
      (\<exists>e. lookup data c k = Some e \<and> opr = OpPut c k (e_value e) (exp_nano (e_expires e)))" for opr
  proof -
    have "lookup data c k = Some e \<longleftrightarrow> (\<exists>es. (c, es) \<in> set data \<and> (k, e) \<in> set es)" for e
    proof
      assume "lookup data c k = Some e"
      then show "\<exists>es. (c, es) \<in> set data \<and> (k, e) \<in> set es"
        by (auto simp: lookup_def data_coll_def dest!: map_of_SomeD split: option.splits)
    next
      assume "\<exists>es. (c, es) \<in> set data \<and> (k, e) \<in> set es"
      then obtain es where es: "(c, es) \<in> set data" "(k, e) \<in> set es" by blast
      then have "map_of data c = Some es" "map_of es k = Some e"
        using ok by (auto simp: wf_map_def)
      then show "lookup data c k = Some e" by (simp add: lookup_def data_coll_def)
    qed
    moreover have "opr \<in> set ?ops \<and> ?P opr \<longleftrightarrow>
        (\<exists>es e. (c, es) \<in> set data \<and> (k, e) \<in> set es \<and> opr = OpPut c k (e_value e) (exp_nano (e_expires e)))"
    proof -
      have "opr \<in> set ?ops \<longleftrightarrow> (\<exists>c'. (c', opr) \<in> set (snap_of data))" by force
      then show ?thesis unfolding snap_of_member by fastforce
    qed
    ultimately show ?thesis by metis
  qed
  show "lookup (fold apply1 ?ops []) c k = lookup data c k"
  proof (cases "find ?P (rev ?ops)")
    case None
    then have "\<nexists>opr. opr \<in> set ?ops \<and> ?P opr" by (auto simp: find_None_iff)
    with mem have "lookup data c k = None" by (metis option.exhaust)
    moreover have "lookup [] c k = None" by (simp add: lookup_def data_coll_def)
    ultimately show ?thesis using None by (simp add: lookup_fold)
  next
    case (Some opr)
    then have "opr \<in> set ?ops \<and> ?P opr" using find_member [of ?P "rev ?ops" opr] by auto
    with mem obtain e where e: "lookup data c k = Some e" "opr = OpPut c k (e_value e) (exp_nano (e_expires e))" by blast
    with n have "e_key e = k \<and> nano_exp (exp_nano (e_expires e)) = e_expires e" unfolding normal_def by blast
    with Some e show ?thesis by (simp add: lookup_fold)
  qed
qed

lemma loadSnapshot_snap: "loadSnapshot (Snap (snap_of data)) = Inr (fold apply1 (map snd (snap_of data)) [])"
proof -
  have "\<forall>x \<in> set (snap_of data). fst x = op_c (snd x)" by (auto simp: snap_of_member)
  then have "fold (\<lambda>(c, opr). apply_op c opr) xs d = fold apply1 (map snd xs) d"
    if "set xs \<subseteq> set (snap_of data)" for xs d
    using that by (induction xs arbitrary: d) auto
  then show ?thesis by (simp add: loadSnapshot_def)
qed

section \<open>Crashes\<close>

text \<open>\<open>restores s log data\<close>: a store opened on these files has this live set.\<close>

definition restores :: "'v snapfile \<Rightarrow> 'v line list \<Rightarrow> (string, 'v coll) gomap \<Rightarrow> bool" where
  "restores s log data \<longleftrightarrow> (\<exists>good data'. recover s log = Inr (good, data') \<and> same_data data' data)"

text \<open>Whatever a crash leaves of a disk restores one of the given live sets.\<close>

definition survives :: "'v disk \<Rightarrow> (string, 'v coll) gomap set \<Rightarrow> bool" where
  "survives d datas \<longleftrightarrow>
     (\<forall>s \<in> set (dk_snap_after d). \<forall>log \<in> set (dk_log_after d). \<exists>data \<in> datas. restores s log data)"

text \<open>
  A store that has met no input or output error: a crash now would restore its live set, the log
  has no torn line, and the live set is well formed.
\<close>

definition intact :: "'v fstore \<Rightarrow> bool" where
  "intact f \<longleftrightarrow> mem_ok (mem_of f) \<and> normal (fl_data f) \<and> survives (fl_disk f) {fl_data f} \<and>
     all_whole (dk_log (fl_disk f)) \<and> dk_log (fl_disk f) \<in> set (dk_log_after (fl_disk f)) \<and>
     dk_snap_after (fl_disk f) \<noteq> []"

lemma restores_iff:
  "restores s log data \<longleftrightarrow>
     (\<exists>base. loadSnapshot s = Inr base \<and> same_data (fold apply1 (whole_ops log) base) data)"
proof -
  have "(\<exists>good data'. replayLog log base = (good, data') \<and> same_data data' data) \<longleftrightarrow>
      same_data (snd (replayLog log base)) data" for base by (cases "replayLog log base") simp
  then show ?thesis by (cases "loadSnapshot s") (simp_all add: restores_def recover_def replayLog_ops)
qed

lemma restores_torn: "all_whole log \<Longrightarrow> restores s (log @ [Torn]) data \<longleftrightarrow> restores s log data"
  by (simp add: restores_iff whole_ops_append)

lemma restores_append:
  "all_whole log \<Longrightarrow> restores s log data \<Longrightarrow> restores s (log @ [Whole opr]) (apply1 opr data)"
  by (auto simp: restores_iff whole_ops_append intro: same_data_apply)

lemma restores_snap:
  assumes "wf_map data" "\<And>c es. (c, es) \<in> set data \<Longrightarrow> wf_map es" "normal data" "restores s log data"
  shows "restores (Snap (snap_of data)) log data" "restores (Snap (snap_of data)) [] data"
proof -
  let ?new = "fold apply1 (map snd (snap_of data)) []"
  have new: "loadSnapshot (Snap (snap_of data)) = Inr ?new" "same_data ?new data"
    by (rule loadSnapshot_snap, rule snap_restores [OF assms(1-3)])
  from assms(4) obtain base where "same_data (fold apply1 (whole_ops log) base) data" by (auto simp: restores_iff)
  with new(2) have "same_data ?new (fold apply1 (whole_ops log) base)" by (simp add: same_data_def)
  then have "same_data (fold apply1 (whole_ops log) ?new) ?new" by (rule replay_twice)
  with new show "restores (Snap (snap_of data)) log data" "restores (Snap (snap_of data)) [] data"
    by (auto simp: restores_iff intro: same_data_trans)
qed

lemma normal_apply:
  assumes "normal data" "opr = put_op c k v e \<or> opr = OpDelete c k"
  shows "normal (apply1 opr data)"
  unfolding normal_def lookup_apply
  using assms by (auto simp: normal_def put_op_def exp_nano_stable split: if_splits)

lemma mem_ok_apply: "mem_ok m \<Longrightarrow> mem_ok (m\<lparr>mm_data := apply1 opr (mm_data m)\<rparr>)"
proof (cases opr)
  case (OpPut c k v e)
  assume ok: "mem_ok m"
  then have "wf_map (data_coll (mm_data m) c)" using mem_ok_coll [of m c] by (simp add: mem_coll_def data_coll_def)
  with ok OpPut show ?thesis by (simp add: mem_ok_replace)
next
  case (OpDelete c k)
  assume ok: "mem_ok m"
  show ?thesis
  proof (cases "map_of (mm_data m) c")
    case None
    with ok OpDelete show ?thesis by simp
  next
    case (Some es)
    then have "wf_map (AList.delete k es)" using ok mem_ok_coll [of m c] by (simp add: mem_coll_def)
    from mem_ok_replace [OF ok this, of c] OpDelete Some show ?thesis by simp
  qed
qed

text \<open>The append and the sync of one operation.\<close>

lemma append_apply_intact:
  assumes f: "intact f" and opr: "opr = put_op c k v e \<or> opr = OpDelete c k"
  obtains f' ds where "append_apply all_ok opr f = (Inr (), f')" "intact f'" "fl_history f' = fl_history f @ ds"
    "\<forall>d \<in> set ds. survives d {fl_data f, apply1 opr (fl_data f)}" "fl_data f' = apply1 opr (fl_data f)"
    "fl_closed f' = fl_closed f" "fl_compact_after f' = fl_compact_after f"
proof -
  let ?d = "fl_disk f" and ?data = "apply1 opr (fl_data f)"
  let ?w = "do_write_log opr IoOk ?d"
  let ?s = "do_sync_log IoOk ?w"
  let ?f = "(called do_sync_log (called (do_write_log opr) f))\<lparr>fl_ops := fl_ops f + 1, fl_data := ?data\<rparr>"
  have log: "all_whole (dk_log ?d)" "dk_log ?d \<in> set (dk_log_after ?d)" and sv: "survives ?d {fl_data f}"
    using f by (auto simp: intact_def)
  have pre: "restores s l (fl_data f)" if "s \<in> set (dk_snap_after ?d)" "l \<in> set (dk_log_after ?d)" for s l
    using sv that by (auto simp: survives_def)
  have post: "restores s (dk_log ?d @ [Whole opr]) ?data" if "s \<in> set (dk_snap_after ?d)" for s
    by (rule restores_append [OF log(1) pre [OF that log(2)]])
  have w: "survives ?w {fl_data f, ?data}"
    using pre post log by (auto simp: survives_def do_write_log_def restores_torn)
  have s: "survives ?s {?data}" using post by (simp add: survives_def do_sync_log_def do_write_log_def)
  then have s': "survives ?s {fl_data f, ?data}" by (auto simp: survives_def)
  have "mem_ok (mem_of ?f)" "normal ?data"
    using f mem_ok_apply [of "mem_of f" opr] normal_apply [OF _ opr, of "fl_data f"]
    by (simp_all add: intact_def mem_of_def)
  then have "intact ?f"
    using s log f by (simp add: intact_def do_sync_log_def do_write_log_def)
  moreover have "append_apply all_ok opr f = (Inr (), ?f)"
    by (simp add: append_apply_def append_log_def andThen_def syscall_ok)
  ultimately show thesis using w s' by (intro that [of ?f "[?w, ?s]"]) simp_all
qed

text \<open>A compaction, call by call: the snapshot is complete on disk before the rename can show it.\<close>

lemma compact_intact:
  assumes f: "intact f"
  obtains f' ds where "compact all_ok f = (Inr (), f')" "intact f'" "fl_history f' = fl_history f @ ds"
    "\<forall>d \<in> set ds. survives d {fl_data f}" "fl_data f' = fl_data f"
proof -
  let ?new = "Snap (snap_of (fl_data f))" and ?data = "fl_data f" and ?d = "fl_disk f"
  let ?d1 = "do_open_temp IoOk ?d"
  let ?d2 = "do_write_temp (snap_of ?data) IoOk ?d1"
  let ?d3 = "do_sync_temp IoOk ?d2"
  let ?d5 = "do_rename IoOk ?d3"
  let ?d7 = "do_sync_dir IoOk ?d5"
  let ?d8 = "do_truncate_log IoOk ?d7"
  let ?d10 = "do_sync_log IoOk ?d8"
  have wf: "wf_map ?data" "\<And>c es. (c, es) \<in> set ?data \<Longrightarrow> wf_map es" "normal ?data" and
    log: "all_whole (dk_log ?d)" "dk_log ?d \<in> set (dk_log_after ?d)" and ne: "dk_snap_after ?d \<noteq> []"
    and sv: "survives ?d {?data}"
    using f by (auto simp: intact_def mem_ok_def)
  have old: "restores s l ?data" if "s \<in> set (dk_snap_after ?d)" "l \<in> set (dk_log_after ?d)" for s l
    using sv that by (auto simp: survives_def)
  obtain s0 where s0: "s0 \<in> set (dk_snap_after ?d)" using ne by (cases "dk_snap_after ?d") auto
  have new: "restores ?new l ?data" if "l \<in> set (dk_log_after ?d)" for l
    by (rule restores_snap(1) [OF wf old [OF s0 that]])
  have empty: "restores ?new [] ?data" by (rule restores_snap(2) [OF wf old [OF s0 log(2)]])
  note effs = do_open_temp_def do_write_temp_def do_sync_temp_def
  have early: "survives ?d1 {?data}" "survives ?d2 {?data}" "survives ?d3 {?data}"
    using sv by (simp_all add: survives_def effs)
  have d3: "dk_snap_after ?d3 = dk_snap_after ?d" "dk_log_after ?d3 = dk_log_after ?d" "dk_temp_synced ?d3 = ?new"
    by (simp_all add: effs)
  have d5: "dk_snap_after ?d5 = dk_snap_after ?d @ [?new]" "dk_log_after ?d5 = dk_log_after ?d"
    by (simp_all add: do_rename_def d3)
  have d7: "dk_snap_after ?d7 = [?new]" "dk_log_after ?d7 = dk_log_after ?d"
    by (simp_all add: do_sync_dir_def d5)
  have d8: "dk_snap_after ?d8 = [?new]" "dk_log_after ?d8 = dk_log_after ?d @ [[]]" "dk_log ?d8 = []"
    by (simp_all add: do_truncate_log_def d7)
  have d10: "dk_snap_after ?d10 = [?new]" "dk_log_after ?d10 = [[]]" "dk_log ?d10 = []"
    by (simp_all add: do_sync_log_def d8)
  have late: "survives ?d5 {?data}" "survives ?d7 {?data}" "survives ?d8 {?data}" "survives ?d10 {?data}"
    using old new empty by (auto simp: survives_def d5 d7 d8 d10)
  let ?f = "(called do_sync_log (called do_nothing (called do_truncate_log (called do_sync_dir (called do_nothing
     (called do_rename (called do_nothing (called do_sync_temp (called (do_write_temp (snap_of ?data))
     (called do_open_temp f))))))))))\<lparr>fl_ops := 0\<rparr>"
  have c: "compact all_ok f = (Inr (), ?f)" unfolding compact_def andThen_syscall_ok ..
  have fields: "fl_disk ?f = ?d10" "fl_data ?f = ?data" "fl_closed ?f = fl_closed f" by simp_all
  have i: "intact ?f"
    using f late(4) by (simp only: intact_def fields mem_of_def d10) simp
  have h: "fl_history ?f = fl_history f @ [?d1, ?d2, ?d3, ?d3, ?d5, ?d5, ?d7, ?d8, ?d8, ?d10]" by simp
  show thesis by (rule that [OF c i h _ fields(2)]) (use early late in auto)
qed

lemma mutate_intact:
  assumes f: "intact f" and opr: "opr = put_op c k v e \<or> opr = OpDelete c k"
  obtains f' ds where "mutate all_ok opr f = (Inr (), f')" "intact f'" "fl_history f' = fl_history f @ ds"
    "\<forall>d \<in> set ds. survives d {fl_data f, apply1 opr (fl_data f)}" "fl_data f' = apply1 opr (fl_data f)"
proof -
  obtain f1 ds where f1: "append_apply all_ok opr f = (Inr (), f1)" "intact f1" "fl_history f1 = fl_history f @ ds"
    "\<forall>d \<in> set ds. survives d {fl_data f, apply1 opr (fl_data f)}" "fl_data f1 = apply1 opr (fl_data f)"
    by (rule append_apply_intact [OF f opr])
  show thesis
  proof (cases "fl_compact_after f1 > 0 \<and> fl_ops f1 \<ge> fl_compact_after f1")
    case True
    obtain f' ds' where f': "compact all_ok f1 = (Inr (), f')" "intact f'" "fl_history f' = fl_history f1 @ ds'"
      "\<forall>d \<in> set ds'. survives d {fl_data f1}" "fl_data f' = fl_data f1" by (rule compact_intact [OF f1(2)])
    have "\<forall>d \<in> set ds'. survives d {fl_data f, apply1 opr (fl_data f)}"
      using f'(4) by (auto simp: f1(5) survives_def)
    moreover have "mutate all_ok opr f = (Inr (), f')"
      using True f1(1) f'(1) by (simp add: mutate_def andThen_def maybeCompact_def)
    ultimately show thesis using f' f1 by (intro that [of f' "ds @ ds'"]) auto
  next
    case False
    then have "mutate all_ok opr f = (Inr (), f1)"
      using f1(1) by (auto simp: mutate_def andThen_def maybeCompact_def)
    with f1 show thesis by (intro that [of f1 ds])
  qed
qed

lemma mem_ok_fold: "mem_ok m \<Longrightarrow> mem_ok (m\<lparr>mm_data := fold apply1 ops (mm_data m)\<rparr>)"
proof (induction ops arbitrary: m)
  case (Cons opr ops)
  from Cons.IH [OF mem_ok_apply [OF Cons.prems, of opr]] show ?case by simp
qed simp

lemma loadSnapshot_ok: "loadSnapshot s = Inr data \<Longrightarrow> mem_ok \<lparr>mm_closed = False, mm_data = data\<rparr>"
proof (cases s)
  case (Snap ops)
  assume "loadSnapshot s = Inr data"
  with Snap have d: "data = fold (\<lambda>(c, opr). apply_op c opr) ops []" by (simp add: loadSnapshot_def)
  have "mem_ok (m\<lparr>mm_data := fold (\<lambda>(c, opr). apply_op c opr) ops (mm_data m)\<rparr>)" if "mem_ok m" for m :: "'a mem"
    using that
  proof (induction ops arbitrary: m)
    case (Cons x ops)
    obtain c opr where x: "x = (c, opr)" by fastforce
    have "mem_ok (m\<lparr>mm_data := apply_op c opr (mm_data m)\<rparr>)"
      using mem_ok_apply [OF Cons.prems, of "case opr of OpPut _ k v e \<Rightarrow> OpPut c k v e | OpDelete _ k \<Rightarrow> OpDelete c k"]
      by (cases opr) simp_all
    from Cons.IH [OF this] x show ?case by simp
  qed simp
  from this [of NewMem] d show ?thesis by (simp add: NewMem_def mem_ok_def)
qed (simp_all add: loadSnapshot_def mem_ok_def)

text \<open>A store opened on files that restore a live set is intact and has that live set.\<close>

lemma open_intact:
  assumes r: "restores s log data" and n: "normal data"
  obtains g where "OpenFile compactAfter s log = Inr g" "intact g" "same_data (fl_data g) data"
proof -
  from r obtain base where b: "loadSnapshot s = Inr base" "same_data (fold apply1 (whole_ops log) base) data"
    by (auto simp: restores_iff)
  let ?data = "fold apply1 (whole_ops log) base" and ?good = "map Whole (whole_ops log)"
  have rc: "recover s log = Inr (?good, ?data)"
    unfolding recover_def b(1) by (simp add: replayLog_ops [symmetric] replayLog_good [symmetric, of log base])
  have wo: "whole_ops ?good = whole_ops log" by (induction log rule: whole_ops.induct) auto
  have m: "mem_ok \<lparr>mm_closed = False, mm_data = ?data\<rparr>"
    using mem_ok_fold [OF loadSnapshot_ok [OF b(1)], of "whole_ops log"] by simp
  have "normal ?data" using n b(2) by (simp add: normal_def same_data_def)
  moreover have "restores s log ?data" "restores s ?good ?data" using b(1) wo by (auto simp: restores_iff)
  moreover have "all_whole ?good" by auto
  ultimately show thesis
    using rc m b(2) by (intro that) (auto simp: OpenFile_def Let_def intact_def survives_def mem_of_def)
qed

section \<open>Properties\<close>



lemma open_empty:
  obtains g :: "'v fstore" where "OpenFile n Missing [] = Inr g" "intact g"
proof -
  have "restores Missing [] []" "normal []"
    by (simp_all add: restores_iff loadSnapshot_def normal_def lookup_def data_coll_def)
  then show thesis using open_intact [of Missing "[]" "[]" n] that by metis
qed


text \<open>Every call but a sweep that changes the store is one mutation.\<close>

lemma mutation_of:
  assumes "do_call (file_ops all_ok) now call f = (r, f')" "call \<noteq> CallSweep" "f' \<noteq> f" "\<not> fl_closed f"
  shows "\<exists>c k v e opr. (opr = put_op c k v e \<or> opr = OpDelete c k) \<and> mutate all_ok opr f = (Inr (), f')"
proof -
  have m: "snd (mutate all_ok opr f) = f' \<Longrightarrow> mutate all_ok opr f = (Inr (), f')" for opr
    by (rule mutate_ok [of opr f]) simp
  have t: "snd (andThen (mutate all_ok opr) (\<lambda>_. ret x) f) = snd (mutate all_ok opr f)" for opr and x :: "'a option"
    by (rule mutate_ok [of opr f]) (simp add: andThen_def)
  have r: "snd (reply_of g x) = snd x" for g :: "'b \<Rightarrow> 'a reply" and x :: "(gerr + 'b) \<times> 'a fstore"
    by (simp add: reply_of_def split: prod.split sum.split)
  have f': "f' = snd (do_call (file_ops all_ok) now call f)" using assms(1) by simp
  show ?thesis
  proof (cases call)
    case (CallPut c k v e)
    with f' assms(4) have "snd (mutate all_ok (put_op c k v e) f) = f'"
      by (simp add: file_ops_def r file_put_def)
    with m show ?thesis by blast
  next
    case (CallDelete c k)
    with f' assms(3,4) have "snd (mutate all_ok (OpDelete c k) f) = f'"
      by (simp add: file_ops_def r file_delete_def split: if_splits)
    with m show ?thesis by blast
  next
    case (CallTake c k)
    with f' assms(3,4) have "snd (mutate all_ok (OpDelete c k) f) = f'"
      by (auto simp: file_ops_def r file_take_def t split: option.splits)
    with m show ?thesis by blast
  qed (use f' assms in \<open>auto simp: file_ops_def r file_get_def file_list_def Let_def split: option.splits if_splits\<close>)
qed




text \<open>
  After an append that wrote only part of its line, the next append succeeds and is acknowledged,
  but its line stands behind the torn one, where opening the store does not read it: the
  acknowledged write is lost on the next start.
\<close>

definition short_write :: "nat \<Rightarrow> io" where
  "short_write n = (if n = 0 then IoShort else IoOk)"

theorem write_after_torn_append_lost:
  assumes "OpenFile (- 1) Missing [] = Inr f"
  shows "case file_put short_write now ''links'' ''a'' v 0 f of (r1, f1) \<Rightarrow>
    case file_put short_write now ''links'' ''b'' v 0 f1 of (r2, f2) \<Rightarrow>
      r1 = Inl (ErrText ''store: append'') \<and> r2 = Inr () \<and>
      recover (dk_snap (fl_disk f2)) (dk_log (fl_disk f2)) = Inr ([], [])"
proof -
  from assms have f: "f = \<lparr>fl_disk = \<lparr>dk_log = [], dk_log_after = [[], []], dk_snap = Missing, dk_snap_after = [Missing],
      dk_temp = Missing, dk_temp_synced = Missing\<rparr>, fl_calls = 0, fl_history = [], fl_ops = 0, fl_compact_after = 0,
      fl_data = [], fl_closed = False\<rparr>"
    by (simp add: OpenFile_def recover_def loadSnapshot_def)
  show ?thesis
    by (simp add: f file_put_def mutate_def append_apply_def append_log_def andThen_def syscall_def Let_def short_write_def
        do_write_log_def do_sync_log_def maybeCompact_def recover_def loadSnapshot_def put_op_def)
qed

end
