(* ===== verification/Plan_Fakes.thy ===== *)
theory Plan_Fakes
  imports Dry_Run File_Store Fake_Contract
begin

text \<open>
  What the contracts of \<open>Store_Access\<close> and \<open>Dry_Run\<close> give for the stores and the connector of the
  repository: the memory store and the file store are left as they are by reads, a run over the
  memory store keeps its invariant, and a plan over the file store and fakes without faults leaves
  the state directory, and everything of the fakes but their call counters, as it was.
\<close>

section \<open>The stores\<close>

interpretation mem_base: base_read mem_ops st
  by unfold_locales (simp_all add: mem_ops_def mem_get_def mem_list_def split: option.split)

interpretation file_base: base_read "file_ops io" st
  by unfold_locales (simp_all add: file_ops_def file_get_def file_list_def Let_def split: option.split)

interpretation mem_kept: store_kept mem_ops mem_ok
  by unfold_locales
    (auto simp: keeps_def mem_ops_def mem_get_def mem_list_def mem_put_def mem_delete_def mem_take_def Let_def split: option.split)

interpretation mem_engine: engine_kept "env\<lparr>pe_store := mem_ops\<rparr>" mem_ok
  by (rule engine_kept.intro) (simp add: mem_kept.store_kept_axioms)

section \<open>The fakes\<close>

lemma counted_snd:
  assumes "calm f"
  shows "counted f (snd (fake_Get lib kind rid f))" "counted f (snd (fake_ListChanged lib kind since cursor f))"
    "counted f (snd (fake_Describe lib kind f))"
proof -
  obtain g where g: "gate lib ''get'' f = (Inr (), g)" "counted f g" by (rule gate_calm [OF assms])
  then have "snd (fake_Get lib kind rid f) = g" by (simp add: fake_Get_def andThen_def Let_def split: option.split)
  with g show "counted f (snd (fake_Get lib kind rid f))" by simp
  obtain g where g: "gate lib ''list'' f = (Inr (), g)" "counted f g" by (rule gate_calm [OF assms])
  then have "snd (fake_ListChanged lib kind since cursor f) = g"
    by (simp add: fake_ListChanged_def andThen_def Let_def split: option.split)
  with g show "counted f (snd (fake_ListChanged lib kind since cursor f))" by simp
  obtain g where g: "gate lib ''describe'' f = (Inr (), g)" "counted f g" by (rule gate_calm [OF assms])
  let ?h = "g\<lparr>fk_describe_seen := fk_describe_seen g + 1\<rparr>"
  have "maybeRename ?h = ?h" using assms counted_same(3) [OF g(2)] by (simp add: maybeRename_def calm_def Let_def)
  with g have "snd (fake_Describe lib kind f) = ?h" by (simp add: fake_Describe_def andThen_def Let_def split: option.split)
  moreover have "counted g ?h" by (simp add: counted_def)
  ultimately show "counted f (snd (fake_Describe lib kind f))" using counted_trans [OF g(2)] by simp
qed

lemma counted_calm: "calm f \<Longrightarrow> counted f f' \<Longrightarrow> calm f'"
  by (simp add: calm_def counted_same)

definition calls_only :: "(string \<Rightarrow> fake) \<Rightarrow> (string \<Rightarrow> fake) \<Rightarrow> bool" where
  "calls_only w0 w \<longleftrightarrow> (\<forall>n. calm (w n) \<and> counted (w0 n) (w n))"

lemma calls_only_on:
  assumes "\<And>f. calm f \<Longrightarrow> counted f (snd (m f))" "calls_only w0 w"
  shows "calls_only w0 (snd (on_fake n (under_ctx cancelled m) w))"
proof -
  have w: "calm (w k)" "counted (w0 k) (w k)" for k using assms(2) by (simp_all add: calls_only_def)
  have "counted (w n) (snd (under_ctx cancelled m (w n)))" using assms(1) [OF w(1)] by (simp add: under_ctx_def)
  then show ?thesis
    using w counted_calm [OF w(1)] counted_trans [OF w(2)] by (simp add: calls_only_def on_fake_def case_prod_beta)
qed

lemma fake_list_call [simp]:
  "co_list (fake_ops lib caps c) n now kind since cursor = on_fake n (under_ctx c (fake_ListChanged lib kind since cursor))"
  by (simp add: fake_ops_def)

interpretation fakes_read: peers_read "env\<lparr>pe_conn := fake_ops lib caps cancelled\<rparr>" "calls_only w0"
  by unfold_locales (simp_all add: calls_only_on counted_snd)


section \<open>A plan of the repository's own parts\<close>

text \<open>
  C29: A plan over the file store and fakes without faults changes nothing. However it goes, the
  durable store is the same down to its files, nothing was appended or renamed on the way, and of
  each fake only the counters of its read calls have moved: no record, no delivery, no idempotency
  key and no identifier.
\<close>

theorem plan_leaves_fakes_alone:
  fixes opts :: "(doc fstore, string \<Rightarrow> fake) options"
  assumes "Plan rnd sel opts = Some (res, Some r)" and "ot_store opts = Some (file_ops io, st)"
    and "ot_conn opts = fake_ops lib caps cancelled" and "\<And>n. calm (ot_world opts n)"
  shows "ov_base (en_store (rt_eng r)) = st \<and> (\<forall>n. counted (ot_world opts n) (en_world (rt_eng r) n))"
proof -
  have "calls_only (ot_world opts) (ot_world opts)" using assms(4) by (simp add: calls_only_def)
  from plan_keeps [where Q = "calls_only (ot_world opts)", OF assms(1,2) file_base.get_reads file_base.list_reads this]
  have "ov_base (en_store (rt_eng r)) = st \<and> calls_only (ot_world opts) (en_world (rt_eng r))"
    using fakes_read.get_keeps fakes_read.list_keeps fakes_read.describe_keeps by (simp add: assms(3))
  then show ?thesis by (simp add: calls_only_def)
qed

definition seeded :: "string \<Rightarrow> fake" where
  "seeded n =
     (fake_New n (co_caps example_conn n) ''''
            [(''contact'', \<lparr>sc_kind = ''contact'', sc_fields =
               map (\<lambda>x. \<lparr>sf_name = x, sf_type = ''string'', sf_read_only = False, sf_required = False\<rparr>) [''email'', ''mail'']\<rparr>)] no_faults)"

definition empty_dir :: "doc fstore" where
  "empty_dir = (case OpenFile 0 Missing [] of Inr f \<Rightarrow> f
     | Inl _ \<Rightarrow> \<lparr>fl_disk = \<lparr>dk_log = [], dk_log_after = [], dk_snap = Missing, dk_snap_after = [], dk_temp = Missing, dk_temp_synced = Missing\<rparr>,
                fl_calls = 0, fl_history = [], fl_ops = 0, fl_compact_after = 0, fl_data = [], fl_closed = True\<rparr>)"

definition fake_options :: "(doc fstore, string \<Rightarrow> fake) options" where
  "fake_options =
     \<lparr>ot_config = Some example_cfg, ot_store = Some (file_ops (\<lambda>_. IoOk), empty_dir), ot_connectors = [''hub'', ''sales''],
      ot_conn = fake_ops example_lib0 (co_caps example_conn) False, ot_world = seeded, ot_now = unix_epoch, ot_hash = (\<lambda>x. x),
      ot_dry_run = False, ot_cancelled = False\<rparr>"

lemma planned_cases2:
  assumes "case p of Some (Inr x, Some r) \<Rightarrow> P x r | _ \<Rightarrow> False"
  obtains x r where "p = Some (Inr x, Some r)" "P x r"
proof (cases p)
  case (Some y)
  with assms that show ?thesis by (cases y; cases "fst y"; cases "snd y") auto
qed (use assms in simp)

theorem plan_leaves_fakes_alone_witness:
  "\<exists>rep r. Plan (\<lambda>_ _. 0) (\<lambda>_ _. True) fake_options = Some (Inr rep, Some r) \<and> pp_changes rep = [] \<and>
     Calls ''list'' (en_world (rt_eng r) ''hub'') = 1 \<and> ov_base (en_store (rt_eng r)) = empty_dir \<and>
     (\<forall>n. counted (seeded n) (en_world (rt_eng r) n))"
proof -
  have "case Plan (\<lambda>_ _. 0) (\<lambda>_ _. True) fake_options of
      Some (Inr rep, Some r) \<Rightarrow> pp_changes rep = [] \<and> Calls ''list'' (en_world (rt_eng r) ''hub'') = 1 | _ \<Rightarrow> False"
    by code_simp
  then obtain rep r where p: "Plan (\<lambda>_ _. 0) (\<lambda>_ _. True) fake_options = Some (Inr rep, Some r)"
    and a: "pp_changes rep = [] \<and> Calls ''list'' (en_world (rt_eng r) ''hub'') = 1" by (rule planned_cases2)
  have calm: "calm (ot_world fake_options n)" for n
    by (simp add: fake_options_def seeded_def calm_def Let_def fake_New_def no_faults_def)
  have "ot_store fake_options = Some (file_ops (\<lambda>_. IoOk), empty_dir)"
    and "ot_conn fake_options = fake_ops example_lib0 (co_caps example_conn) False" by (simp_all add: fake_options_def)
  from plan_leaves_fakes_alone [OF p this calm] p a show ?thesis by (simp add: fake_options_def)
qed

end
