(* ===== verification/Commands.thy ===== *)
theory Commands
  imports Driver Report Plan_Fakes
begin

text \<open>
  \<^verbatim>\<open>cmd/crm-bisync/main.go\<close>: the commands over a configuration file, a state directory and the
  connectors the configuration names. Reading and decoding the configuration, what the state
  directory holds, the text forms of numbers and durations that \<^verbatim>\<open>flag\<close> accepts, and the random
  draws are the machine, a parameter. What a command prints is a list of texts and of values left
  to the JSON encoder. A plan may block for ever, which is \<^const>\<open>None\<close>.
\<close>

record machine =
  mc_decode :: "string \<Rightarrow> gerr + config"
  mc_state :: "string \<Rightarrow> gerr + doc snapfile \<times> doc line list"
  mc_files :: files
  mc_io :: "nat \<Rightarrow> io"
  mc_lib :: stdlib
  mc_hash :: "string \<Rightarrow> string"
  mc_now :: gotime
  mc_int :: "string \<Rightarrow> int option"
  mc_duration :: "string \<Rightarrow> duration option"
  mc_rnd :: "nat \<Rightarrow> int \<Rightarrow> int"
  mc_sel :: "nat \<Rightarrow> nat \<Rightarrow> bool"
  mc_probe :: doc
  mc_usage :: string
  mc_version :: string

definition exitOK :: int where "exitOK = 0"
definition exitError :: int where "exitError = 1"
definition exitFindings :: int where "exitFindings = 2"

section \<open>Flags\<close>

text \<open>\<^verbatim>\<open>flag.FlagSet\<close> as the commands use it: kinds of flags, their values as text, and the parser.\<close>

datatype flag_kind = FlagString | FlagBool | FlagInt | FlagDuration

type_synonym flag_set = "(string, flag_kind \<times> string) gomap"

datatype cmd_err = HelpRequested | Failed gerr

definition flag_ok :: "machine \<Rightarrow> flag_kind \<Rightarrow> string \<Rightarrow> bool" where
  "flag_ok mc k v =
     (case k of FlagString \<Rightarrow> True | FlagBool \<Rightarrow> parse_bool v \<noteq> None | FlagInt \<Rightarrow> mc_int mc v \<noteq> None
      | FlagDuration \<Rightarrow> mc_duration mc v \<noteq> None)"

text \<open>The value after an equals sign that is not the first character of the name.\<close>

definition split_flag :: "string \<Rightarrow> string \<times> string option" where
  "split_flag name =
     (let k = length (takeWhile (\<lambda>c. c \<noteq> CHR ''='') (tl name)) + 1
      in if k < length name then (take k name, Some (drop (k + 1) name)) else (name, None))"

definition set_flag :: "machine \<Rightarrow> flag_set \<Rightarrow> string \<Rightarrow> flag_kind \<Rightarrow> string \<Rightarrow> cmd_err + flag_set" where
  "set_flag mc fs name k v =
     (if flag_ok mc k v then Inr (AList.update name (k, v) fs)
      else Inl (Failed (ErrText (''invalid value '' @ quoted v @ '' for flag -'' @ name))))"

fun Parse :: "machine \<Rightarrow> string list \<Rightarrow> flag_set \<Rightarrow> cmd_err + flag_set" where
  "Parse mc [] fs = Inr fs"
| "Parse mc (s # args) fs =
     (if length s < 2 \<or> hd s \<noteq> CHR ''-'' then Inr fs
      else if s = ''--'' then Inr fs
      else let body = (if s ! 1 = CHR ''-'' then drop 2 s else drop 1 s)
      in if body = '''' \<or> hd body = CHR ''-'' \<or> hd body = CHR ''='' then Inl (Failed (ErrText (''bad flag syntax: '' @ s)))
      else case split_flag body of (name, value) \<Rightarrow>
        (case map_of fs name of
           None \<Rightarrow> if name = ''help'' \<or> name = ''h'' then Inl HelpRequested
                   else Inl (Failed (ErrText (''flag provided but not defined: -'' @ name)))
         | Some (k, _) \<Rightarrow>
             (case value of
                Some v \<Rightarrow> (case set_flag mc fs name k v of Inl err \<Rightarrow> Inl err | Inr fs' \<Rightarrow> Parse mc args fs')
              | None \<Rightarrow>
                  if k = FlagBool then (case set_flag mc fs name k ''true'' of Inl err \<Rightarrow> Inl err | Inr fs' \<Rightarrow> Parse mc args fs')
                  else (case args of
                          [] \<Rightarrow> Inl (Failed (ErrText (''flag needs an argument: -'' @ name)))
                        | v # rest \<Rightarrow>
                            (case set_flag mc fs name k v of Inl err \<Rightarrow> Inl err | Inr fs' \<Rightarrow> Parse mc rest fs')))))"

definition flag_value :: "flag_set \<Rightarrow> string \<Rightarrow> string" where
  "flag_value fs name = (case map_of fs name of None \<Rightarrow> '''' | Some (_, v) \<Rightarrow> v)"

definition flag_on :: "flag_set \<Rightarrow> string \<Rightarrow> bool" where
  "flag_on fs name \<longleftrightarrow> parse_bool (flag_value fs name) = Some True"

definition shared_flags :: flag_set where
  "shared_flags = [(''config'', (FlagString, ''config.json'')), (''json'', (FlagBool, ''false''))]"

section \<open>Sessions\<close>

record session =
  ss_cfg :: config
  ss_opts :: "(doc fstore, string \<Rightarrow> fake) options"
  ss_env :: "(doc fstore, string \<Rightarrow> fake) env"
  ss_rt :: "(doc fstore, string \<Rightarrow> fake) rt"

definition built_in :: "machine \<Rightarrow> fake drivers" where
  "built_in mc = [(''fake'', buildFake (mc_files mc))]"

definition peer_of :: "(string, fake) gomap \<Rightarrow> string \<Rightarrow> fake" where
  "peer_of conns n = (case map_of conns n of Some f \<Rightarrow> f | None \<Rightarrow> fake_New n
     \<lparr>cap_native_idempotency = False, cap_webhooks = False, cap_soft_delete = False, cap_etags = False, cap_max_page_size = 0,
      cap_modified_at_exact = False\<rparr> '''' [] no_faults)"

definition session_options :: "machine \<Rightarrow> config \<Rightarrow> (string, fake) gomap \<Rightarrow> doc fstore \<Rightarrow> (doc fstore, string \<Rightarrow> fake) options" where
  "session_options mc cfg conns st =
     \<lparr>ot_config = Some cfg, ot_store = Some (file_ops (mc_io mc), st), ot_connectors = map fst conns,
      ot_conn = fake_ops (mc_lib mc) (\<lambda>n. fk_caps (peer_of conns n)) False, ot_world = peer_of conns, ot_now = mc_now mc,
      ot_hash = mc_hash mc, ot_dry_run = False, ot_cancelled = False\<rparr>"

definition open_session :: "machine \<Rightarrow> string \<Rightarrow> gerr + session" where
  "open_session mc path =
     (case mc_decode mc path of Inl err \<Rightarrow> Inl err | Inr decoded \<Rightarrow>
     (case Load decoded of Inl err \<Rightarrow> Inl err | Inr cfg \<Rightarrow>
     (case BuildAll (built_in mc) (mc_now mc) cfg of Inl err \<Rightarrow> Inl err | Inr conns \<Rightarrow>
     (case mc_state mc (cg_state_dir cfg) of Inl err \<Rightarrow> Inl err | Inr (snap, ops) \<Rightarrow>
     (case OpenFile 0 snap ops of Inl err \<Rightarrow> Inl err | Inr st \<Rightarrow>
        let opts = session_options mc cfg conns st
        in case engine_New opts of
             Inl err \<Rightarrow> Inl err
           | Inr (env, r) \<Rightarrow> Inr \<lparr>ss_cfg = cfg, ss_opts = opts, ss_env = env, ss_rt = r\<rparr>)))))"

definition session_Close :: "doc fstore \<Rightarrow> doc fstore" where
  "session_Close st = snd (file_close st)"

section \<open>The commands\<close>

datatype out =
    OutText string
  | OutDiagnosis diagnosis
  | OutPlan plan_report
  | OutItems "queue_item list"
  | OutItem queue_item

text \<open>
  How a command ends: its code, its error, what it printed, and the queue and the state directory
  it leaves, if it got as far as opening it.
\<close>

record finished =
  fd_code :: int
  fd_err :: "cmd_err option"
  fd_out :: "out list"
  fd_queue :: "task multiset"
  fd_state :: "doc fstore option"

definition printed :: "string \<Rightarrow> finished" where
  "printed text = \<lparr>fd_code = exitOK, fd_err = None, fd_out = [OutText text], fd_queue = {#}, fd_state = None\<rparr>"

definition refused :: "cmd_err \<Rightarrow> finished" where
  "refused err = \<lparr>fd_code = exitError, fd_err = Some err, fd_out = [], fd_queue = {#}, fd_state = None\<rparr>"

definition ended :: "int \<Rightarrow> gerr option \<Rightarrow> out list \<Rightarrow> (doc fstore, string \<Rightarrow> fake) rt \<Rightarrow> finished" where
  "ended code err out r =
     \<lparr>fd_code = code, fd_err = map_option Failed err, fd_out = out, fd_queue = queued (rt_queue r),
      fd_state = Some (session_Close (en_store (rt_eng r)))\<rparr>"

definition with_session ::
  "machine \<Rightarrow> flag_set \<Rightarrow> string list \<Rightarrow> (flag_set \<Rightarrow> session \<Rightarrow> finished option) \<Rightarrow> finished option" where
  "with_session mc spec args body =
     (case Parse mc args spec of
        Inl err \<Rightarrow> Some (refused err)
      | Inr fs \<Rightarrow>
          (case open_session mc (flag_value fs ''config'') of
             Inl err \<Rightarrow> Some (refused (Failed err))
           | Inr s \<Rightarrow> body fs s))"

definition doctor_cmd :: "machine \<Rightarrow> string list \<Rightarrow> finished option" where
  "doctor_cmd mc args =
     with_session mc shared_flags args (\<lambda>fs s.
       case Doctor (ss_env s) (cg_state_dir (ss_cfg s)) (mc_probe mc) (rt_eng (ss_rt s)) of
         (d, e) \<Rightarrow>
           Some (ended (if \<not> diagnosis_OK d then exitFindings else exitOK) None
                  [if flag_on fs ''json'' then OutDiagnosis d else OutText (Doctor_text d)] ((ss_rt s)\<lparr>rt_eng := e\<rparr>)))"

text \<open>What a plan leaves of the session: the store under its overlay, and the peers.\<close>

definition after_plan :: "(('s, doc) overlay, 'w) rt option \<Rightarrow> ('s, 'w) rt \<Rightarrow> ('s, 'w) rt" where
  "after_plan planned r =
     (case planned of
        None \<Rightarrow> r
      | Some p \<Rightarrow> r\<lparr>rt_eng := (rt_eng r)\<lparr>en_store := ov_base (en_store (rt_eng p)), en_world := en_world (rt_eng p)\<rparr>\<rparr>)"

definition plan_cmd :: "machine \<Rightarrow> string list \<Rightarrow> finished option" where
  "plan_cmd mc args =
     with_session mc shared_flags args (\<lambda>fs s.
       case Plan (mc_rnd mc) (mc_sel mc) (ss_opts s) of
         None \<Rightarrow> None
       | Some (x, planned) \<Rightarrow>
           Some (let r = after_plan planned (ss_rt s)
             in case x of
                  Inl err \<Rightarrow> ended exitError (Some err) [] r
                | Inr result \<Rightarrow>
                    ended (if \<not> plan_Empty result then exitFindings else exitOK) None
                      [if flag_on fs ''json'' then OutPlan result else OutText (Plan_text result)] r))"

definition queue_flags :: flag_set where
  "queue_flags = shared_flags @
     [(''limit'', (FlagInt, ''50'')), (''show'', (FlagString, '''')), (''discard'', (FlagString, '''')), (''replay'', (FlagString, ''''))]"

definition items_text :: "string \<Rightarrow> queue_item list \<Rightarrow> string" where
  "items_text collection items =
     (if items = [] then ''The '' @ (if collection = CollDLQ then ''dead-letter queue'' else ''review'') @ '' is empty.'' @ newline
      else concat (map (\<lambda>i. q_id i @ ''  '' @ ref_string (q_ref i) @ newline @ ''  '' @ q_reason i @ newline) items) @
        newline @ itoa (int (length items)) @ '' item(s).'' @ newline)"

definition list_items :: "(doc fstore, string \<Rightarrow> fake) env \<Rightarrow> string \<Rightarrow> int \<Rightarrow> ((doc fstore, string \<Rightarrow> fake) eng, gerr, queue_item list) st" where
  "list_items env collection limit e0 =
     (case DeadLetters env limit e0 of
        (x, e1) \<Rightarrow> if collection = CollReview then Reviews env limit e1 else (x, e1))"

definition queue_listing :: "flag_set \<Rightarrow> string \<Rightarrow> queue_item list \<Rightarrow> (int \<times> gerr option) \<times> out list" where
  "queue_listing fs collection items =
     (let show_id = flag_value fs ''show''
      in if show_id \<noteq> '''' then
           (case find (\<lambda>i. q_id i = show_id) items of
              Some item \<Rightarrow> ((exitOK, None), [OutItem item])
            | None \<Rightarrow> ((exitError, Some (ErrText (''no item '' @ quoted show_id))), []))
         else if flag_on fs ''json'' then ((exitOK, None), [OutItems items])
         else if items = [] then ((exitOK, None), [OutText (items_text collection items)])
         else ((exitFindings, None), [OutText (items_text collection items)]))"

definition queue_body :: "machine \<Rightarrow> string \<Rightarrow> flag_set \<Rightarrow> session \<Rightarrow> finished" where
  "queue_body mc collection fs s =
     (let env = ss_env s; r = ss_rt s; discard = flag_value fs ''discard''; replay = flag_value fs ''replay''
      in if discard \<noteq> '''' then
            (case on_eng (Discard env collection discard) r of
               (Inl err, r') \<Rightarrow> ended exitError (Some err) [] r'
             | (Inr _, r') \<Rightarrow> ended exitOK None [OutText (''Removed '' @ discard @ ''.'' @ newline)] r')
          else if replay \<noteq> '''' then
            (if collection \<noteq> CollDLQ then ended exitError (Some (ErrText ''only dead-lettered work can be replayed'')) [] r
             else case Replay env replay r of
                    (Inl err, r') \<Rightarrow> ended exitError (Some err) [] r'
                  | (Inr _, r') \<Rightarrow> ended exitOK None [OutText (''Requeued '' @ replay @ ''. It runs on the next pass.'' @ newline)] r')
          else
            (case on_eng (list_items env collection (the (mc_int mc (flag_value fs ''limit'')))) r of
               (Inl err, r') \<Rightarrow> ended exitError (Some err) [] r'
             | (Inr items, r') \<Rightarrow>
                 (case queue_listing fs collection items of ((code, err), out) \<Rightarrow> ended code err out r')))"

definition queueCommand :: "machine \<Rightarrow> string \<Rightarrow> string list \<Rightarrow> finished option" where
  "queueCommand mc collection args = with_session mc queue_flags args (\<lambda>fs s. Some (queue_body mc collection fs s))"

text \<open>
  The daemon: a pass polls and sweeps and reports what went wrong, and between two passes the
  workers and the webhook handlers do what they do, a function on the state for each tick. The loop
  ends when the context is cancelled, after the last of them.
\<close>

definition daemon_pass :: "('s, 'w) env \<Rightarrow> ('s, 'w) rt \<Rightarrow> string list \<times> ('s, 'w) rt" where
  "daemon_pass env r =
     (case PollAll env r of
        ((_, err), r1) \<Rightarrow>
          (case on_eng (engine_Sweep env) r1 of
             (swept, r2) \<Rightarrow>
               ((case err of None \<Rightarrow> [] | Some e \<Rightarrow> [''crm-bisync: poll: '' @ err_text e @ newline]) @
                (case swept of Inr _ \<Rightarrow> [] | Inl e \<Rightarrow> [''crm-bisync: sweep: '' @ err_text e @ newline]), r2)))"

fun daemon_loop ::
  "('s, 'w) env \<Rightarrow> (('s, 'w) rt \<Rightarrow> ('s, 'w) rt) list \<Rightarrow> ('s, 'w) rt \<Rightarrow> string list \<times> ('s, 'w) rt" where
  "daemon_loop env [] r = daemon_pass env r"
| "daemon_loop env (between # ticks) r =
     (case daemon_pass env r of
        (msgs, r1) \<Rightarrow> (case daemon_loop env ticks (between r1) of (msgs', r2) \<Rightarrow> (msgs @ msgs', r2)))"

definition daemon_flags :: flag_set where
  "daemon_flags = shared_flags @ [(''interval'', (FlagDuration, ''1m''))]"

definition daemon_cmd ::
  "machine \<Rightarrow> ((doc fstore, string \<Rightarrow> fake) rt \<Rightarrow> (doc fstore, string \<Rightarrow> fake) rt) list \<Rightarrow> string list \<Rightarrow> finished option" where
  "daemon_cmd mc ticks args =
     with_session mc daemon_flags args (\<lambda>fs s.
       case engine_Validate (ss_env s) (rt_eng (ss_rt s)) of
         (Some err, e) \<Rightarrow> Some (ended exitError (Some err) [] ((ss_rt s)\<lparr>rt_eng := e\<rparr>))
       | (None, e) \<Rightarrow>
           (case daemon_loop (ss_env s) ticks ((ss_rt s)\<lparr>rt_eng := e\<rparr>) of
              (msgs, r) \<Rightarrow> Some (ended exitOK None (map OutText msgs) (Stop r))))"

definition run_command ::
  "machine \<Rightarrow> ((doc fstore, string \<Rightarrow> fake) rt \<Rightarrow> (doc fstore, string \<Rightarrow> fake) rt) list \<Rightarrow> string list \<Rightarrow> finished option" where
  "run_command mc ticks args =
     (case args of
        [] \<Rightarrow> Some (printed (mc_usage mc))
      | cmd # rest \<Rightarrow>
          if cmd \<in> set [''version'', ''-version'', ''--version''] then
            Some (printed (mc_version mc @ newline))
          else if cmd \<in> set [''help'', ''-h'', ''--help''] then
            Some (printed (mc_usage mc))
          else if cmd = ''doctor'' then doctor_cmd mc rest
          else if cmd = ''plan'' then plan_cmd mc rest
          else if cmd = ''run'' then daemon_cmd mc ticks rest
          else if cmd = ''dlq'' then queueCommand mc CollDLQ rest
          else if cmd = ''review'' then queueCommand mc CollReview rest
          else Some (refused (Failed (ErrText (''unknown command '' @ quoted cmd @ ''; run '' @ [CHR 0x22] @ ''crm-bisync help'' @ [CHR 0x22])))))"

text \<open>What the process exits with.\<close>

definition exit_code :: "finished \<Rightarrow> int" where
  "exit_code d = (case fd_err d of None \<Rightarrow> fd_code d | Some HelpRequested \<Rightarrow> exitOK | Some (Failed _) \<Rightarrow> exitError)"

section \<open>Properties\<close>

lemma ended_simps [simp]:
  "fd_code (ended code err out r) = code" "fd_err (ended code err out r) = map_option Failed err"
  "fd_out (ended code err out r) = out" "fd_queue (ended code err out r) = queued (rt_queue r)"
  "fd_state (ended code err out r) = Some (session_Close (en_store (rt_eng r)))"
  by (simp_all add: ended_def)

lemma open_session_parts:
  assumes "open_session mc path = Inr s"
  obtains cfg conns st where "ss_opts s = session_options mc cfg conns st" "engine_New (ss_opts s) = Inr (ss_env s, ss_rt s)"
    "BuildAll (built_in mc) (mc_now mc) cfg = Inr conns"
  using assms by (auto simp: open_session_def Let_def split: sum.splits prod.splits)

lemma engine_New_idle: "engine_New opts = Inr (env, r) \<Longrightarrow> queued (rt_queue r) = {#}"
  by (auto simp: engine_New_def newWorkQueue_def queued_def Let_def split: option.splits sum.splits prod.splits)

lemma session_start:
  assumes "open_session mc path = Inr s"
  shows "pe_store (ss_env s) = file_ops (mc_io mc)" "queued (rt_queue (ss_rt s)) = {#}"
    "ot_store (ss_opts s) = Some (file_ops (mc_io mc), en_store (rt_eng (ss_rt s)))"
proof -
  obtain cfg conns st where o: "ss_opts s = session_options mc cfg conns st" "engine_New (ss_opts s) = Inr (ss_env s, ss_rt s)"
    by (rule open_session_parts [OF assms])
  then have st: "ot_store (ss_opts s) = Some (file_ops (mc_io mc), st)" by (simp add: session_options_def)
  from engine_New_parts [OF o(2) st] st show "pe_store (ss_env s) = file_ops (mc_io mc)"
    "ot_store (ss_opts s) = Some (file_ops (mc_io mc), en_store (rt_eng (ss_rt s)))" by simp_all
  show "queued (rt_queue (ss_rt s)) = {#}"
    by (rule engine_New_idle [OF o(2)])
qed

lemma items_read:
  assumes "pe_store env = file_ops io"
  shows "snd (on_eng (list_items env c limit) r) = r"
proof -
  have "snd (ListQueueItems (file_ops io) now c n st) = st" for now c n st
    using file_base.list_reads [of io now c 0 st]
    by (auto simp: ListQueueItems_def andThen_def throw_def ret_def split: prod.split sum.split)
  then have "snd (DeadLetters env limit e) = e" "snd (Reviews env limit e) = e" for e
    by (simp_all add: DeadLetters_def Reviews_def on_store_def assms case_prod_beta)
  then show ?thesis by (simp add: on_eng_def list_items_def case_prod_beta)
qed

text \<open>
  C35: Looking at the queues changes nothing. Whatever \<open>dlq\<close> and \<open>review\<close> are asked to list or show,
  and whether or not they find it, the state directory they close is the one they opened, without a
  single call to the disk in between, and no work was queued.
\<close>

theorem listing_reads_only:
  assumes "queueCommand mc collection args = Some fd" and "Parse mc args queue_flags = Inr fs"
    and "flag_value fs ''discard'' = ''''" and "flag_value fs ''replay'' = ''''" and "open_session mc (flag_value fs ''config'') = Inr s"
  shows "fd_state fd = Some (session_Close (en_store (rt_eng (ss_rt s)))) \<and> fd_queue fd = {#}"
proof -
  note start = session_start [OF assms(5)]
  obtain x r' where l: "on_eng (list_items (ss_env s) collection (the (mc_int mc (flag_value fs ''limit'')))) (ss_rt s) = (x, r')"
    by fastforce
  with items_read [OF start(1)] have "r' = ss_rt s" by (metis snd_conv)
  then show ?thesis
    using assms l start(2) by (auto simp: queueCommand_def queue_body_def with_session_def Let_def split: sum.splits prod.splits)
qed

text \<open>
  C36: \<open>plan\<close> tells by its exit code what it found and leaves everything as it was. It ends with 2
  exactly when the plan is not empty, with 0 when it is and with 1 when the plan could not be made,
  and in each case the state directory it closes is the one it opened.
\<close>

theorem plan_command_exit:
  assumes "plan_cmd mc args = Some fd" and "Parse mc args shared_flags = Inr fs" and "open_session mc (flag_value fs ''config'') = Inr s"
  shows "fd_state fd = Some (session_Close (en_store (rt_eng (ss_rt s)))) \<and>
    (\<exists>x planned. Plan (mc_rnd mc) (mc_sel mc) (ss_opts s) = Some (x, planned) \<and>
       exit_code fd = (case x of Inl _ \<Rightarrow> exitError | Inr rep \<Rightarrow> if plan_Empty rep then exitOK else exitFindings))"
proof -
  obtain x planned where p: "Plan (mc_rnd mc) (mc_sel mc) (ss_opts s) = Some (x, planned)"
    using assms by (auto simp: plan_cmd_def with_session_def split: option.splits)
  have "en_store (rt_eng (after_plan planned (ss_rt s))) = en_store (rt_eng (ss_rt s))"
  proof (cases planned)
    case (Some r)
    have "ov_base (en_store (rt_eng r)) = en_store (rt_eng (ss_rt s)) \<and> True"
      by (rule plan_keeps [where Q = "\<lambda>_. True", OF p [unfolded Some] session_start(3) [OF assms(3)] file_base.get_reads
        file_base.list_reads]) simp_all
    with Some show ?thesis by (simp add: after_plan_def)
  qed (simp add: after_plan_def)
  with p assms show ?thesis
    by (auto simp: plan_cmd_def with_session_def Let_def exit_code_def split: sum.splits)
qed

text \<open>Every ending has a code of its own or an error.\<close>

definition tidy :: "finished \<Rightarrow> bool" where
  "tidy fd \<longleftrightarrow> (fd_err fd = None \<longrightarrow> fd_code fd \<in> {exitOK, exitFindings}) \<and>
     (fd_state fd = None \<longrightarrow> fd_code fd \<noteq> exitFindings \<and> fd_queue fd = {#})"

lemma tidy_simps [simp]:
  "tidy (printed x)" "tidy (refused cause)" "tidy (ended exitOK err out r)" "tidy (ended exitFindings err out r)" "tidy (ended code (Some reason) out r)"
  by (simp_all add: tidy_def printed_def refused_def exitOK_def exitError_def exitFindings_def)

lemma tidy_session:
  "(\<And>fs s. pred_option tidy (body fs s)) \<Longrightarrow> pred_option tidy (with_session mc spec args body)"
  by (simp add: with_session_def split: sum.split)

lemma tidy_listing: "tidy (case queue_listing fs c items of ((code, err), out) \<Rightarrow> ended code err out r)"
  by (simp add: queue_listing_def Let_def split: option.split)

lemma tidy_doctor: "pred_option tidy (doctor_cmd mc args)"
  unfolding doctor_cmd_def by (rule tidy_session) (simp split: prod.split)

lemma tidy_plan: "pred_option tidy (plan_cmd mc args)"
  unfolding plan_cmd_def by (rule tidy_session) (simp add: Let_def split: option.split prod.split sum.split)

lemma tidy_queue_body: "tidy (queue_body mc c fs s)"
  by (simp add: queue_body_def Let_def tidy_listing split: prod.split sum.split)

lemma tidy_queue: "pred_option tidy (queueCommand mc c args)"
  unfolding queueCommand_def by (rule tidy_session) (simp add: tidy_queue_body)

lemma tidy_daemon: "pred_option tidy (daemon_cmd mc ticks args)"
  unfolding daemon_cmd_def by (rule tidy_session) (simp split: prod.split option.split)

lemma tidy_run: "pred_option tidy (run_command mc ticks args)"
  unfolding run_command_def using tidy_doctor tidy_plan tidy_queue tidy_daemon by (simp split: list.split del: set_simps)



text \<open>An instance: two fakes of one fixture with the schema of contacts, and a state directory.\<close>

definition example_schema :: fixture where
  "example_schema = [(''contact'', \<lparr>fo_fields =
     map (\<lambda>x. \<lparr>sf_name = x, sf_type = ''string'', sf_read_only = False, sf_required = False\<rparr>) [''email'', ''mail''], fo_records = []\<rparr>)]"

definition example_machine :: "doc line list \<Rightarrow> machine" where
  "example_machine lines =
     \<lparr>mc_decode = (\<lambda>path. if path = ''config.json'' then Inr ((example_config '''' '''')\<lparr>cg_connectors :=
          map (\<lambda>n. (example_connector n)\<lparr>cc_options := [(''file'', ''/contacts.json'')]\<rparr>) [''hub'', ''sales'']\<rparr>)
        else Inl (ErrText ''no such file'')),
      mc_state = (\<lambda>_. Inr (Missing, lines)),
      mc_files = \<lparr>fs_read = (\<lambda>_. Inr ''''), fs_fixture = (\<lambda>_. Inr example_schema)\<rparr>,
      mc_io = (\<lambda>_. IoOk), mc_lib = example_lib0, mc_hash = (\<lambda>x. x), mc_now = unix_epoch, mc_int = parse_int,
      mc_duration = (\<lambda>_. None), mc_rnd = (\<lambda>_ _. 0), mc_sel = (\<lambda>_ _. True), mc_probe = DocNano 0, mc_usage = ''usage'',
      mc_version = ''dev''\<rparr>"

definition dead_item :: queue_item where
  "dead_item =
     \<lparr>q_id = ''d1'', q_sync = ''contact:hub-sales'', q_ref = \<lparr>ref_connector = ''hub'', ref_kind = ''contact'', ref_remote_id = ''7''\<rparr>,
      q_reason = ''no'', q_created_at = unix_epoch, q_attempts = 6,
      q_payload = json_val (dead_payload ((delete_event ''contact'' ''7'')\<lparr>ev_source := ''hub'', ev_observed_at := unix_epoch\<rparr>) ErrRecheck)\<rparr>"

definition dead_log :: "doc line list" where
  "dead_log = [Whole (OpPut CollDLQ ''d1'' (DocQueue dead_item) 0)]"

lemma some_case: "(case x of Some y \<Rightarrow> P y | None \<Rightarrow> False) \<Longrightarrow> \<exists>y. x = Some y \<and> P y"
  and inr_case: "(case z of Inr y \<Rightarrow> P y | Inl _ \<Rightarrow> False) \<Longrightarrow> \<exists>y. z = Inr y \<and> P y"
  by (auto split: option.splits sum.splits)

theorem listing_reads_only_witness:
  "\<exists>fd s. queueCommand (example_machine dead_log) CollDLQ [''-show=d1''] = Some fd \<and> fd_out fd = [OutItem dead_item] \<and>
     open_session (example_machine dead_log) ''config.json'' = Inr s \<and>
     fd_state fd = Some (session_Close (en_store (rt_eng (ss_rt s))))"
proof -
  let ?m = "example_machine dead_log"
  have "case queueCommand ?m CollDLQ [''-show=d1''] of Some fd \<Rightarrow> fd_out fd = [OutItem dead_item] | None \<Rightarrow> False" by code_simp
  then obtain fd where fd: "queueCommand ?m CollDLQ [''-show=d1''] = Some fd" "fd_out fd = [OutItem dead_item]"
    by (blast dest: some_case)
  have "case Parse ?m [''-show=d1''] queue_flags of Inr fs \<Rightarrow> flag_value fs ''discard'' = '''' \<and> flag_value fs ''replay'' = '''' \<and>
      flag_value fs ''config'' = ''config.json'' | Inl _ \<Rightarrow> False" by code_simp
  then obtain fs where fs: "Parse ?m [''-show=d1''] queue_flags = Inr fs" "flag_value fs ''discard'' = ''''"
    "flag_value fs ''replay'' = ''''" "flag_value fs ''config'' = ''config.json''" by (blast dest: inr_case)
  have "case open_session ?m ''config.json'' of Inr s \<Rightarrow> True | Inl _ \<Rightarrow> False" by code_simp
  then obtain s where s: "open_session ?m ''config.json'' = Inr s" by (blast dest: inr_case)
  from listing_reads_only [OF fd(1) fs(1-3), unfolded fs(4), OF s] fd s show ?thesis by blast
qed

text \<open>Without an object in the fixture the mapping cannot be checked, and there is no plan.\<close>

definition bare_machine :: machine where
  "bare_machine = (example_machine [])\<lparr>mc_files := \<lparr>fs_read = (\<lambda>_. Inr ''''), fs_fixture = (\<lambda>_. Inr [])\<rparr>\<rparr>"

theorem plan_command_exit_witness:
  "\<exists>fd s. plan_cmd bare_machine [] = Some fd \<and> exit_code fd = exitError \<and> open_session bare_machine ''config.json'' = Inr s \<and>
     fd_state fd = Some (session_Close (en_store (rt_eng (ss_rt s))))"
proof -
  let ?m = bare_machine
  have "case plan_cmd ?m [] of Some fd \<Rightarrow> exit_code fd = exitError | None \<Rightarrow> False" by code_simp
  then obtain fd where fd: "plan_cmd ?m [] = Some fd" "exit_code fd = exitError" by (blast dest: some_case)
  have fs: "Parse ?m [] shared_flags = Inr shared_flags" by simp
  have "flag_value shared_flags ''config'' = ''config.json''" by code_simp
  moreover have "case open_session ?m ''config.json'' of Inr s \<Rightarrow> True | Inl _ \<Rightarrow> False" by code_simp
  then obtain s where s: "open_session ?m ''config.json'' = Inr s" by (blast dest: inr_case)
  ultimately show ?thesis using plan_command_exit [OF fd(1) fs] fd s by auto
qed


theorem replayed_event_lost:
  "case queueCommand (example_machine dead_log) CollDLQ [''-replay'', ''d1''] of
     None \<Rightarrow> False
   | Some fd \<Rightarrow> exit_code fd = exitOK \<and> size (fd_queue fd) = 1 \<and>
       (case fd_state fd of None \<Rightarrow> False
        | Some st \<Rightarrow> (case recover (dk_snap (fl_disk st)) (dk_log (fl_disk st)) of
             Inl _ \<Rightarrow> False | Inr (_, data) \<Rightarrow> concat (map snd data) = []))"
  by code_simp

end
