(* ===== verification/Manual_Clock.thy ===== *)
theory Manual_Clock
  imports Prelude Errors "HOL-Library.Multiset"
begin

text \<open>
  \<^verbatim>\<open>internal/clock/clock.go\<close>: the clock that moves only when it is advanced. A channel is its
  number, in the order they were made, and the sends are recorded with the number of their channel.
  Each channel has room for the one value that is ever sent to it, so no send blocks. Sleeping is
  two steps, the registration and the choice between the alarm and the context. The wall clock is
  the system's.
\<close>

section \<open>The clock\<close>

record waiter =
  wt_at :: gotime
  wt_ch :: nat

record manual =
  mn_now :: gotime
  mn_waiters :: "waiter list"
  mn_chans :: nat
  mn_sent :: "(nat \<times> gotime) list"

definition NewManual :: "gotime \<Rightarrow> manual" where
  "NewManual start = \<lparr>mn_now = start, mn_waiters = [], mn_chans = 0, mn_sent = []\<rparr>"

definition manual_Now :: "manual \<Rightarrow> gotime" where
  "manual_Now m = mn_now m"

definition After :: "duration \<Rightarrow> manual \<Rightarrow> nat \<times> manual" where
  "After d m =
     (let ch = mn_chans m; m' = m\<lparr>mn_chans := ch + 1\<rparr>
      in (ch, if d \<le> 0 then m'\<lparr>mn_sent := mn_sent m' @ [(ch, mn_now m')]\<rparr>
              else m'\<lparr>mn_waiters := mn_waiters m' @ [\<lparr>wt_at = mn_now m' + d, wt_ch = ch\<rparr>]\<rparr>))"

definition due_at :: "gotime \<Rightarrow> waiter \<Rightarrow> bool" where
  "due_at t w \<longleftrightarrow> \<not> wt_at w > t"

definition manual_Advance :: "duration \<Rightarrow> manual \<Rightarrow> manual" where
  "manual_Advance d m =
     (let now = mn_now m + d; due = filter (due_at now) (mn_waiters m); kept = filter (\<lambda>w. \<not> due_at now w) (mn_waiters m)
      in m\<lparr>mn_now := now, mn_waiters := kept,
           mn_sent := mn_sent m @ map (\<lambda>w. (wt_ch w, wt_at w)) (sort_key wt_at due)\<rparr>)"

definition Pending :: "manual \<Rightarrow> int" where
  "Pending m = int (length (mn_waiters m))"

text \<open>\<^verbatim>\<open>Sleep\<close> up to its \<^verbatim>\<open>select\<close>, and the choice once the alarm has rung or the context is done.\<close>

definition Sleep_start :: "bool \<Rightarrow> duration \<Rightarrow> manual \<Rightarrow> (gerr option + nat) \<times> manual" where
  "Sleep_start cancelled d m =
     (if d \<le> 0 then (Inl (if cancelled then Some ErrCtx else None), m)
      else case After d m of (ch, m') \<Rightarrow> (Inr ch, m'))"

definition Sleep_wake :: "bool \<Rightarrow> bool \<Rightarrow> nat \<Rightarrow> manual \<Rightarrow> gerr option option" where
  "Sleep_wake cancelled pick_alarm ch m =
     (let rung = ch \<in> fst ` set (mn_sent m)
      in if rung \<and> (\<not> cancelled \<or> pick_alarm) then Some None
         else if cancelled then Some (Some ErrCtx) else None)"

section \<open>Every alarm rings once, when it is due\<close>

text \<open>
  Every channel has either an alarm that is still to come or the one value it was sent, never before
  its time.
\<close>

definition manual_ok :: "manual \<Rightarrow> bool" where
  "manual_ok m \<longleftrightarrow>
     mset (map wt_ch (mn_waiters m) @ map fst (mn_sent m)) = mset [0..<mn_chans m] \<and>
     (\<forall>w \<in> set (mn_waiters m). mn_now m < wt_at w) \<and> (\<forall>(ch, t) \<in> set (mn_sent m). t \<le> mn_now m)"

lemma manual_ok_NewManual: "manual_ok (NewManual start)"
  by (simp add: manual_ok_def NewManual_def)

lemma manual_ok_After: "manual_ok m \<Longrightarrow> manual_ok (snd (After d m))"
  by (auto simp: manual_ok_def After_def Let_def simp del: mset_upt)

lemma filter_split_mset: "mset (filter P xs) + mset (filter (\<lambda>x. \<not> P x) xs) = mset xs"
  by (simp add: multiset_partition [symmetric])

lemma manual_ok_Advance:
  assumes "manual_ok m" "0 \<le> d"
  shows "manual_ok (manual_Advance d m)"
proof -
  let ?P = "due_at (mn_now m + d)"
  have "mset (map wt_ch (filter (\<lambda>w. \<not> ?P w) (mn_waiters m)) @ map wt_ch (sort_key wt_at (filter ?P (mn_waiters m)))) =
      image_mset wt_ch (mset (filter ?P (mn_waiters m)) + mset (filter (\<lambda>w. \<not> ?P w) (mn_waiters m)))"
    by (simp del: mset_filter add: union_commute)
  also have "\<dots> = mset (map wt_ch (mn_waiters m))" by (simp only: filter_split_mset mset_map)
  finally have "mset (map wt_ch (filter (\<lambda>w. \<not> ?P w) (mn_waiters m)) @ map wt_ch (sort_key wt_at (filter ?P (mn_waiters m))) @
      map fst (mn_sent m)) = mset [0..<mn_chans m]"
    using assms(1) by (simp add: manual_ok_def add.assoc [symmetric] del: mset_upt mset_filter)
  then show ?thesis using assms by (fastforce simp: manual_ok_def manual_Advance_def Let_def comp_def due_at_def ac_simps simp del: mset_upt mset_filter)
qed

lemma sort_key_split:
  assumes "\<And>x y. x \<in> set xs \<Longrightarrow> y \<in> set xs \<Longrightarrow> P x \<Longrightarrow> \<not> P y \<Longrightarrow> f x < f y"
  shows "sort_key f (filter P xs) @ sort_key f (filter (\<lambda>x. \<not> P x) xs) = sort_key f xs"
proof (rule sym, rule properties_for_sort_key)
  show "mset (sort_key f (filter P xs) @ sort_key f (filter (\<lambda>x. \<not> P x) xs)) = mset xs"
    by (simp del: mset_filter add: filter_split_mset)
  show "sorted (map f (sort_key f (filter P xs) @ sort_key f (filter (\<lambda>x. \<not> P x) xs)))"
    using assms by (auto simp: sorted_append less_imp_le)
  fix k assume k: "k \<in> set (sort_key f (filter P xs) @ sort_key f (filter (\<lambda>x. \<not> P x) xs))"
  have "filter (\<lambda>x. f k = f x) (filter P xs) @ filter (\<lambda>x. f k = f x) (filter (\<lambda>x. \<not> P x) xs) = filter (\<lambda>x. f k = f x) xs"
  proof (cases "P k")
    case True
    with k assms have "filter (\<lambda>x. f k = f x) (filter (\<lambda>x. \<not> P x) xs) = []" by (auto simp: filter_empty_conv dest: assms)
    moreover from True k have "filter (\<lambda>x. f k = f x) (filter P xs) = filter (\<lambda>x. f k = f x) xs"
      by (auto simp: filter_filter intro!: filter_cong dest: assms)
    ultimately show ?thesis by simp
  next
    case False
    with k assms have "filter (\<lambda>x. f k = f x) (filter P xs) = []" by (auto simp: filter_empty_conv dest: assms)
    moreover from False k have "filter (\<lambda>x. f k = f x) (filter (\<lambda>x. \<not> P x) xs) = filter (\<lambda>x. f k = f x) xs"
      by (auto simp: filter_filter intro!: filter_cong dest: assms)
    ultimately show ?thesis by simp
  qed
  moreover have "filter (\<lambda>x. f k = f x) (sort_key f ys) = filter (\<lambda>x. f k = f x) ys" for ys
    using sort_key_stable [of f "f k" ys] by (simp only: eq_commute [of "f k"])
  ultimately show "filter (\<lambda>x. f k = f x) (sort_key f (filter P xs) @ sort_key f (filter (\<lambda>x. \<not> P x) xs)) = filter (\<lambda>x. f k = f x) xs"
    by (simp only: filter_append)
qed

lemma due_later: "t \<le> u \<Longrightarrow> filter (due_at u) (filter (due_at t) ws) = filter (due_at t) ws"
  "t \<le> u \<Longrightarrow> filter (\<lambda>w. \<not> due_at u w) (filter (\<lambda>w. \<not> due_at t w) ws) = filter (\<lambda>w. \<not> due_at u w) ws"
  by (auto simp: due_at_def filter_filter intro!: filter_cong)

lemma due_twice:
  assumes "t \<le> u"
  shows "sort_key wt_at (filter (due_at t) ws) @ sort_key wt_at (filter (due_at u) (filter (\<lambda>w. \<not> due_at t w) ws)) =
    sort_key wt_at (filter (due_at u) ws)"
proof -
  have "filter (due_at t) (filter (due_at u) ws) = filter (due_at t) ws"
    "filter (\<lambda>w. \<not> due_at t w) (filter (due_at u) ws) = filter (due_at u) (filter (\<lambda>w. \<not> due_at t w) ws)"
    using assms by (auto simp: due_at_def filter_filter intro!: filter_cong)
  then show ?thesis using sort_key_split [of "filter (due_at u) ws" "due_at t" wt_at] by (auto simp: due_at_def)
qed

text \<open>
  C40: How the clock is advanced does not matter. Two advances leave exactly what one advance by
  their sum leaves: the same time, the same alarms still to come, and the same alarms rung in the
  same order.
\<close>

theorem advance_in_steps:
  assumes "0 \<le> b"
  shows "manual_Advance b (manual_Advance a m) = manual_Advance (a + b) m"
proof -
  have "mn_now m + a \<le> mn_now m + a + b" using assms by simp
  from due_later [OF this] due_twice [OF this] show ?thesis
    by (simp add: manual_Advance_def Let_def add.assoc map_append [symmetric] del: map_append filter_filter)
qed

text \<open>
  Every alarm rings exactly once and never early. After any sequence of calls with the clock
  moving forwards each channel has either an alarm still to come, later than now, or one value, a
  time that has passed; and an advance past its deadline makes it ring.
\<close>

datatype clock_call = CallAfter duration | CallAdvance duration

fun clock_step :: "clock_call \<Rightarrow> manual \<Rightarrow> manual" where
  "clock_step (CallAfter d) m = snd (After d m)"
| "clock_step (CallAdvance d) m = manual_Advance d m"

theorem alarms_ring_once:
  assumes "\<And>d. CallAdvance d \<in> set calls \<Longrightarrow> 0 \<le> d"
  shows "manual_ok (fold clock_step calls (NewManual start))"
proof -
  have "manual_ok m \<Longrightarrow> manual_ok (fold clock_step calls m)" for m
    using assms
  proof (induction calls arbitrary: m)
    case (Cons c calls)
    have "manual_ok (clock_step c m)"
      using Cons.prems by (cases c) (simp_all add: manual_ok_After manual_ok_Advance)
    with Cons show ?case by simp
  qed simp
  then show ?thesis using manual_ok_NewManual by blast
qed


text \<open>Sleeping ends as soon as the clock has moved that far, and not before.\<close>

lemma channels_used: "manual_ok m \<Longrightarrow> wt_ch ` set (mn_waiters m) \<union> fst ` set (mn_sent m) = {0..<mn_chans m}"
  using mset_eq_setD [of "map wt_ch (mn_waiters m) @ map fst (mn_sent m)" "[0..<mn_chans m]"] by (simp add: manual_ok_def del: mset_upt)

theorem sleep_wakes_on_time:
  assumes "manual_ok m" "0 < d" "0 \<le> e" "Sleep_start cancelled d m = (x, m')"
  shows "\<exists>ch. x = Inr ch \<and> Sleep_wake False pick ch (manual_Advance e m') = (if d \<le> e then Some None else None)"
proof -
  let ?ch = "mn_chans m" and ?w = "\<lparr>wt_at = mn_now m + d, wt_ch = mn_chans m\<rparr>"
  have x: "x = Inr ?ch" and m': "m' = m\<lparr>mn_chans := ?ch + 1, mn_waiters := mn_waiters m @ [?w]\<rparr>"
    using assms(2,4) by (simp_all add: Sleep_start_def After_def Let_def)
  have "?ch \<notin> wt_ch ` set (mn_waiters m)" "?ch \<notin> fst ` set (mn_sent m)" using channels_used [OF assms(1)] by auto
  then have "?ch \<in> fst ` set (mn_sent (manual_Advance e m')) \<longleftrightarrow> d \<le> e"
    by (auto simp: m' manual_Advance_def Let_def due_at_def image_iff)
  then show ?thesis by (simp add: x Sleep_wake_def)
qed

theorem sleep_wakes_on_time_witness:
  "\<exists>ch. Sleep_wake False True ch (manual_Advance (2 * second) (snd (Sleep_start False second (NewManual 0)))) = Some None"
  using sleep_wakes_on_time [OF manual_ok_NewManual, of second "2 * second" False 0 "fst (Sleep_start False second (NewManual 0))"
    "snd (Sleep_start False second (NewManual 0))" True] by auto

theorem advance_in_steps_witness:
  "manual_Advance second (manual_Advance second (snd (After second (NewManual 0)))) = manual_Advance (2 * second) (snd (After second (NewManual 0)))"
  using advance_in_steps [of second second "snd (After second (NewManual 0))"] by simp

theorem alarms_ring_once_witness:
  "manual_ok (fold clock_step [CallAfter second, CallAdvance second, CallAfter 0] (NewManual 0))"
  by (rule alarms_ring_once) auto

end
