(* ===== verification/Fake_Webhooks.thy ===== *)
theory Fake_Webhooks
  imports Fake_Contract Event_Codec
begin

text \<open>
  The deliveries of the fake connector (\<^verbatim>\<open>internal/connector/fake/webhook.go\<close>): what it signs and
  sends it also accepts, once for each delivery, in whatever order the shuffle chose.
\<close>

section \<open>The shuffle\<close>

lemma mset_swap_at: "i < length xs \<Longrightarrow> j < length xs \<Longrightarrow> mset (swap_at i j xs) = mset xs"
  by (simp add: swap_at_def mset_swap)

lemma shuffle_mset:
  assumes "\<And>d n. 0 < n \<Longrightarrow> rnd d n < n" and "i < length xs"
  shows "mset (snd (shuffle rnd draw i xs)) = mset xs"
  using assms(2)
proof (induction i arbitrary: draw xs)
  case (Suc i)
  have j: "rnd draw (Suc (Suc i)) < length xs" using assms(1) [of "Suc (Suc i)" draw] Suc.prems by simp
  have "length (swap_at (Suc i) (rnd draw (Suc (Suc i))) xs) = length xs" by (simp add: swap_at_def)
  with Suc j show ?case by (simp add: mset_swap_at)
qed simp

section \<open>Rendering and verification\<close>

text \<open>The event of a delivery after its trip through JSON, which turns integers and times into floats and strings.\<close>

definition received :: "fake \<Rightarrow> pending \<Rightarrow> change_event" where
  "received f p = (json_event (pn_event p))\<lparr>ev_source := fk_name f, ev_delivery_id := pn_deliv_id p\<rparr>"

lemma headers_of_delivery [simp]:
  "header_of [(HeaderTimestamp, a), (HeaderSignature, b), (HeaderDelivery, c)] HeaderTimestamp = a"
  "header_of [(HeaderTimestamp, a), (HeaderSignature, b), (HeaderDelivery, c)] HeaderSignature = b"
  "header_of [(HeaderTimestamp, a), (HeaderSignature, b), (HeaderDelivery, c)] HeaderDelivery = c"
  by (simp_all add: header_of_def HeaderTimestamp_def HeaderSignature_def HeaderDelivery_def)

lemma render_deliveries_map:
  "render_deliveries lib secret ts ps = Some ds \<Longrightarrow>
   list_all2 (\<lambda>p d. \<exists>body. lib_encode lib [pn_event p] = Inr body \<and>
     d = \<lparr>dl_id = pn_deliv_id p, dl_body = body,
          dl_headers = [(HeaderTimestamp, itoa ts), (HeaderSignature, sign lib secret ts body), (HeaderDelivery, pn_deliv_id p)]\<rparr>) ps ds"
  by (induction ps arbitrary: ds) (auto split: sum.splits)

text \<open>A delivery is fresh while the time it was signed at lies within the window.\<close>

lemma signed_age:
  assumes "unix_epoch \<le> t" "t div second < 2 ^ 63" "t \<le> t'" "t' - t \<le> SignatureWindow - second"
  shows "parse_int (itoa (unix_seconds t)) = Some (unix_seconds t)"
    and "0 \<le> time_sub t' (time_unix (unix_seconds t))" "time_sub t' (time_unix (unix_seconds t)) \<le> SignatureWindow"
proof -
  have "second > 0" "SignatureWindow = 300 * second" "(0::int) \<le> unix_epoch div second"
    by (simp_all add: SignatureWindow_def unix_epoch_def)
  moreover have le: "unix_epoch div second \<le> t div second" using assms(1) by (simp add: zdiv_mono1)
  ultimately show "parse_int (itoa (unix_seconds t)) = Some (unix_seconds t)"
    using assms(2) by (intro parse_itoa) (simp_all add: unix_seconds_def)
  have "time_unix (unix_seconds t) = t div second * second"
    using assms(2) le \<open>0 \<le> unix_epoch div second\<close> by (simp add: time_unix_def unix_seconds_def wrap64_id int64_def)
  then have "t' - time_unix (unix_seconds t) = t' - t + t mod second" by (simp add: minus_div_mult_eq_mod [symmetric])
  moreover have "0 \<le> t mod second" "t mod second < second" by simp_all
  ultimately show "0 \<le> time_sub t' (time_unix (unix_seconds t))" "time_sub t' (time_unix (unix_seconds t)) \<le> SignatureWindow"
    using assms(3,4) by (simp_all add: time_sub_def)
qed

lemma verify_own:
  assumes "cap_webhooks (fk_caps f)" "lib_decode lib body = Inr evs" "unix_epoch \<le> t" "t div second < 2 ^ 63"
    and "t \<le> fake_now now f" "fake_now now f - t \<le> SignatureWindow - second"
  shows "VerifyWebhook lib now (header_of [(HeaderTimestamp, itoa (unix_seconds t)),
      (HeaderSignature, sign lib (fk_secret f) (unix_seconds t) body), (HeaderDelivery, i)]) body f =
    Inr (map (\<lambda>e. e\<lparr>ev_source := fk_name f, ev_delivery_id := i\<rparr>) evs)"
  using assms(1,2) signed_age [OF assms(3-6)]
  by (simp add: VerifyWebhook_def Let_def)


section \<open>Properties\<close>

lemma verify_cong:
  "fk_caps f' = fk_caps f \<Longrightarrow> fk_name f' = fk_name f \<Longrightarrow> fk_secret f' = fk_secret f \<Longrightarrow> fk_faults f' = fk_faults f \<Longrightarrow>
   VerifyWebhook lib now header body f' = VerifyWebhook lib now header body f"
  by (simp add: VerifyWebhook_def Errorf_def fake_now_def Let_def cong: if_cong option.case_cong sum.case_cong)

lemma drained_verified:
  assumes "render_deliveries lib (fk_secret f) (unix_seconds (fake_now now f)) ps = Some ds" and "cap_webhooks (fk_caps f)"
    and "\<And>p body. p \<in> set ps \<Longrightarrow> lib_encode lib [pn_event p] = Inr body \<Longrightarrow> lib_decode lib body = Inr [json_event (pn_event p)]"
    and "unix_epoch \<le> fake_now now f" "fake_now now f div second < 2 ^ 63" "now \<le> now'" "now' - now \<le> SignatureWindow - second"
  shows "map (\<lambda>d. VerifyWebhook lib now' (header_of (dl_headers d)) (dl_body d) f) ds = map (\<lambda>p. Inr [received f p]) ps"
  using render_deliveries_map [OF assms(1)] assms(3)
proof (induction rule: list_all2_induct)
  case (Cons p ps d ds)
  then obtain body where "lib_encode lib [pn_event p] = Inr body"
    "d = \<lparr>dl_id = pn_deliv_id p, dl_body = body, dl_headers = [(HeaderTimestamp, itoa (unix_seconds (fake_now now f))),
       (HeaderSignature, sign lib (fk_secret f) (unix_seconds (fake_now now f)) body), (HeaderDelivery, pn_deliv_id p)]\<rparr>" by blast
  moreover from this have "lib_decode lib body = Inr [json_event (pn_event p)]" using Cons.prems by simp
  note verify_own [OF assms(2) this assms(4,5), of now' "pn_deliv_id p"]
  ultimately show ?case using Cons.IH Cons.prems assms(6,7) by (simp add: fake_now_def received_def)
qed simp


text \<open>An instance: one deletion waits, its body is the remote identifier.\<close>

definition example_lib :: stdlib where
  "example_lib =
     \<lparr>lib_mac = (\<lambda>k m. k @ ''|'' @ m),
      lib_encode = (\<lambda>evs. case evs of [ev] \<Rightarrow> if ev = delete_event ''contact'' (ev_remote_id ev) then Inr (ev_remote_id ev)
                                       else Inl (ErrText ''other'') | _ \<Rightarrow> Inl (ErrText ''other'')),
      lib_decode = (\<lambda>body. Inr [delete_event ''contact'' body]), lib_float = (\<lambda>_. 0), lib_int = (\<lambda>d n. n - 1)\<rparr>"

definition example_caps :: caps where
  "example_caps = \<lparr>cap_native_idempotency = True, cap_webhooks = True, cap_soft_delete = False, cap_etags = True,
     cap_max_page_size = 0, cap_modified_at_exact = True\<rparr>"

definition example_sender :: fake where
  "example_sender = (fake_New ''crm'' example_caps '''' [] no_faults)\<lparr>fk_queue :=
     [\<lparr>pn_event = delete_event ''contact'' ''7'', pn_due_at = unix_epoch, pn_seq = 1, pn_deliv_id = ''crm-d1''\<rparr>,
      \<lparr>pn_event = delete_event ''contact'' ''8'', pn_due_at = unix_epoch + hour, pn_seq = 2, pn_deliv_id = ''crm-d2''\<rparr>]\<rparr>"


text \<open>
  The age of a delivery is negated when it is negative, but the smallest duration, which
  \<^verbatim>\<open>Time.Sub\<close> gives for every instant too far ahead, stays negative: a signed delivery from more
  than 292 years in the future is accepted although the window is five minutes.
\<close>

theorem far_future_delivery_accepted:
  assumes "cap_webhooks (fk_caps f)" "header HeaderTimestamp = itoa ts" "0 \<le> ts" "ts < 2 ^ 63"
    and "header HeaderSignature = sign lib (fk_secret f) ts body" "lib_decode lib body = Inr evs"
    and "time_unix ts - fake_now now f > 2 ^ 63"
  shows "VerifyWebhook lib now header body f = Inr (map (\<lambda>e. e\<lparr>ev_source := fk_name f, ev_delivery_id := header HeaderDelivery\<rparr>) evs)"
proof -
  have "time_sub (fake_now now f) (time_unix ts) = - (2 ^ 63)" using assms(7) by (simp add: time_sub_def)
  then show ?thesis
    using assms(1-6) by (simp add: VerifyWebhook_def Let_def parse_itoa wrap64_def SignatureWindow_def)
qed

theorem far_future_delivery_accepted_witness:
  "VerifyWebhook example_lib unix_epoch (header_of [(HeaderTimestamp, itoa 20000000000),
     (HeaderSignature, sign example_lib ''fake-secret'' 20000000000 ''7''), (HeaderDelivery, ''d'')]) ''7'' example_sender =
   Inr [(delete_event ''contact'' ''7'')\<lparr>ev_source := ''crm'', ev_delivery_id := ''d''\<rparr>]"
  using far_future_delivery_accepted [of example_sender "header_of [(HeaderTimestamp, itoa 20000000000),
     (HeaderSignature, sign example_lib ''fake-secret'' 20000000000 ''7''), (HeaderDelivery, ''d'')]" 20000000000 example_lib "''7''"
     "[delete_event ''contact'' ''7'']" unix_epoch]
  by (simp add: example_sender_def fake_New_def example_caps_def example_lib_def time_unix_def fake_now_def no_faults_def unix_epoch_def wrap64_def)

end
