(* ===== verification/Conformance.thy ===== *)
theory Conformance
  imports Fake_Webhooks
begin

text \<open>
  \<^verbatim>\<open>internal/connector/connectortest/conformance.go\<close>: the suite every connector must pass, as
  functions on the connector it drives, and the proof that the fake passes it. A subtest ends
  without a result, fails with a message or is skipped; of a message the values it prints at its
  end are left out. A subtest is given the connector under a live context and under a cancelled
  one, the reading of the connector's clock at each of its calls, and the time of the machine.
\<close>

section \<open>The suite\<close>

datatype stop = Fatal string | Skipped string

record 'w suite =
  su_name :: string
  su_peer :: string
  su_kind :: string
  su_new :: 'w
  su_field :: string
  su_value :: "(int \<Rightarrow> string) option"
  su_sign :: "(gotime \<Rightarrow> ('w, stop, request) st) option"

record 'w bench =
  be_ops :: "bool \<Rightarrow> 'w conn_ops"
  be_clock :: "nat \<Rightarrow> gotime"
  be_wall :: gotime

type_synonym ('w, 'a) step = "('w, stop, 'a) st"

definition require :: "bool \<Rightarrow> string \<Rightarrow> ('w, unit) step" where
  "require b msg = (if b then ret () else throw (Fatal msg))"

text \<open>A call whose failure ends the subtest, and one whose error is looked at.\<close>

definition must :: "string \<Rightarrow> ('w, gerr, 'a) st \<Rightarrow> ('w, 'a) step" where
  "must what m w = (case m w of (Inl err, w') \<Rightarrow> (Inl (Fatal (what @ '': '' @ err_text err)), w') | (Inr x, w') \<Rightarrow> (Inr x, w'))"

definition error_of :: "('w, gerr, 'a) st \<Rightarrow> ('w, gerr option) step" where
  "error_of m w = (case m w of (Inl err, w') \<Rightarrow> (Inr (Some err), w') | (Inr x, w') \<Rightarrow> (Inr None, w'))"

text \<open>\<^verbatim>\<open>errors.Is(err, context.Canceled)\<close>.\<close>

fun is_cancelled :: "gerr \<Rightarrow> bool" where
  "is_cancelled ErrCtx = True"
| "is_cancelled (ErrConn c p k r e) = is_cancelled e"
| "is_cancelled (ErrWrap s e) = is_cancelled e"
| "is_cancelled (ErrPermanent e) = is_cancelled e"
| "is_cancelled (ErrJoin es) = list_ex is_cancelled es"
| "is_cancelled _ = False"

definition value_of :: "'w suite \<Rightarrow> int \<Rightarrow> string" where
  "value_of s i = (case su_value s of Some f \<Rightarrow> f i | None \<Rightarrow> ''conformance-'' @ itoa i)"

definition suite_record :: "'w suite \<Rightarrow> string \<Rightarrow> int \<Rightarrow> crm_record" where
  "suite_record s rid i =
     \<lparr>r_kind = su_kind s, r_remote_id = rid, r_fields = [(su_field s, VStr (value_of s i))], r_updated_at = zero_time, r_version = ''''\<rparr>"

definition field_text :: "'w suite \<Rightarrow> crm_record \<Rightarrow> string" where
  "field_text s r = sprint (case map_of (r_fields r) (su_field s) of None \<Rightarrow> VNil | Some v \<Rightarrow> v)"

definition containsID :: "crm_record list \<Rightarrow> string \<Rightarrow> bool" where
  "containsID records rid \<longleftrightarrow> list_ex (\<lambda>r. r_remote_id r = rid) records"

text \<open>Reading stops at the first error; what was read before it is no part of the request here.\<close>

definition readBody :: "request \<Rightarrow> string" where
  "readBody rq = (case rq_body rq of Inr b \<Rightarrow> b | Inl _ \<Rightarrow> '''')"

definition suite_upsert :: "'w suite \<Rightarrow> 'w bench \<Rightarrow> nat \<Rightarrow> crm_record \<Rightarrow> string \<Rightarrow> ('w, gerr, write_result) st" where
  "suite_upsert s b i rec key = co_upsert (be_ops b False) (su_peer s) (be_clock b i) (su_kind s) rec key"

definition suite_get :: "'w suite \<Rightarrow> 'w bench \<Rightarrow> nat \<Rightarrow> string \<Rightarrow> ('w, gerr, crm_record) st" where
  "suite_get s b i rid = co_get (be_ops b False) (su_peer s) (be_clock b i) (su_kind s) rid"

definition suite_list :: "'w suite \<Rightarrow> 'w bench \<Rightarrow> nat \<Rightarrow> gotime \<Rightarrow> string \<Rightarrow> ('w, gerr, page) st" where
  "suite_list s b i since cursor = co_list (be_ops b False) (su_peer s) (be_clock b i) (su_kind s) since cursor"

definition suite_delete :: "'w suite \<Rightarrow> 'w bench \<Rightarrow> nat \<Rightarrow> string \<Rightarrow> string \<Rightarrow> ('w, gerr, unit) st" where
  "suite_delete s b i rid key = co_delete (be_ops b False) (su_peer s) (be_clock b i) (su_kind s) rid key"

definition suite_caps :: "'w suite \<Rightarrow> 'w bench \<Rightarrow> caps" where
  "suite_caps s b = co_caps (be_ops b False) (su_peer s)"

lemmas suite_calls = suite_upsert_def suite_get_def suite_list_def suite_delete_def

section \<open>The subtests\<close>

definition testDescribe :: "'w suite \<Rightarrow> 'w bench \<Rightarrow> ('w, unit) step" where
  "testDescribe s b =
     andThen (must ''Describe'' (co_describe (be_ops b False) (su_peer s) (be_clock b 0) (su_kind s))) (\<lambda>sch.
     andThen (require (sc_kind sch = su_kind s) ''Describe reported another kind'') (\<lambda>_.
     andThen (require (schema_field sch (su_field s) \<noteq> None) ''schema has no such field'') (\<lambda>_.
     andThen (error_of (co_describe (be_ops b False) (su_peer s) (be_clock b 1) ''definitely-not-an-object'')) (\<lambda>err.
     andThen (require (err \<noteq> None) ''Describe of an unknown kind succeeded'') (\<lambda>_.
     require (IsNotFound err) ''Describe of an unknown kind, want not_found'')))))"

definition testUpsertCreatesAndGetReads :: "'w suite \<Rightarrow> 'w bench \<Rightarrow> ('w, unit) step" where
  "testUpsertCreatesAndGetReads s b =
     andThen (must ''Upsert'' (suite_upsert s b 0 (suite_record s '''' 1) ''conformance-create-1'')) (\<lambda>res.
     andThen (require (wr_remote_id res \<noteq> '''') ''Upsert returned an empty remote ID'') (\<lambda>_.
     andThen (require (wr_created res) ''Upsert of a new record reported Created = false'') (\<lambda>_.
     andThen (must ''Get'' (suite_get s b 1 (wr_remote_id res))) (\<lambda>got.
     andThen (require (r_remote_id got = wr_remote_id res) ''Get returned another record'') (\<lambda>_.
     andThen (require (field_text s got = value_of s 1) ''field did not round-trip'') (\<lambda>_.
     andThen (require (r_updated_at got \<noteq> zero_time)
       ''Get returned a record with no modification time; watermarks need one'') (\<lambda>_.
     require (\<not> (cap_etags (suite_caps s b) \<and> r_version got = ''''))
       ''connector claims ETags but returned no version'')))))))"

definition testUpsertWithIDUpdates :: "'w suite \<Rightarrow> 'w bench \<Rightarrow> ('w, unit) step" where
  "testUpsertWithIDUpdates s b =
     andThen (must ''Upsert'' (suite_upsert s b 0 (suite_record s '''' 1) ''conformance-update-1'')) (\<lambda>first.
     andThen (must ''Upsert with an ID'' (suite_upsert s b 1 (suite_record s (wr_remote_id first) 2) ''conformance-update-2'')) (\<lambda>second.
     andThen (require (\<not> wr_created second) ''Upsert with an existing ID reported Created = true'') (\<lambda>_.
     andThen (require (wr_remote_id second = wr_remote_id first) ''update moved the record'') (\<lambda>_.
     andThen (must ''Get'' (suite_get s b 2 (wr_remote_id first))) (\<lambda>got.
     require (field_text s got = value_of s 2) ''update did not stick'')))))"

definition testListChangedSeesTheWrite :: "'w suite \<Rightarrow> 'w bench \<Rightarrow> ('w, unit) step" where
  "testListChangedSeesTheWrite s b =
     andThen (must ''Upsert'' (suite_upsert s b 0 (suite_record s '''' 1) ''conformance-list-1'')) (\<lambda>res.
     andThen (must ''ListChanged'' (suite_list s b 1 zero_time '''')) (\<lambda>page.
     andThen (require (containsID (pg_records page) (wr_remote_id res)) ''a record written a moment ago is not in the delta read'') (\<lambda>_.
     andThen (must ''ListChanged(future)'' (suite_list s b 2 (be_wall b + 24 * hour) '''')) (\<lambda>future.
     require (pg_records future = []) ''a watermark 24h in the future still returned records''))))"

fun upsert_each :: "'w suite \<Rightarrow> 'w bench \<Rightarrow> nat list \<Rightarrow> ('w, string list) step" where
  "upsert_each s b [] = ret []"
| "upsert_each s b (i # is) =
     andThen (must (''Upsert '' @ itoa (int i))
       (suite_upsert s b i (suite_record s '''' (int i)) (''conformance-page-'' @ itoa (int i)))) (\<lambda>res.
     andThen (upsert_each s b is) (\<lambda>rids. ret (wr_remote_id res # rids)))"

text \<open>The identifiers of all pages, a page after another until one has no cursor.\<close>

function page_all :: "'w suite \<Rightarrow> 'w bench \<Rightarrow> nat \<Rightarrow> nat \<Rightarrow> string \<Rightarrow> string list \<Rightarrow> 'w \<Rightarrow> (stop + string list) \<times> 'w" where
  "page_all s b n pages cursor seen w =
     (if pages > n + 5 then (Inl (Fatal ''paging did not terminate''), w)
      else andThen (must (''ListChanged(page '' @ itoa (int pages) @ '')'') (suite_list s b (n + pages) zero_time cursor)) (\<lambda>page.
             let seen' = seen @ map r_remote_id (pg_records page)
             in if pg_cursor page = '''' then ret seen'
                else page_all s b n (pages + 1) (pg_cursor page) seen') w)"
  by pat_completeness auto
termination by (relation "measure (\<lambda>(s, b, n, pages, cursor, seen, w). n + 6 - pages)") auto

declare page_all.simps [simp del]

definition seen_once :: "string list \<Rightarrow> string \<Rightarrow> ('w, unit) step" where
  "seen_once seen rid =
     andThen (require (count_list seen rid \<noteq> 0) (''record '' @ quoted rid @ '' was never returned by paging'')) (\<lambda>_.
     require (count_list seen rid = 1) (''record '' @ quoted rid @ '' was returned several times across pages''))"

definition testPagingCoversEverythingOnce :: "'w suite \<Rightarrow> 'w bench \<Rightarrow> ('w, unit) step" where
  "testPagingCoversEverythingOnce s b =
     andThen (upsert_each s b [0..<7]) (\<lambda>want.
     andThen (page_all s b 7 0 '''' []) (\<lambda>seen. for_each (seen_once seen) (remdups want)))"

definition testGetAbsentIsNotFound :: "'w suite \<Rightarrow> 'w bench \<Rightarrow> ('w, unit) step" where
  "testGetAbsentIsNotFound s b =
     andThen (error_of (suite_get s b 0 ''definitely-not-a-real-id'')) (\<lambda>err.
     andThen (require (err \<noteq> None) ''Get of an absent record succeeded'') (\<lambda>_.
     require (IsNotFound err) ''Get of an absent record, want not_found''))"

definition testDeleteIsRepeatable :: "'w suite \<Rightarrow> 'w bench \<Rightarrow> ('w, unit) step" where
  "testDeleteIsRepeatable s b =
     andThen (must ''Upsert'' (suite_upsert s b 0 (suite_record s '''' 1) ''conformance-delete-1'')) (\<lambda>res.
     andThen (must ''Delete'' (suite_delete s b 1 (wr_remote_id res) ''conformance-delete-key'')) (\<lambda>_.
     andThen (error_of (suite_get s b 2 (wr_remote_id res))) (\<lambda>err.
     andThen (require (IsNotFound err) ''record is still readable after Delete'') (\<lambda>_.
     must ''deleting an already-deleted record failed'' (suite_delete s b 3 (wr_remote_id res) ''conformance-delete-key'')))))"

definition testIdempotency :: "'w suite \<Rightarrow> 'w bench \<Rightarrow> ('w, unit) step" where
  "testIdempotency s b =
     (if \<not> cap_native_idempotency (suite_caps s b)
      then throw (Skipped (su_name s @ '' does not claim native idempotency; the engine supplies the fallback''))
      else
        andThen (must ''first Upsert'' (suite_upsert s b 0 (suite_record s '''' 1) ''conformance-idem-1'')) (\<lambda>first.
        andThen (must ''replayed Upsert'' (suite_upsert s b 1 (suite_record s '''' 1) ''conformance-idem-1'')) (\<lambda>second.
        andThen (require (wr_remote_id second = wr_remote_id first) ''replaying an idempotency key created a second record'') (\<lambda>_.
        require (wr_created second) ''a replayed key reported Created = false; it must report the original outcome''))))"

definition suite_verify :: "'w suite \<Rightarrow> 'w bench \<Rightarrow> nat \<Rightarrow> (string \<Rightarrow> string) \<Rightarrow> string \<Rightarrow> ('w, gerr, change_event list) st" where
  "suite_verify s b i header body = co_verify (be_ops b False) (su_peer s) (be_clock b i) header body"

definition testWebhookRejectsTamperedBody :: "'w suite \<Rightarrow> 'w bench \<Rightarrow> ('w, unit) step" where
  "testWebhookRejectsTamperedBody s b =
     (case (if cap_webhooks (suite_caps s b) then su_sign s else None) of
        None \<Rightarrow> throw (Skipped (su_name s @ '' does not accept webhooks''))
      | Some sign_delivery \<Rightarrow>
          andThen (sign_delivery (be_clock b 0)) (\<lambda>rq.
          andThen (must ''a correctly signed delivery was rejected'' (suite_verify s b 1 (rq_header rq) (readBody rq))) (\<lambda>_.
          andThen (error_of (suite_verify s b 2 (rq_header rq) (readBody rq @ '' ''))) (\<lambda>err.
          andThen (require (err \<noteq> None) ''a tampered body passed verification'') (\<lambda>_.
          andThen (require (KindOf err = KindAuth) ''tampered body, want auth'') (\<lambda>_.
          andThen (sign_delivery (be_clock b 3)) (\<lambda>stripped.
          andThen (error_of (suite_verify s b 4 ((rq_header stripped)(''X-Fake-Signature'' := '''', ''Signature'' := '''')) (readBody stripped)))
            (\<lambda>err'. require (err' \<noteq> None) ''a delivery with no signature passed verification''))))))))"

definition testContextCancellation :: "'w suite \<Rightarrow> 'w bench \<Rightarrow> ('w, unit) step" where
  "testContextCancellation s b =
     andThen (error_of (co_list (be_ops b True) (su_peer s) (be_clock b 0) (su_kind s) zero_time '''')) (\<lambda>err.
     andThen (require (err \<noteq> None) ''ListChanged ignored a cancelled context'') (\<lambda>_.
     require (is_cancelled (the err)) ''ListChanged, want context.Canceled''))"

definition subtests :: "(string \<times> ('w suite \<Rightarrow> 'w bench \<Rightarrow> ('w, unit) step)) list" where
  "subtests =
     [(''Describe'', testDescribe), (''UpsertCreatesAndGetReads'', testUpsertCreatesAndGetReads),
      (''UpsertWithIDUpdates'', testUpsertWithIDUpdates), (''ListChangedSeesTheWrite'', testListChangedSeesTheWrite),
      (''ListChangedPagesCoverEverythingOnce'', testPagingCoversEverythingOnce),
      (''GetOfAbsentRecordIsNotFound'', testGetAbsentIsNotFound), (''DeleteRemovesAndIsRepeatable'', testDeleteIsRepeatable),
      (''IdempotencyKeyIsHonoured'', testIdempotency), (''WebhookRejectsATamperedBody'', testWebhookRejectsTamperedBody),
      (''ContextCancellationIsRespected'', testContextCancellation)]"

text \<open>Each subtest has a new connector.\<close>

definition suite_Run :: "'w suite \<Rightarrow> 'w bench \<Rightarrow> (string \<times> (stop + unit)) list" where
  "suite_Run s b = map (\<lambda>(name, t). (su_name s @ ''/'' @ name, fst (t s b (su_new s)))) subtests"

section \<open>A connector that keeps its promise\<close>

text \<open>
  What the suite needs beyond \<open>crm_connector\<close>: an answered key is one that was sent, a write is dated
  by the peer's clock, a page before the last one is not empty.
\<close>

locale suite_connector = crm_connector ops n ok reads used schemas
  for ops :: "'w conn_ops" and n ok reads used schemas +
  fixes date :: "'w \<Rightarrow> gotime \<Rightarrow> gotime" and can :: "'w \<Rightarrow> caps"
  assumes described: "ok w \<Longrightarrow> schemas (snd (co_describe ops n now kind w)) = schemas w"
    and filled: "ok w \<Longrightarrow> co_list ops n now kind since cursor w = (Inr p, w') \<Longrightarrow> HasMore p \<Longrightarrow> pg_records p \<noteq> []"
    and keys: "ok w \<Longrightarrow> \<not> used w key \<Longrightarrow> co_upsert ops n now kind rec key w = (Inr res, w') \<Longrightarrow>
        date w' = date w \<and> (\<forall>k. used w' k \<longrightarrow> used w k \<or> k = key) \<and>
        (cap_native_idempotency (can w) \<and> key \<noteq> '''' \<longrightarrow> used w' key)"
    and dated: "ok w \<Longrightarrow> \<not> used w key \<Longrightarrow> r_remote_id rec = '''' \<Longrightarrow> co_upsert ops n now kind rec key w = (Inr res, w') \<Longrightarrow>
        reads w' kind (wr_remote_id res) = Some r \<Longrightarrow>
        r_updated_at r = date w now \<and> (cap_etags (can w) \<longrightarrow> r_version r \<noteq> '''')"

lemma must_Inr [simp]: "m w = (Inr x, w') \<Longrightarrow> must what m w = (Inr x, w')"
  by (simp add: must_def)

lemma error_of_Inl [simp]: "m w = (Inl err, w') \<Longrightarrow> error_of m w = (Inr (Some err), w')"
  by (simp add: error_of_def)

lemma require_True [simp]: "require True msg = ret ()"
  by (simp add: require_def)

lemma andThen_run: "m w = (Inr x, w') \<Longrightarrow> andThen m f w = f x w'"
  by (simp add: andThen_def)

lemma suite_record_simps [simp]:
  "r_remote_id (suite_record s rid i) = rid" "r_fields (suite_record s rid i) = [(su_field s, VStr (value_of s i))]"
  "wf_map (r_fields (suite_record s rid i))"
  by (simp_all add: suite_record_def wf_map_def)

lemma field_text_written: "map_of (r_fields r) (su_field s) = Some (VStr v) \<Longrightarrow> field_text s r = v"
  by (simp add: field_text_def)

lemma count_list_distinct: "distinct xs \<Longrightarrow> x \<in> set xs \<Longrightarrow> count_list xs x = 1"
  by (induction xs) (auto simp: count_notin)

lemma for_each_pass: "(\<And>x. x \<in> set xs \<Longrightarrow> f x = ret ()) \<Longrightarrow> for_each f xs = ret ()"
  by (induction xs) (simp_all add: ret_def)

context suite_connector
begin

lemma create_ok:
  assumes "ok w" "\<not> used w key"
  obtains res w' r where "co_upsert ops n now kind (suite_record s '''' i) key w = (Inr res, w')" "ok w'" "wr_created res"
    "wr_remote_id res \<noteq> ''''" "\<forall>k. reads w k (wr_remote_id res) = None" "reads w' kind (wr_remote_id res) = Some r"
    "map_of (r_fields r) (su_field s) = Some (VStr (value_of s i))" "r_updated_at r = date w now"
    "cap_etags (can w) \<longrightarrow> r_version r \<noteq> ''''" "date w' = date w" "\<forall>k. used w' k \<longrightarrow> used w k \<or> k = key"
    "cap_native_idempotency (can w) \<and> key \<noteq> '''' \<longrightarrow> used w' key"
    "\<forall>k j. (k, j) \<noteq> (kind, wr_remote_id res) \<longrightarrow> reads w' k j = reads w k j"
proof -
  let ?rec = "suite_record s '''' i"
  obtain res w' r where u: "co_upsert ops n now kind ?rec key w = (Inr res, w')" "ok w'" "wr_created res"
    "wr_remote_id res \<noteq> ''''" "\<forall>k. reads w k (wr_remote_id res) = None" "reads w' kind (wr_remote_id res) = Some r"
    "map_of (r_fields r) = (case reads w kind (wr_remote_id res) of None \<Rightarrow> Map.empty | Some old \<Rightarrow> map_of (r_fields old))
       ++ map_of (r_fields ?rec)"
    "\<forall>k j. (k, j) \<noteq> (kind, wr_remote_id res) \<longrightarrow> reads w' k j = reads w k j"
    using upsert_ok [OF assms suite_record_simps(3), of s "''''" i kind now] by auto
  show thesis
    using that [OF u(1-6)] u(7,8) keys [OF assms u(1)] dated [OF assms suite_record_simps(1) u(1,6)] by simp
qed

lemma get_found:
  assumes "ok w" "reads w kind rid = Some r"
  obtains w' where "co_get ops n now kind rid w = (Inr r, w')" "ok w'" "reads w' = reads w"
  using get_ok [OF assms(1), of now kind rid] assms(2) by auto

lemma get_gone:
  assumes "ok w" "reads w kind rid = None"
  obtains err w' where "co_get ops n now kind rid w = (Inl err, w')" "not_found err" "ok w'" "reads w' = reads w"
  using get_ok [OF assms(1), of now kind rid] assms(2) by auto

definition bench_for :: "'w suite \<Rightarrow> 'w bench \<Rightarrow> bool" where
  "bench_for s b \<longleftrightarrow> be_ops b False = ops \<and> su_peer s = n \<and> ok (su_new s) \<and> (\<forall>key. \<not> used (su_new s) key)"

lemma passes_Describe:
  assumes "bench_for s b" "schemas (su_new s) (su_kind s) = Some sch" "sc_kind sch = su_kind s"
    and "schema_field sch (su_field s) \<noteq> None" "schemas (su_new s) ''definitely-not-an-object'' = None"
  shows "fst (testDescribe s b (su_new s)) = Inr ()"
proof -
  have b: "be_ops b False = ops" "su_peer s = n" "ok (su_new s)" using assms(1) by (simp_all add: bench_for_def)
  obtain w where w: "co_describe ops n (be_clock b 0) (su_kind s) (su_new s) = (Inr sch, w)" "ok w"
    using describe_ok [OF b(3), of "be_clock b 0" "su_kind s"] assms(2) by auto
  have "schemas w ''definitely-not-an-object'' = None"
    using described [OF b(3), of "be_clock b 0" "su_kind s"] w(1) assms(5) by simp
  then obtain err w' where "co_describe ops n (be_clock b 1) ''definitely-not-an-object'' w = (Inl err, w')" "not_found err"
    using describe_ok [OF w(2), of "be_clock b 1" "''definitely-not-an-object''"] by auto
  with w(1) assms(3,4) show ?thesis by (simp add: testDescribe_def b andThen_run IsNotFound_def not_found_def)
qed

lemma passes_UpsertCreatesAndGetReads:
  assumes "bench_for s b" "suite_caps s b = can (su_new s)" "date (su_new s) (be_clock b 0) \<noteq> zero_time"
  shows "fst (testUpsertCreatesAndGetReads s b (su_new s)) = Inr ()"
proof -
  have b: "be_ops b False = ops" "su_peer s = n" "ok (su_new s)" "\<not> used (su_new s) ''conformance-create-1''"
    using assms(1) by (simp_all add: bench_for_def)
  obtain res w r where u: "co_upsert ops n (be_clock b 0) (su_kind s) (suite_record s '''' 1) ''conformance-create-1'' (su_new s) = (Inr res, w)"
    "ok w" "wr_created res" "wr_remote_id res \<noteq> ''''" "reads w (su_kind s) (wr_remote_id res) = Some r"
    "map_of (r_fields r) (su_field s) = Some (VStr (value_of s 1))" "r_updated_at r = date (su_new s) (be_clock b 0)"
    "cap_etags (can (su_new s)) \<longrightarrow> r_version r \<noteq> ''''"
    by (rule create_ok [OF b(3,4), of "be_clock b 0" "su_kind s" s 1]) (rule that; assumption)
  obtain w' where "co_get ops n (be_clock b 1) (su_kind s) (wr_remote_id res) w = (Inr r, w')"
    by (rule get_found [OF u(2,5)])
  with u(1,3,4,6,7,8) identified [OF u(2,5)] assms(2,3) show ?thesis
    by (simp add: testUpsertCreatesAndGetReads_def suite_calls b andThen_run field_text_written)
qed

lemma passes_UpsertWithIDUpdates:
  assumes "bench_for s b"
  shows "fst (testUpsertWithIDUpdates s b (su_new s)) = Inr ()"
proof -
  have b: "be_ops b False = ops" "su_peer s = n" "ok (su_new s)" "\<not> used (su_new s) ''conformance-update-1''"
    "\<not> used (su_new s) ''conformance-update-2''"
    using assms by (simp_all add: bench_for_def)
  obtain first w r where u: "co_upsert ops n (be_clock b 0) (su_kind s) (suite_record s '''' 1) ''conformance-update-1'' (su_new s) = (Inr first, w)"
    "ok w" "wr_remote_id first \<noteq> ''''" "reads w (su_kind s) (wr_remote_id first) = Some r"
    "\<forall>k. used w k \<longrightarrow> used (su_new s) k \<or> k = ''conformance-update-1''"
    by (rule create_ok [OF b(3,4), of "be_clock b 0" "su_kind s" s 1]) (rule that; assumption)
  have new: "\<not> used w ''conformance-update-2''" using u(5) b(5) by fastforce
  let ?rec = "suite_record s (wr_remote_id first) 2"
  obtain second w' r' where v: "co_upsert ops n (be_clock b 1) (su_kind s) ?rec ''conformance-update-2'' w = (Inr second, w')"
    "ok w'" "wr_remote_id second = wr_remote_id first" "\<not> wr_created second" "reads w' (su_kind s) (wr_remote_id second) = Some r'"
    "map_of (r_fields r') (su_field s) = Some (VStr (value_of s 2))"
    using upsert_ok [OF u(2) new suite_record_simps(3), of s "wr_remote_id first" 2 "su_kind s" "be_clock b 1"] u(3,4) by auto
  obtain w'' where "co_get ops n (be_clock b 2) (su_kind s) (wr_remote_id first) w' = (Inr r', w'')"
    using get_found [OF v(2,5)] v(3) by metis
  with u(1) v show ?thesis
    by (simp add: testUpsertWithIDUpdates_def suite_calls b andThen_run field_text_written)
qed

lemma passes_GetAbsentIsNotFound:
  assumes "bench_for s b" "reads (su_new s) (su_kind s) ''definitely-not-a-real-id'' = None"
  shows "fst (testGetAbsentIsNotFound s b (su_new s)) = Inr ()"
proof -
  have b: "be_ops b False = ops" "su_peer s = n" "ok (su_new s)" using assms(1) by (simp_all add: bench_for_def)
  obtain err w where "co_get ops n (be_clock b 0) (su_kind s) ''definitely-not-a-real-id'' (su_new s) = (Inl err, w)" "not_found err"
    by (rule get_gone [OF b(3) assms(2)])
  then show ?thesis by (simp add: testGetAbsentIsNotFound_def suite_calls b andThen_run IsNotFound_def not_found_def)
qed

lemma passes_DeleteIsRepeatable:
  assumes "bench_for s b"
  shows "fst (testDeleteIsRepeatable s b (su_new s)) = Inr ()"
proof -
  have b: "be_ops b False = ops" "su_peer s = n" "ok (su_new s)" "\<not> used (su_new s) ''conformance-delete-1''"
    using assms by (simp_all add: bench_for_def)
  obtain res w where u: "co_upsert ops n (be_clock b 0) (su_kind s) (suite_record s '''' 1) ''conformance-delete-1'' (su_new s) = (Inr res, w)" "ok w"
    by (rule create_ok [OF b(3,4), of "be_clock b 0" "su_kind s" s 1]) (rule that; assumption)
  obtain w1 where d: "co_delete ops n (be_clock b 1) (su_kind s) (wr_remote_id res) ''conformance-delete-key'' w = (Inr (), w1)"
    "ok w1" "reads w1 (su_kind s) (wr_remote_id res) = None"
    using delete_ok [OF u(2)] by blast
  obtain err w2 where g: "co_get ops n (be_clock b 2) (su_kind s) (wr_remote_id res) w1 = (Inl err, w2)" "not_found err" "ok w2"
    by (rule get_gone [OF d(2,3)])
  obtain w3 where "co_delete ops n (be_clock b 3) (su_kind s) (wr_remote_id res) ''conformance-delete-key'' w2 = (Inr (), w3)"
    using delete_ok [OF g(3)] by blast
  with u(1) d(1) g(1,2) show ?thesis
    by (simp add: testDeleteIsRepeatable_def suite_calls b andThen_run IsNotFound_def not_found_def)
qed

lemma passes_Idempotency:
  assumes "bench_for s b" "suite_caps s b = can (su_new s)"
  shows "fst (testIdempotency s b (su_new s)) =
    (if cap_native_idempotency (can (su_new s)) then Inr ()
     else Inl (Skipped (su_name s @ '' does not claim native idempotency; the engine supplies the fallback'')))"
proof (cases "cap_native_idempotency (can (su_new s))")
  case True
  have b: "be_ops b False = ops" "su_peer s = n" "ok (su_new s)" "\<not> used (su_new s) ''conformance-idem-1''"
    using assms(1) by (simp_all add: bench_for_def)
  obtain first w where u: "co_upsert ops n (be_clock b 0) (su_kind s) (suite_record s '''' 1) ''conformance-idem-1'' (su_new s) = (Inr first, w)"
    "wr_created first" "cap_native_idempotency (can (su_new s)) \<and> ''conformance-idem-1'' \<noteq> '''' \<longrightarrow> used w ''conformance-idem-1''"
    by (rule create_ok [OF b(3,4), of "be_clock b 0" "su_kind s" s 1]) (rule that; assumption)
  have "used w ''conformance-idem-1''" using u(3) True by simp
  from replayed [OF b(3,4) u(1) this, of "be_clock b 1"] u(1,2) True show ?thesis
    by (simp add: testIdempotency_def suite_calls b assms(2) andThen_run)
qed (simp add: testIdempotency_def assms(2) throw_def)

text \<open>The first page of a delta read.\<close>

lemma first_page:
  assumes "ok w" "card {rid. reads w kind rid \<noteq> None} < 2 ^ 63"
  obtains p w' where "co_list ops n now kind since '''' w = (Inr p, w')" "ok w'" "reads w' = reads w"
    "set (pg_records p) \<subseteq> {r. \<exists>rid. reads w kind rid = Some r \<and> since \<le> r_updated_at r}"
    "pg_records p = [] \<longrightarrow> {r. \<exists>rid. reads w kind rid = Some r \<and> since \<le> r_updated_at r} = {}"
proof -
  obtain f C pgs K where l: "K w" "pages_of ops n kind since f C K" "page_chain f '''' pgs" "\<forall>w'. K w' \<longrightarrow> ok w' \<and> reads w' = reads w"
    "set (listed pgs) = {r. \<exists>rid. reads w kind rid = Some r \<and> since \<le> r_updated_at r}"
    using list_ok [OF assms(1), of kind since] assms(2) by blast
  obtain w' where w': "co_list ops n now kind since '''' w = (Inr (f ''''), w')" "K w'"
    using l(1,2) unfolding pages_of_def by blast
  obtain rest where pgs: "pgs = f '''' # rest" "rest = [] \<or> HasMore (f '''')" using l(3) by (cases pgs) (auto split: if_splits)
  have "pg_records (f '''') = [] \<longrightarrow> set (listed pgs) = {}"
    using pgs filled [OF assms(1) w'(1)] by (auto simp: listed_def)
  moreover have "set (pg_records (f '''')) \<subseteq> set (listed pgs)" by (simp add: pgs listed_def)
  ultimately show thesis using that [OF w'(1)] w'(2) l(4,5) by simp
qed

lemma passes_ListChangedSeesTheWrite:
  assumes "bench_for s b" "\<forall>rid. reads (su_new s) (su_kind s) rid = None"
    and "zero_time \<le> date (su_new s) (be_clock b 0)" "date (su_new s) (be_clock b 0) < be_wall b + 24 * hour"
  shows "fst (testListChangedSeesTheWrite s b (su_new s)) = Inr ()"
proof -
  have b: "be_ops b False = ops" "su_peer s = n" "ok (su_new s)" "\<not> used (su_new s) ''conformance-list-1''"
    using assms(1) by (simp_all add: bench_for_def)
  obtain res w r where u: "co_upsert ops n (be_clock b 0) (su_kind s) (suite_record s '''' 1) ''conformance-list-1'' (su_new s) = (Inr res, w)"
    "ok w" "reads w (su_kind s) (wr_remote_id res) = Some r" "r_updated_at r = date (su_new s) (be_clock b 0)"
    "\<forall>k j. (k, j) \<noteq> (su_kind s, wr_remote_id res) \<longrightarrow> reads w k j = reads (su_new s) k j"
    by (rule create_ok [OF b(3,4), of "be_clock b 0" "su_kind s" s 1]) (rule that; assumption)
  have only: "reads w (su_kind s) rid = Some x \<longleftrightarrow> rid = wr_remote_id res \<and> x = r" for rid x
    using u(3,5) assms(2) by (cases "rid = wr_remote_id res") auto
  then have "{rid. reads w (su_kind s) rid \<noteq> None} = {wr_remote_id res}" by auto
  then have few: "card {rid. reads w (su_kind s) rid \<noteq> None} < 2 ^ 63" by simp
  have all: "{x. \<exists>rid. reads w (su_kind s) rid = Some x \<and> zero_time \<le> r_updated_at x} = {r}"
    and none: "{x. \<exists>rid. reads w (su_kind s) rid = Some x \<and> be_wall b + 24 * hour \<le> r_updated_at x} = {}"
    using assms(3,4) by (auto simp: only u(4))
  obtain p w1 where p: "co_list ops n (be_clock b 1) (su_kind s) zero_time '''' w = (Inr p, w1)" "ok w1" "reads w1 = reads w"
    "set (pg_records p) \<subseteq> {r}" "pg_records p = [] \<longrightarrow> {r} = {}"
    by (rule first_page [OF u(2) few, of "be_clock b 1" zero_time, unfolded all]) (rule that; assumption)
  obtain f w2 where f: "co_list ops n (be_clock b 2) (su_kind s) (be_wall b + 24 * hour) '''' w1 = (Inr f, w2)" "set (pg_records f) \<subseteq> {}"
    by (rule first_page [OF p(2), of "su_kind s" "be_clock b 2" "be_wall b + 24 * hour", unfolded p(3) none, OF few]) (rule that; assumption)
  have "containsID (pg_records p) (wr_remote_id res)"
    using p(4,5) identified [OF u(2,3)] by (cases "pg_records p") (auto simp: containsID_def)
  with u(1) p(1) f show ?thesis by (simp add: testListChangedSeesTheWrite_def suite_calls b andThen_run)
qed

text \<open>Paging.\<close>

lemma upsert_each_ok:
  assumes "ok w" "distinct is" "\<forall>i \<in> set is. \<not> used w (''conformance-page-'' @ itoa (int i))"
    and "be_ops b False = ops" "su_peer s = n" "\<forall>i. zero_time \<le> date w (be_clock b i)"
  shows "\<exists>rids w'. upsert_each s b is w = (Inr rids, w') \<and> ok w' \<and> length rids = length is \<and>
    (\<forall>rid. reads w' (su_kind s) rid \<noteq> None \<longleftrightarrow> rid \<in> set rids \<or> reads w (su_kind s) rid \<noteq> None) \<and>
    (\<forall>rid \<in> set rids. \<exists>r. reads w' (su_kind s) rid = Some r \<and> zero_time \<le> r_updated_at r) \<and>
    (\<forall>rid. reads w (su_kind s) rid \<noteq> None \<longrightarrow> reads w' (su_kind s) rid = reads w (su_kind s) rid)"
  using assms
proof (induction "is" arbitrary: w)
  case Nil
  then show ?case by simp
next
  case (Cons i "is")
  let ?key = "''conformance-page-'' @ itoa (int i)"
  have new: "\<not> used w ?key" using Cons.prems(3) by simp
  obtain res w1 r where u: "co_upsert ops n (be_clock b i) (su_kind s) (suite_record s '''' (int i)) ?key w = (Inr res, w1)"
    "ok w1" "\<forall>k. reads w k (wr_remote_id res) = None" "reads w1 (su_kind s) (wr_remote_id res) = Some r" "r_updated_at r = date w (be_clock b i)"
    "date w1 = date w" "\<forall>k. used w1 k \<longrightarrow> used w k \<or> k = ?key"
    "\<forall>k j. (k, j) \<noteq> (su_kind s, wr_remote_id res) \<longrightarrow> reads w1 k j = reads w k j"
    by (rule create_ok [OF Cons.prems(1) new, of "be_clock b i" "su_kind s" s "int i"]) (rule that; assumption)
  have "\<forall>j \<in> set is. \<not> used w1 (''conformance-page-'' @ itoa (int j))"
  proof
    fix j assume j: "j \<in> set is"
    then have "itoa (int j) \<noteq> itoa (int i)" using Cons.prems(2) by (auto simp: itoa_inj)
    then show "\<not> used w1 (''conformance-page-'' @ itoa (int j))"
      using u(7) Cons.prems(3) j by (metis same_append_eq list.set_intros(2))
  qed
  then obtain rids w2 where v: "upsert_each s b is w1 = (Inr rids, w2)" "ok w2" "length rids = length is"
    "\<forall>rid. reads w2 (su_kind s) rid \<noteq> None \<longleftrightarrow> rid \<in> set rids \<or> reads w1 (su_kind s) rid \<noteq> None"
    "\<forall>rid \<in> set rids. \<exists>r. reads w2 (su_kind s) rid = Some r \<and> zero_time \<le> r_updated_at r"
    "\<forall>rid. reads w1 (su_kind s) rid \<noteq> None \<longrightarrow> reads w2 (su_kind s) rid = reads w1 (su_kind s) rid"
    using Cons.IH [OF u(2)] Cons.prems(2,4-6) u(6) by auto
  have here: "reads w2 (su_kind s) (wr_remote_id res) = Some r" using u(4) v(6) by simp
  have there: "reads w1 (su_kind s) rid \<noteq> None \<longleftrightarrow> rid = wr_remote_id res \<or> reads w (su_kind s) rid \<noteq> None" for rid
    using u(4,8) by (cases "rid = wr_remote_id res") auto
  have kept: "reads w1 (su_kind s) rid = reads w (su_kind s) rid" if "reads w (su_kind s) rid \<noteq> None" for rid
    using that u(3,8) by (cases "rid = wr_remote_id res") auto
  show ?case
  proof (intro exI conjI)
    show "upsert_each s b (i # is) w = (Inr (wr_remote_id res # rids), w2)"
      using u(1) v(1) Cons.prems(4,5) by (simp add: suite_calls andThen_run)
    show "\<forall>rid. reads w2 (su_kind s) rid \<noteq> None \<longleftrightarrow> rid \<in> set (wr_remote_id res # rids) \<or> reads w (su_kind s) rid \<noteq> None"
      using v(4) there by auto
    show "\<forall>rid \<in> set (wr_remote_id res # rids). \<exists>r. reads w2 (su_kind s) rid = Some r \<and> zero_time \<le> r_updated_at r"
      using here u(5) v(5) Cons.prems(6) by auto
    show "\<forall>rid. reads w (su_kind s) rid \<noteq> None \<longrightarrow> reads w2 (su_kind s) rid = reads w (su_kind s) rid"
      using kept v(6) by simp
  qed (simp_all add: v(2,3))
qed

lemma page_all_ok:
  assumes "pages_of ops n (su_kind s) zero_time f C K" "be_ops b False = ops" "su_peer s = n"
    and "page_chain f c pgs" "c \<in> C" "K w" "pages + length pgs \<le> m + 6"
  shows "\<exists>w'. page_all s b m pages c seen w = (Inr (seen @ map r_remote_id (listed pgs)), w')"
  using assms(4-7)
proof (induction pgs arbitrary: c w pages seen)
  case (Cons pg pgs)
  have pg: "pg = f c" "pgs = [] \<longleftrightarrow> \<not> HasMore (f c)" using Cons.prems(1) by (auto split: if_splits)
  obtain w' where w': "co_list ops n (be_clock b (m + pages)) (su_kind s) zero_time c w = (Inr (f c), w')" "K w'"
    using assms(1) Cons.prems(2,3) unfolding pages_of_def by blast
  show ?case
  proof (cases "HasMore (f c)")
    case False
    with w'(1) pg Cons.prems(4) show ?thesis
      by (simp add: page_all.simps [of s b m pages] suite_calls assms(2,3) andThen_run HasMore_def listed_def)
  next
    case True
    then have "pg_cursor (f c) \<in> C" using assms(1) Cons.prems(2) unfolding pages_of_def by blast
    with True pg Cons.prems(1,4) w'(2) Cons.IH [of "pg_cursor (f c)" w' "pages + 1" "seen @ map r_remote_id (pg_records (f c))"]
    obtain w'' where "page_all s b m (pages + 1) (pg_cursor (f c)) (seen @ map r_remote_id (pg_records (f c))) w' =
        (Inr ((seen @ map r_remote_id (pg_records (f c))) @ map r_remote_id (listed pgs)), w'')" by auto
    with w'(1) True pg Cons.prems(4) show ?thesis
      by (simp add: page_all.simps [of s b m pages] suite_calls assms(2,3) andThen_run HasMore_def listed_def)
  qed
qed simp

lemma passes_PagingCoversEverythingOnce:
  assumes "bench_for s b" "\<forall>rid. reads (su_new s) (su_kind s) rid = None" "\<forall>i. zero_time \<le> date (su_new s) (be_clock b i)"
  shows "fst (testPagingCoversEverythingOnce s b (su_new s)) = Inr ()"
proof -
  have b: "be_ops b False = ops" "su_peer s = n" "ok (su_new s)" "\<forall>i \<in> set [0..<7]. \<not> used (su_new s) (''conformance-page-'' @ itoa (int i))"
    using assms(1) by (simp_all add: bench_for_def)
  obtain rids w where u: "upsert_each s b [0..<7] (su_new s) = (Inr rids, w)" "ok w" "length rids = 7"
    "\<forall>rid. reads w (su_kind s) rid \<noteq> None \<longleftrightarrow> rid \<in> set rids"
    "\<forall>rid \<in> set rids. \<exists>r. reads w (su_kind s) rid = Some r \<and> zero_time \<le> r_updated_at r"
    using upsert_each_ok [OF b(3) _ b(4,1,2) assms(3)] assms(2) by auto
  have few: "card {rid. reads w (su_kind s) rid \<noteq> None} \<le> 7" using u(3,4) card_length [of rids] by simp
  then obtain f C pgs K where l: "K w" "pages_of ops n (su_kind s) zero_time f C K" "page_chain f '''' pgs"
    "distinct (map r_remote_id (listed pgs))"
    "set (listed pgs) = {r. \<exists>rid. reads w (su_kind s) rid = Some r \<and> zero_time \<le> r_updated_at r}"
    "length pgs \<le> length (listed pgs) + 1"
    using list_ok [OF u(2), of "su_kind s" zero_time] by auto
  have "length (listed pgs) \<le> card {rid. reads w (su_kind s) rid \<noteq> None}"
    by (rule listed_few [OF u(2) l(4)]) (auto simp: l(5))
  with l(6) few have len: "0 + length pgs \<le> 7 + 6" by linarith
  have "'''' \<in> C" using l(2) by (simp add: pages_of_def)
  from page_all_ok [OF l(2) b(1,2) l(3) this l(1) len, of "[]"] obtain w' where
    p: "page_all s b 7 0 '''' [] w = (Inr (map r_remote_id (listed pgs)), w')" by auto
  have "rid \<in> set (map r_remote_id (listed pgs))" if rid: "rid \<in> set rids" for rid
  proof -
    obtain r where r: "reads w (su_kind s) rid = Some r" "zero_time \<le> r_updated_at r" using u(5) rid by blast
    then have "r \<in> set (listed pgs)" using l(5) by blast
    then show ?thesis using identified [OF u(2) r(1)] by force
  qed
  then have "seen_once (map r_remote_id (listed pgs)) rid = ret ()" if "rid \<in> set rids" for rid
    using that count_list_distinct [OF l(4), of rid] by (simp add: seen_once_def andThen_def ret_def fun_eq_iff)
  then have "for_each (seen_once (map r_remote_id (listed pgs))) (remdups rids) w' = ret () w'"
    by (subst for_each_pass) simp_all
  then show ?thesis unfolding testPagingCoversEverythingOnce_def andThen_run [where m = "upsert_each s b [0..<7]", OF u(1)]
      andThen_run [where m = "page_all s b 7 0 '''' []", OF p] by simp
qed

end

section \<open>The fake\<close>

lemma counted_schemas: "counted f f' \<Longrightarrow> fk_schemas f' = fk_schemas f"
  unfolding counted_def by (metis fake.ext_inject fake.surjective fake.update_convs(12,13))

lemma emit_idem [simp]: "fk_idem (emit now ev f) = fk_idem f" "fk_schemas (emit now ev f) = fk_schemas f"
  by (simp_all add: emit_def Let_def)

lemma stamp_cong: "fk_faults f' = fk_faults f \<Longrightarrow> stamp now f' = stamp now f"
  by (simp add: stamp_def fake_now_def Let_def)

text \<open>What a write leaves of the keys and the faults, and the date and version it gives.\<close>

lemma Upsert_keys:
  assumes "fake_ok f" "\<not> used_key f key" "fake_Upsert lib now kind rec key f = (Inr res, f')"
  shows "fk_faults f' = fk_faults f" "used_key f' k \<Longrightarrow> used_key f k \<or> k = key"
proof -
  obtain g where g: "fake_Upsert lib now kind rec key f = upsert_now now kind rec key g" "counted f g" "\<not> rejected g rec"
    by (rule Upsert_eq [OF assms(1,2)])
  have "fk_faults f' = fk_faults g \<and> fk_caps f' = fk_caps g \<and> (fk_idem f' = fk_idem g \<or> fk_idem f' = AList.update key res (fk_idem g))"
    using assms(3) g(1,3)
    by (auto simp: upsert_now_def store_result_def write_fields_def fresh_id_def Let_def case_prod_beta split: if_splits)
  then show "fk_faults f' = fk_faults f" "used_key f' k \<Longrightarrow> used_key f k \<or> k = key"
    using counted_same [OF g(2)] by (auto simp: used_key_def split: if_splits)
qed

lemma Upsert_dated:
  assumes "fake_ok f" "\<not> used_key f key" "r_remote_id rec = ''''" "fake_Upsert lib now kind rec key f = (Inr res, f')"
    and "readable f' kind (wr_remote_id res) = Some r"
  shows "r_updated_at r = stamp now f" "cap_etags (fk_caps f) \<Longrightarrow> r_version r \<noteq> ''''"
proof -
  obtain g where g: "fake_Upsert lib now kind rec key f = upsert_now now kind rec key g" "counted f g" "\<not> rejected g rec"
    by (rule Upsert_eq [OF assms(1,2)])
  note same = counted_same [OF g(2)]
  obtain rid f1 where f1: "fresh_id (r_remote_id rec) g = (rid, f1)" by fastforce
  obtain x created f2 where w: "write_fields now kind rid (r_fields rec) f1 = (x, created, f2)" by (metis prod_cases3)
  have "fake_ok g" "r_remote_id rec = '''' \<or> readable g kind (r_remote_id rec) \<noteq> None" using assms(1,3) same by simp_all
  note t = target_id [OF this f1, unfolded same]
  note wr = write_fields_ok [OF t(1,2,3) w]
  have f': "wr_remote_id res = rid" "readable f' = readable f2"
    using assms(4) g(1,3) f1 w by (auto simp: upsert_now_def Let_def)
  have "r = toModel kind f1 x" using assms(5) wr(5) [of kind rid] by (simp add: f')
  moreover have "fk_faults f1 = fk_faults f"
    using f1 same(3) by (auto simp: fresh_id_def split: if_splits)
  ultimately show "r_updated_at r = stamp now f" "cap_etags (fk_caps f) \<Longrightarrow> r_version r \<noteq> ''''"
    using wr(7) stamp_cong [of f1 f] t(4) same(2) by (simp_all add: toModel_def)
qed

lemma List_filled:
  assumes "calm f" "fake_ListChanged lib kind since cursor f = (Inr p, f')" "HasMore p"
  shows "pg_records p \<noteq> []"
proof -
  obtain g where g: "gate lib ''list'' f = (Inr (), g)" "counted f g" by (rule gate_calm [OF assms(1)])
  obtain start where p: "page_at kind g (listed_live since (fake_bucket kind g)) (listed_deleted (fk_caps g) since (fake_bucket kind g)) start = Inr p"
    using assms(2) g(1) by (auto simp: fake_ListChanged_def andThen_def Let_def split: option.splits)
  let ?n = "int (length (listed_live since (fake_bucket kind g)))" and ?size = "ft_page_size (fk_faults g)"
  have more: "0 \<le> start" "0 < ?size" "?size < ?n - start" using p assms(3) by (auto simp: page_at_def Let_def HasMore_def split: if_splits)
  then have "pg_records p = map (toModel kind g) (take (nat ?size) (drop (nat start) (listed_live since (fake_bucket kind g))))"
    using p by (auto simp: page_at_def Let_def split: if_splits)
  then show ?thesis using more by simp
qed

interpretation fake_suite: suite_connector "fake_ops lib caps False" n "\<lambda>w. fake_ok (w n)" "\<lambda>w. readable (w n)"
  "\<lambda>w. used_key (w n)" "\<lambda>w kind. map_of (fk_schemas (w n)) kind" "\<lambda>w now. stamp now (w n)" "\<lambda>w. fk_caps (w n)"
proof unfold_locales
  fix w :: "string \<Rightarrow> fake" and now kind and rec :: crm_record and key since cursor p w' res and r :: crm_record
  assume ok: "fake_ok (w n)"
  show "(\<lambda>k. map_of (fk_schemas (snd (co_describe (fake_ops lib caps False) n now kind w) n)) k) =
      (\<lambda>k. map_of (fk_schemas (w n)) k)"
  proof -
    obtain x f' where d: "fake_Describe lib kind (w n) = (x, f')" "counted (w n) f'" by (rule Describe_ok [OF ok])
    then show ?thesis using counted_schemas [OF d(2)] on_fake_apply [of "fake_Describe lib kind" w n, OF d(1)] by simp
  qed
  show "pg_records p \<noteq> []" if "co_list (fake_ops lib caps False) n now kind since cursor w = (Inr p, w')" "HasMore p"
    using List_filled [OF fake_okD(1) [OF ok] _ that(2)] that(1)
    by (auto simp: fake_ops_def on_fake_def under_ctx_def split: prod.splits)
  assume unused: "\<not> used_key (w n) key" and call: "co_upsert (fake_ops lib caps False) n now kind rec key w = (Inr res, w')"
  then obtain f' where f': "fake_Upsert lib now kind rec key (w n) = (Inr res, f')" "w' n = f'"
    by (auto simp: on_fake_def under_ctx_def split: prod.splits)
  note keys = Upsert_keys [OF ok unused f'(1)]
  show "(\<lambda>now. stamp now (w' n)) = (\<lambda>now. stamp now (w n)) \<and> (\<forall>k. used_key (w' n) k \<longrightarrow> used_key (w n) k \<or> k = key) \<and>
      (cap_native_idempotency (fk_caps (w n)) \<and> key \<noteq> '''' \<longrightarrow> used_key (w' n) key)"
    using keys f'(2) stamp_cong [of f' "w n"] Upsert_used [OF ok unused f'(1)] by auto
  show "r_updated_at r = stamp now (w n) \<and> (cap_etags (fk_caps (w n)) \<longrightarrow> r_version r \<noteq> '''')"
    if "r_remote_id rec = ''''" "readable (w' n) kind (wr_remote_id res) = Some r"
    using Upsert_dated [OF ok unused that(1) f'(1)] that(2) f'(2) by simp
qed


section \<open>The fake in the suite\<close>

text \<open>
  How \<^verbatim>\<open>fake_test.go\<close> has the fake sign a delivery: a person enters a record, and the first
  delivery that is due is taken off the queue.
\<close>

definition fake_sign :: "stdlib \<Rightarrow> string \<Rightarrow> gotime \<Rightarrow> (string \<Rightarrow> fake, stop, request) st" where
  "fake_sign lib n now w =
     (let f1 = snd (ExternalUpsert now ''contact'' '''' [(''email'', VStr ''a@b.c'')] (w n));
          (deliveries, f2) = DrainWebhooks lib now f1
      in (case deliveries of
            None \<Rightarrow> Inl (Fatal ''panic: fake: encode webhook'')
          | Some [] \<Rightarrow> Inl (Fatal ''no webhook was queued'')
          | Some (d # _) \<Rightarrow> Inr (Request ''/webhook/peer'' d),
          w(n := f2)))"

definition event_json :: "change_event \<Rightarrow> bool" where
  "event_json ev \<longleftrightarrow> json_time (ev_observed_at ev) \<and>
     (case ev_record ev of None \<Rightarrow> True | Some r \<Rightarrow> json_time (r_updated_at r) \<and> json_fields_ok (r_fields r))"

text \<open>
  What is used of HMAC and of JSON: a longer text has another code, no code is empty, an event whose
  times and values JSON can carry is encoded, and what was encoded can be decoded.
\<close>

definition honest_lib :: "stdlib \<Rightarrow> bool" where
  "honest_lib lib \<longleftrightarrow> (\<forall>k m. lib_mac lib k m \<noteq> '''' \<and> lib_mac lib k m \<noteq> lib_mac lib k (m @ '' '')) \<and>
     (\<forall>ev. event_json ev \<longrightarrow> (\<exists>body evs. lib_encode lib [ev] = Inr body \<and> lib_decode lib body = Inr evs))"

lemma ExternalUpsert_new:
  assumes "fake_ok f"
  obtains rid v d where "snd (ExternalUpsert now kind '''' [(x, VStr y)] f) =
    emit now (upsert_event kind rid \<lparr>r_kind = kind, r_remote_id = rid, r_fields = [(x, VStr y)], r_updated_at = stamp now f, r_version = v\<rparr>)
      (f\<lparr>fk_next_id := fk_next_id f + 1, fk_data := d\<rparr>)"
proof -
  let ?rid = "fk_name f @ ''-'' @ itoa (fk_next_id f + 1)" and ?f1 = "f\<lparr>fk_next_id := fk_next_id f + 1\<rparr>"
  have "map_of (fake_bucket kind ?f1) ?rid = None"
    using fake_okD(5) [OF assms, of "fk_next_id f + 1" kind] by (simp add: fake_bucket_def)
  moreover have "stamp now ?f1 = stamp now f" by (rule stamp_cong) simp
  ultimately show thesis
    by (cases "cap_etags (fk_caps f)")
       (rule that [of ?rid], simp add: ExternalUpsert_def fresh_id_def write_fields_def toModel_def Let_def)+
qed

lemma fake_sign_ok:
  assumes "fake_ok (w n)" "cap_webhooks (fk_caps (w n))" "fk_queue (w n) = []" "ft_webhook_delay (fk_faults (w n)) \<le> 0"
    and "\<not> ft_duplicate_webhooks (fk_faults (w n))" "honest_lib lib"
    and "json_time (fake_now now (w n))" "json_time (stamp now (w n))"
  obtains body i f' evs where "fake_sign lib n now w = (Inr (Request ''/webhook/peer'' \<lparr>dl_id = i, dl_body = body,
      dl_headers = [(HeaderTimestamp, itoa (unix_seconds (fake_now now (w n)))),
        (HeaderSignature, sign lib (fk_secret (w n)) (unix_seconds (fake_now now (w n))) body), (HeaderDelivery, i)]\<rparr>), w(n := f'))"
    "lib_decode lib body = Inr evs" "fake_ok f'" "fk_caps f' = fk_caps (w n)" "fk_name f' = fk_name (w n)"
    "fk_secret f' = fk_secret (w n)" "fk_faults f' = fk_faults (w n)" "fk_queue f' = []"
proof -
  let ?f = "w n" and ?t = "fake_now now (w n)"
  obtain rid v d where u: "snd (ExternalUpsert now ''contact'' '''' [(''email'', VStr ''a@b.c'')] ?f) =
    emit now (upsert_event ''contact'' rid \<lparr>r_kind = ''contact'', r_remote_id = rid, r_fields = [(''email'', VStr ''a@b.c'')],
        r_updated_at = stamp now ?f, r_version = v\<rparr>) (?f\<lparr>fk_next_id := fk_next_id ?f + 1, fk_data := d\<rparr>)" (is "_ = ?f1")
    by (rule ExternalUpsert_new [OF assms(1)])
  have ok: "fake_ok ?f1" using ExternalUpsert_ok [OF assms(1), of "''''" "''contact''"] u by metis
  obtain p where p: "fk_queue ?f1 = [p]" "pn_due_at p \<le> ?t" "event_json (pn_event p)"
    using assms(2-5,7,8)
    by (simp add: emit_def Let_def fake_now_def event_json_def upsert_event_def json_fields_ok_def)
  then obtain body evs where lib: "lib_encode lib [pn_event p] = Inr body" "lib_decode lib body = Inr evs"
    using assms(6) by (auto simp: honest_lib_def)
  let ?d = "\<lparr>dl_id = pn_deliv_id p, dl_body = body, dl_headers = [(HeaderTimestamp, itoa (unix_seconds ?t)),
     (HeaderSignature, sign lib (fk_secret ?f) (unix_seconds ?t) body), (HeaderDelivery, pn_deliv_id p)]\<rparr>"
  have same: "fk_secret ?f1 = fk_secret ?f" "fake_now now ?f1 = ?t" by (simp_all add: emit_def Let_def fake_now_def)
  have drain: "DrainWebhooks lib now ?f1 = (Some [?d], ?f1\<lparr>fk_queue := [], fk_draws := fk_draws ?f1\<rparr>)"
    using p(1,2) lib(1) by (simp add: DrainWebhooks_def Let_def same)
  have "fake_ok (?f1\<lparr>fk_queue := []\<rparr>) = fake_ok ?f1" by (rule fake_ok_cong) simp_all
  then show thesis using ok drain lib(2) same(1)
    by (intro that [of "pn_deliv_id p" body "?f1\<lparr>fk_queue := [], fk_draws := fk_draws ?f1\<rparr>" evs])
       (simp_all add: fake_sign_def u Let_def)
qed

lemma verify_forged:
  assumes "cap_webhooks (fk_caps f)" "header HeaderTimestamp = itoa ts" "parse_int (itoa ts) = Some ts"
    and "header HeaderSignature \<noteq> sign lib (fk_secret f) ts body"
  shows "VerifyWebhook lib now header body f = Inl (Errorf f ''webhook'' KindAuth ''bad signature'')"
  using assms by (simp add: VerifyWebhook_def Let_def)

lemma header_names:
  "HeaderTimestamp \<noteq> HeaderSignature" "HeaderTimestamp \<noteq> ''Signature''" "HeaderSignature = ''X-Fake-Signature''"
  by (simp_all add: HeaderTimestamp_def HeaderSignature_def)

text \<open>Times the suite is run at: a subtest takes less than the signature window.\<close>

definition bench_time :: "'w bench \<Rightarrow> fake \<Rightarrow> bool" where
  "bench_time b f \<longleftrightarrow> (\<forall>i. let t = fake_now (be_clock b i) f; u = stamp (be_clock b i) f in
     unix_epoch \<le> t \<and> t div second < 2 ^ 63 \<and> json_time t \<and> json_time u \<and> zero_time < u \<and> u < be_wall b + 24 * hour \<and>
     be_clock b 0 \<le> be_clock b i \<and> be_clock b i \<le> be_clock b 0 + (SignatureWindow - second))"

lemma fake_verify [simp]: "co_verify (fake_ops lib caps c) n now header body w = (VerifyWebhook lib now header body (w n), w)"
  by (simp add: fake_ops_def)

lemma fake_has_caps [simp]: "co_caps (fake_ops lib caps c) = caps"
  by (simp add: fake_ops_def)

lemma honest_sign:
  assumes "honest_lib lib"
  shows "sign lib k ts body \<noteq> ''''" "sign lib k ts body \<noteq> sign lib k ts (body @ '' '')"
  using assms unfolding honest_lib_def sign_def by (blast, metis append_assoc)

lemma passes_WebhookRejectsTamperedBody:
  assumes b: "be_ops b = fake_ops lib caps" "su_sign s = Some (fake_sign lib (su_peer s))" "honest_lib lib"
    and f: "fake_ok f" "f = su_new s (su_peer s)" "caps (su_peer s) = fk_caps f" "fk_queue f = []"
      "ft_webhook_delay (fk_faults f) \<le> 0" "\<not> ft_duplicate_webhooks (fk_faults f)" "bench_time b f"
  shows "fst (testWebhookRejectsTamperedBody s b (su_new s)) =
    (if cap_webhooks (fk_caps f) then Inr () else Inl (Skipped (su_name s @ '' does not accept webhooks'')))"
proof (cases "cap_webhooks (fk_caps f)")
  case True
  let ?n = "su_peer s" and ?ts = "\<lambda>i. unix_seconds (fake_now (be_clock b i) f)"
  have time: "unix_epoch \<le> fake_now (be_clock b i) f" "fake_now (be_clock b i) f div second < 2 ^ 63"
    "json_time (fake_now (be_clock b i) f)" "json_time (stamp (be_clock b i) f)"
    "be_clock b 0 \<le> be_clock b i" "be_clock b i \<le> be_clock b 0 + (SignatureWindow - second)" for i
    using f(7) by (simp_all add: bench_time_def Let_def)
  obtain body i f1 evs where one: "fake_sign lib ?n (be_clock b 0) (su_new s) = (Inr (Request ''/webhook/peer'' \<lparr>dl_id = i, dl_body = body,
      dl_headers = [(HeaderTimestamp, itoa (?ts 0)), (HeaderSignature, sign lib (fk_secret f) (?ts 0) body), (HeaderDelivery, i)]\<rparr>),
      (su_new s)(?n := f1))"
    "lib_decode lib body = Inr evs" "fake_ok f1" "fk_caps f1 = fk_caps f" "fk_name f1 = fk_name f" "fk_secret f1 = fk_secret f"
    "fk_faults f1 = fk_faults f" "fk_queue f1 = []"
    using fake_sign_ok [of "su_new s" ?n lib "be_clock b 0"] f True b(3) time(3,4) by metis
  have now: "fake_now t f1 = fake_now t f" "stamp t f1 = stamp t f" for t
    using stamp_cong [OF one(7)] by (simp_all add: fake_now_def one(7))
  let ?w1 = "(su_new s)(?n := f1)"
  obtain body' i' f2 evs' where two: "fake_sign lib ?n (be_clock b 3) ?w1 = (Inr (Request ''/webhook/peer'' \<lparr>dl_id = i', dl_body = body',
      dl_headers = [(HeaderTimestamp, itoa (?ts 3)), (HeaderSignature, sign lib (fk_secret f) (?ts 3) body'), (HeaderDelivery, i')]\<rparr>),
      ?w1(?n := f2))" "fk_caps f2 = fk_caps f" "fk_secret f2 = fk_secret f"
    using fake_sign_ok [of ?w1 ?n lib "be_clock b 3"] f True b(3) time(3,4) one(3-8) by (simp add: now) metis
  let ?h = "header_of [(HeaderTimestamp, itoa (?ts 0)), (HeaderSignature, sign lib (fk_secret f) (?ts 0) body), (HeaderDelivery, i)]"
    and ?h' = "(header_of [(HeaderTimestamp, itoa (?ts 3)), (HeaderSignature, sign lib (fk_secret f) (?ts 3) body'), (HeaderDelivery, i')])
      (''X-Fake-Signature'' := '''', ''Signature'' := '''')"
  have own: "VerifyWebhook lib (be_clock b 1) ?h body f1 = Inr (map (\<lambda>e. e\<lparr>ev_source := fk_name f, ev_delivery_id := i\<rparr>) evs)"
    using verify_own [of f1 lib body evs "fake_now (be_clock b 0) f" "be_clock b 1" i] True one(2,4,5,6) time [of 0] time(5,6) [of 1]
    by (simp add: now) (simp add: fake_now_def)
  have parse: "parse_int (itoa (?ts j)) = Some (?ts j)" for j
    by (rule signed_age(1) [OF time(1,2), of j "fake_now (be_clock b j) f"]) (simp_all add: SignatureWindow_def)
  have tampered: "VerifyWebhook lib (be_clock b 2) ?h (body @ '' '') f1 = Inl (Errorf f1 ''webhook'' KindAuth ''bad signature'')"
    using honest_sign(2) [OF b(3)] by (intro verify_forged [of f1 ?h "?ts 0"]) (simp_all add: True one(4,6) parse)
  have stripped: "VerifyWebhook lib (be_clock b 4) ?h' body' f2 = Inl (Errorf f2 ''webhook'' KindAuth ''bad signature'')"
    using honest_sign(1) [OF b(3)] header_names
    by (intro verify_forged [of f2 ?h' "?ts 3"]) (simp_all add: True two(2,3) parse not_sym [of _ "[]"])
  have caps: "cap_webhooks (suite_caps s b)" using True by (simp add: suite_caps_def b(1) f(3))
  show ?thesis
    using True own tampered stripped
    by (simp add: testWebhookRejectsTamperedBody_def caps b(2) one(1) two(1)
        Request_def readBody_def suite_verify_def b(1) must_def error_of_def andThen_def err_defs Errorf_def)
qed (simp add: testWebhookRejectsTamperedBody_def suite_caps_def b(1) f(3) throw_def)

lemma passes_ContextCancellation:
  "be_ops b = fake_ops lib caps \<Longrightarrow> fst (testContextCancellation s b w) = Inr ()"
  by (simp add: testContextCancellation_def fake_ops_def on_fake_def under_ctx_def error_of_def andThen_def)

section \<open>Properties\<close>

text \<open>
  C33: The fake passes the conformance suite. A new fake without injected faults, whatever its
  capabilities, its page size and the granularity of its clock, passes every subtest for a kind and
  a field of its schema; a subtest is skipped only for a capability the fake does not have.
\<close>

theorem fake_passes_suite:
  assumes bench: "be_ops b = fake_ops lib caps" "honest_lib lib" "bench_time b f"
    and new: "f = su_new s (su_peer s)" "fake_ok f" "caps (su_peer s) = fk_caps f" "fk_idem f = []" "fk_queue f = []"
      "\<forall>rid. readable f (su_kind s) rid = None"
    and faults: "ft_webhook_delay (fk_faults f) \<le> 0" "\<not> ft_duplicate_webhooks (fk_faults f)"
    and schema: "map_of (fk_schemas f) (su_kind s) = Some sch" "sc_kind sch = su_kind s" "schema_field sch (su_field s) \<noteq> None"
      "map_of (fk_schemas f) ''definitely-not-an-object'' = None"
    and sign: "su_sign s = Some (fake_sign lib (su_peer s))"
  shows "suite_Run s b = map (\<lambda>(name, t). (su_name s @ ''/'' @ name,
    if name = ''IdempotencyKeyIsHonoured'' \<and> \<not> cap_native_idempotency (fk_caps f)
      then Inl (Skipped (su_name s @ '' does not claim native idempotency; the engine supplies the fallback''))
    else if name = ''WebhookRejectsATamperedBody'' \<and> \<not> cap_webhooks (fk_caps f)
      then Inl (Skipped (su_name s @ '' does not accept webhooks''))
    else Inr ())) (subtests :: (string \<times> ((string \<Rightarrow> fake) suite \<Rightarrow> (string \<Rightarrow> fake) bench \<Rightarrow> (string \<Rightarrow> fake, unit) step)) list)"
proof -
  have w: "fake_suite.bench_for lib caps (su_peer s) s b"
    using bench(1) new(1,2,4) by (simp add: fake_suite.bench_for_def used_key_def)
  have caps: "suite_caps s b = fk_caps (su_new s (su_peer s))" using bench(1) new(1,3) by (simp add: suite_caps_def)
  have time: "zero_time < stamp (be_clock b i) (su_new s (su_peer s))"
    "stamp (be_clock b i) (su_new s (su_peer s)) < be_wall b + 24 * hour" for i
    using bench(3) new(1) by (simp_all add: bench_time_def Let_def)
  have none: "\<forall>rid. readable (su_new s (su_peer s)) (su_kind s) rid = None" using new(1,6) by simp
  note passes =
    fake_suite.passes_Describe [OF w, of sch] fake_suite.passes_UpsertCreatesAndGetReads [OF w caps]
    fake_suite.passes_UpsertWithIDUpdates [OF w] fake_suite.passes_ListChangedSeesTheWrite [OF w none]
    fake_suite.passes_PagingCoversEverythingOnce [OF w none] fake_suite.passes_GetAbsentIsNotFound [OF w]
    fake_suite.passes_DeleteIsRepeatable [OF w] fake_suite.passes_Idempotency [OF w caps]
    passes_WebhookRejectsTamperedBody [OF bench(1) sign bench(2) new(2,1,3,5) faults bench(3)] passes_ContextCancellation [OF bench(1)]
  then show ?thesis
    using none time schema new(1) by (simp add: suite_Run_def subtests_def less_imp_le less_imp_neq [THEN not_sym])
qed

definition suite_lib :: stdlib where
  "suite_lib = \<lparr>lib_mac = (\<lambda>k m. CHR ''x'' # m), lib_encode = (\<lambda>_. Inr ''7''), lib_decode = (\<lambda>_. Inr []), lib_float = (\<lambda>_. 0), lib_int = (\<lambda>_ _. 0)\<rparr>"

definition suite_caps_all :: caps where
  "suite_caps_all = \<lparr>cap_native_idempotency = True, cap_webhooks = True, cap_soft_delete = True, cap_etags = True,
     cap_max_page_size = 2, cap_modified_at_exact = True\<rparr>"

definition contact_schema :: schema where
  "contact_schema = \<lparr>sc_kind = ''contact'',
     sc_fields = [\<lparr>sf_name = ''email'', sf_type = ''string'', sf_read_only = False, sf_required = True\<rparr>]\<rparr>"

definition example_suite :: "(string \<Rightarrow> fake) suite" where
  "example_suite = \<lparr>su_name = ''paged'', su_peer = ''peer'', su_kind = ''contact'',
     su_new = (\<lambda>n. fake_New n suite_caps_all ''s3cr3t'' [(''contact'', contact_schema)] (no_faults\<lparr>ft_page_size := 2\<rparr>)),
     su_field = ''email'', su_value = None, su_sign = Some (fake_sign suite_lib ''peer'')\<rparr>"

definition example_bench :: "(string \<Rightarrow> fake) bench" where
  "example_bench = \<lparr>be_ops = fake_ops suite_lib (\<lambda>_. suite_caps_all), be_clock = (\<lambda>_. unix_epoch), be_wall = unix_epoch\<rparr>"

theorem fake_passes_suite_witness:
  "map snd (suite_Run example_suite example_bench) = replicate 10 (Inr ())"
proof -
  let ?f = "su_new example_suite (su_peer example_suite)"
  have caps: "fk_caps ?f = suite_caps_all" by (simp add: example_suite_def fake_New_def)
  have "let t = fake_now unix_epoch ?f; u = stamp unix_epoch ?f in unix_epoch \<le> t \<and> t div second < 2 ^ 63 \<and>
      json_time t \<and> json_time u \<and> zero_time < u \<and> u < unix_epoch + 24 * hour" by code_simp
  then have time: "bench_time example_bench ?f" by (simp add: bench_time_def example_bench_def SignatureWindow_def Let_def)
  have ok: "fake_ok ?f" by (simp add: example_suite_def fake_ok_New)
  have "suite_Run example_suite example_bench = map (\<lambda>(name, t). (su_name example_suite @ ''/'' @ name,
    if name = ''IdempotencyKeyIsHonoured'' \<and> \<not> cap_native_idempotency (fk_caps ?f)
      then Inl (Skipped (su_name example_suite @ '' does not claim native idempotency; the engine supplies the fallback''))
    else if name = ''WebhookRejectsATamperedBody'' \<and> \<not> cap_webhooks (fk_caps ?f)
      then Inl (Skipped (su_name example_suite @ '' does not accept webhooks''))
    else Inr ())) (subtests :: (string \<times> ((string \<Rightarrow> fake) suite \<Rightarrow> (string \<Rightarrow> fake) bench \<Rightarrow> (string \<Rightarrow> fake, unit) step)) list)"
    by (rule fake_passes_suite [where lib = suite_lib and caps = "\<lambda>_. suite_caps_all" and sch = contact_schema])
      (use ok time in \<open>auto simp: caps example_suite_def example_bench_def honest_lib_def suite_lib_def
        fake_New_def readable_def fake_bucket_def no_faults_def contact_schema_def schema_field_def\<close>)
  then show ?thesis by (simp add: caps suite_caps_all_def subtests_def eval_nat_numeral)
qed

end
