(* ===== verification/Keyed_Mutex.thy ===== *)
theory Keyed_Mutex
  imports Prelude
begin

text \<open>
  The second half of \<^verbatim>\<open>internal/engine/queue.go\<close>: one mutex per logical record, made on
  demand and dropped when nobody needs it. The two sections guarded by \<^verbatim>\<open>k.mu\<close> are the
  functions \<open>km_enter\<close> and \<open>km_leave\<close>; taking and releasing the record's own mutex are steps of
  their own, so every interleaving of goroutines is a run of \<open>km_run\<close>.
\<close>

section \<open>The critical sections\<close>

text \<open>A mutex is a number; the next fresh one stands for \<^verbatim>\<open>&sync.Mutex{}\<close>.\<close>

record kmutex =
  km_held :: "(string, nat) gomap"
  km_count :: "(string, int) gomap"
  km_next :: nat

definition newKeyedMutex :: kmutex where
  "newKeyedMutex = \<lparr>km_held = [], km_count = [], km_next = 0\<rparr>"

definition count_of :: "kmutex \<Rightarrow> string \<Rightarrow> int" where
  "count_of k key = (case map_of (km_count k) key of Some n \<Rightarrow> n | None \<Rightarrow> 0)"

definition km_enter :: "string \<Rightarrow> kmutex \<Rightarrow> nat \<times> kmutex" where
  "km_enter key k0 =
     (let (m, k) = (case map_of (km_held k0) key of
            Some m \<Rightarrow> (m, k0)
          | None \<Rightarrow> (km_next k0, k0\<lparr>km_held := AList.update key (km_next k0) (km_held k0),
                                    km_next := km_next k0 + 1\<rparr>))
      in (m, k\<lparr>km_count := AList.update key (count_of k key + 1) (km_count k)\<rparr>))"

definition km_leave :: "string \<Rightarrow> kmutex \<Rightarrow> kmutex" where
  "km_leave key k0 =
     (let k = k0\<lparr>km_count := AList.update key (count_of k0 key - 1) (km_count k0)\<rparr>
      in if count_of k key = 0
         then k\<lparr>km_held := AList.delete key (km_held k), km_count := AList.delete key (km_count k)\<rparr>
         else k)"

section \<open>Interleavings\<close>

datatype pc = Idle | Waiting string nat | Holding string nat | Releasing string

inductive km_run :: "kmutex \<Rightarrow> (nat \<Rightarrow> pc) \<Rightarrow> nat set \<Rightarrow> bool" where
  start: "km_run newKeyedMutex (\<lambda>_. Idle) {}"
| enter: "km_run k pcs locked \<Longrightarrow> pcs t = Idle \<Longrightarrow> km_enter key k = (m, k') \<Longrightarrow>
    km_run k' (pcs(t := Waiting key m)) locked"
| acquire: "km_run k pcs locked \<Longrightarrow> pcs t = Waiting key m \<Longrightarrow> m \<notin> locked \<Longrightarrow>
    km_run k (pcs(t := Holding key m)) (insert m locked)"
| release: "km_run k pcs locked \<Longrightarrow> pcs t = Holding key m \<Longrightarrow>
    km_run k (pcs(t := Releasing key)) (locked - {m})"
| leave: "km_run k pcs locked \<Longrightarrow> pcs t = Releasing key \<Longrightarrow> km_run (km_leave key k) (pcs(t := Idle)) locked"

fun uses_key :: "string \<Rightarrow> pc \<Rightarrow> bool" where
  "uses_key key Idle = False"
| "uses_key key (Waiting k m) = (k = key)"
| "uses_key key (Holding k m) = (k = key)"
| "uses_key key (Releasing k) = (k = key)"

definition users :: "(nat \<Rightarrow> pc) \<Rightarrow> string \<Rightarrow> nat set" where
  "users pcs key = {t. uses_key key (pcs t)}"

text \<open>The table: an entry for exactly the keys somebody uses, with the number of its users.\<close>

definition table_inv :: "kmutex \<Rightarrow> (nat \<Rightarrow> pc) \<Rightarrow> bool" where
  "table_inv k pcs \<longleftrightarrow>
     (\<forall>key. finite (users pcs key)) \<and>
     (\<forall>key. map_of (km_count k) key =
        (if users pcs key = {} then None else Some (int (card (users pcs key))))) \<and>
     (\<forall>key. map_of (km_held k) key = None \<longleftrightarrow> users pcs key = {}) \<and>
     (\<forall>key m. map_of (km_held k) key = Some m \<longrightarrow> m < km_next k) \<and>
     (\<forall>key key' m. map_of (km_held k) key = Some m \<longrightarrow> map_of (km_held k) key' = Some m \<longrightarrow> key = key') \<and>
     (\<forall>t key m. pcs t = Waiting key m \<or> pcs t = Holding key m \<longrightarrow> map_of (km_held k) key = Some m)"

text \<open>The mutexes: one is locked exactly when some goroutine holds it, and then only one does.\<close>

definition holds :: "(nat \<Rightarrow> pc) \<Rightarrow> nat \<Rightarrow> nat \<Rightarrow> bool" where
  "holds pcs t m \<longleftrightarrow> (\<exists>key. pcs t = Holding key m)"

definition lock_inv :: "(nat \<Rightarrow> pc) \<Rightarrow> nat set \<Rightarrow> bool" where
  "lock_inv pcs locked \<longleftrightarrow>
     (\<forall>m. m \<in> locked \<longleftrightarrow> (\<exists>t. holds pcs t m)) \<and>
     (\<forall>t t' m. holds pcs t m \<longrightarrow> holds pcs t' m \<longrightarrow> t = t')"

lemma users_upd:
  "users (pcs(t := p)) key = (if uses_key key p then insert t (users pcs key) else users pcs key - {t})"
  by (auto simp: users_def)

lemma users_mem [simp]: "t \<in> users pcs key \<longleftrightarrow> uses_key key (pcs t)"
  by (simp add: users_def)

text \<open>A step on a record's own mutex moves nobody to another key.\<close>

lemma users_same:
  assumes "uses_key key (pcs t)" "\<And>k. uses_key k p \<longleftrightarrow> uses_key k (pcs t)"
  shows "users (pcs(t := p)) = users pcs"
  using assms by (auto simp: fun_eq_iff users_def)

lemma table_same:
  assumes "table_inv k pcs" "uses_key key (pcs t)" "\<And>k. uses_key k p \<longleftrightarrow> uses_key k (pcs t)"
    and "\<And>key m. p = Waiting key m \<or> p = Holding key m \<Longrightarrow> map_of (km_held k) key = Some m"
  shows "table_inv k (pcs(t := p))"
proof -
  have "users (pcs(t := p)) = users pcs" by (rule users_same [of key pcs t p]) (use assms in auto)
  with assms(1,4) show ?thesis unfolding table_inv_def by (auto split: if_splits)
qed

lemma holds_upd:
  "holds (pcs(t := p)) u m \<longleftrightarrow> (if u = t then \<exists>key. p = Holding key m else holds pcs u m)"
  by (simp add: holds_def)

lemma lock_idle:
  assumes "lock_inv pcs locked" "\<And>key m. pcs t \<noteq> Holding key m" "\<And>key m. p \<noteq> Holding key m"
  shows "lock_inv (pcs(t := p)) locked"
proof -
  have "holds (pcs(t := p)) u m = holds pcs u m" for u m using assms(2,3) by (auto simp: holds_def)
  with assms(1) show ?thesis by (simp add: lock_inv_def)
qed

lemma lock_acquire:
  assumes "lock_inv pcs locked" "pcs t = Waiting key m" "m \<notin> locked"
  shows "lock_inv (pcs(t := Holding key m)) (insert m locked)"
proof -
  have "holds (pcs(t := Holding key m)) u x \<longleftrightarrow> (u = t \<and> x = m) \<or> holds pcs u x" for u x
    using assms(2) by (auto simp: holds_def)
  note h = this
  show ?thesis using assms(1,3) unfolding lock_inv_def h by auto
qed

lemma lock_release:
  assumes "lock_inv pcs locked" "pcs t = Holding key m"
  shows "lock_inv (pcs(t := Releasing key)) (locked - {m})"
proof -
  have "holds pcs u x \<Longrightarrow> x = m \<longleftrightarrow> u = t" for u x
    using assms unfolding lock_inv_def holds_def by (metis pc.inject(2))
  then have "holds (pcs(t := Releasing key)) u x \<longleftrightarrow> holds pcs u x \<and> x \<noteq> m" for u x
    by (auto simp: holds_upd)
  with assms(1) show ?thesis unfolding lock_inv_def by auto
qed

lemma count_of_inv: "table_inv k pcs \<Longrightarrow> count_of k key = int (card (users pcs key))"
  by (simp add: table_inv_def count_of_def)

lemma table_enter:
  assumes inv: "table_inv k pcs" and idle: "pcs t = Idle" and e: "km_enter key k = (m, k')"
  shows "table_inv k' (pcs(t := Waiting key m))"
proof -
  let ?p = "pcs(t := Waiting key m)"
  have u: "users ?p x = (if x = key then insert t (users pcs key) else users pcs x)" for x
    using idle by (auto simp: users_def)
  have fin: "finite (users pcs key)" and new: "t \<notin> users pcs key" using inv idle by (simp_all add: table_inv_def)
  then have card: "int (card (insert t (users pcs key))) = count_of k key + 1"
    by (simp add: count_of_inv [OF inv])
  have count: "map_of (km_count k') = (map_of (km_count k))(key \<mapsto> count_of k key + 1)"
    and held: "map_of (km_held k') = (map_of (km_held k))(key \<mapsto> m)"
    and nx: "km_next k \<le> km_next k'" "map_of (km_held k) key = None \<Longrightarrow> m < km_next k'"
    and m: "map_of (km_held k) key = None \<Longrightarrow> m = km_next k" "map_of (km_held k) key = Some x \<Longrightarrow> m = x" for x
    using e by (auto simp: km_enter_def Let_def count_of_def split: option.splits)
  have old: "pcs u = Waiting x n \<or> pcs u = Holding x n \<Longrightarrow> map_of (km_held k') x = Some n" for u x n
    using inv m(2) unfolding held table_inv_def by auto
  have "map_of (km_held k') x = Some n \<Longrightarrow> map_of (km_held k') y = Some n \<Longrightarrow> x = y" for x y n
    using inv m unfolding held table_inv_def by (cases "map_of (km_held k) key") (auto split: if_splits)
  moreover have "map_of (km_held k') x = Some n \<Longrightarrow> n < km_next k'" for x n
  proof -
    have lt: "map_of (km_held k) y = Some i \<Longrightarrow> i < km_next k'" for y i
      using inv nx(1) unfolding table_inv_def by (meson less_le_trans)
    then show "map_of (km_held k') x = Some n \<Longrightarrow> n < km_next k'"
      using nx(2) m(2) unfolding held by (cases "map_of (km_held k) key") (auto split: if_splits)
  qed
  moreover have "map_of (km_held k') key = Some m" by (simp add: held)
  moreover have "map_of (km_held k') x = None \<longleftrightarrow> users ?p x = {}" for x
    using inv by (simp add: held u table_inv_def)
  moreover have "map_of (km_count k') x = (if users ?p x = {} then None else Some (int (card (users ?p x))))" for x
    using inv card by (simp add: count u table_inv_def)
  moreover have "finite (users ?p x)" for x using inv by (simp add: u table_inv_def)
  ultimately show ?thesis using old unfolding table_inv_def by (simp add: fun_upd_def) blast
qed

lemma table_leave:
  assumes inv: "table_inv k pcs" and rel: "pcs t = Releasing key"
  shows "table_inv (km_leave key k) (pcs(t := Idle))"
proof -
  let ?p = "pcs(t := Idle)" and ?k = "km_leave key k"
  have u: "users ?p x = (if x = key then users pcs key - {t} else users pcs x)" for x
    using rel by (auto simp: users_def)
  have fin: "finite (users pcs key)" and t: "t \<in> users pcs key" using inv rel by (simp_all add: table_inv_def)
  then have card: "int (card (users pcs key - {t})) = count_of k key - 1"
    using card_Suc_Diff1 [OF fin t] by (simp add: count_of_inv [OF inv])
  have z: "count_of k key - 1 = 0 \<longleftrightarrow> users pcs key - {t} = {}" using card fin by (simp flip: card)
  have count: "map_of (km_count ?k) = (map_of (km_count k))(key :=
      if users pcs key - {t} = {} then None else Some (int (card (users pcs key - {t}))))"
    and held: "map_of (km_held ?k) = (if users pcs key - {t} = {} then (map_of (km_held k))(key := None) else map_of (km_held k))"
    and nx: "km_next ?k = km_next k"
    using z card by (auto simp: km_leave_def Let_def count_of_def fun_eq_iff)
  have old: "map_of (km_held ?k) x = Some n" if "u \<noteq> t" "pcs u = Waiting x n \<or> pcs u = Holding x n" for u x n
  proof -
    have "map_of (km_held k) x = Some n" using inv that(2) by (auto simp: table_inv_def)
    moreover have "u \<in> users pcs x - {t}" using that by auto
    ultimately show ?thesis by (auto simp: held)
  qed
  have "map_of (km_held ?k) x = None \<longleftrightarrow> users ?p x = {}" for x
    using inv t by (auto simp: held u table_inv_def)
  moreover have "map_of (km_count ?k) x = (if users ?p x = {} then None else Some (int (card (users ?p x))))" for x
    using inv by (simp add: count u table_inv_def)
  moreover have "finite (users ?p x)" for x using inv by (simp add: u table_inv_def)
  moreover have "map_of (km_held ?k) x = Some n \<Longrightarrow> map_of (km_held k) x = Some n" for x n
    by (auto simp: held split: if_splits)
  ultimately show ?thesis using inv old nx unfolding table_inv_def by (simp add: fun_upd_def) blast
qed

lemma km_run_inv: "km_run k pcs locked \<Longrightarrow> table_inv k pcs \<and> lock_inv pcs locked"
proof (induction rule: km_run.induct)
  case start
  then show ?case by (simp add: table_inv_def lock_inv_def holds_def newKeyedMutex_def users_def)
next
  case (enter k pcs locked t key m k')
  then show ?case by (intro conjI table_enter [of k] lock_idle) auto
next
  case (acquire k pcs locked t key m)
  then have "map_of (km_held k) key = Some m" by (auto simp: table_inv_def)
  with acquire show ?case by (intro conjI table_same [of _ _ key] lock_acquire) auto
next
  case (release k pcs locked t key m)
  then show ?case by (intro conjI table_same [of _ _ key] lock_release) auto
next
  case (leave k pcs locked t key)
  then show ?case by (intro conjI table_leave lock_idle) auto
qed

section \<open>Properties\<close>

text \<open>
  C12: One logical record is worked on by one task at a time, and the table of locks does not grow.
  In every interleaving of goroutines at most one holds the lock of a key; a goroutine that waits
  while nobody holds its key can take the lock; and a key has an entry only as long as somebody
  holds it, waits for it or is about to leave it.
\<close>

theorem keyed_mutual_exclusion:
  assumes "km_run k pcs locked"
  shows "(\<forall>t t' key m m'. pcs t = Holding key m \<longrightarrow> pcs t' = Holding key m' \<longrightarrow> t = t') \<and>
    (\<forall>t key m. pcs t = Waiting key m \<longrightarrow> (\<nexists>t' m'. pcs t' = Holding key m') \<longrightarrow> m \<notin> locked) \<and>
    (\<forall>key. (\<nexists>t. uses_key key (pcs t)) \<longrightarrow> map_of (km_held k) key = None \<and> map_of (km_count k) key = None)"
proof -
  have inv: "table_inv k pcs" "lock_inv pcs locked" using km_run_inv [OF assms] by simp_all
  have entry: "map_of (km_held k) key = Some m" if "pcs t = Holding key m \<or> pcs t = Waiting key m" for t key m
    using inv(1) that by (auto simp: table_inv_def)
  have one: "m = m'" "t = t'" if "pcs t = Holding key m" "pcs t' = Holding key m'" for t t' key m m'
  proof -
    show "m = m'" using entry [of t key m] entry [of t' key m'] that by simp
    with that inv(2) show "t = t'" unfolding lock_inv_def holds_def by blast
  qed
  have "m \<notin> locked" if w: "pcs t = Waiting key m" and none: "\<nexists>t' m'. pcs t' = Holding key m'" for t key m
  proof
    assume "m \<in> locked"
    then obtain t' key' where h: "pcs t' = Holding key' m" using inv(2) by (auto simp: lock_inv_def holds_def)
    then have "key' = key" using entry [of t' key' m] entry [of t key m] w inv(1) unfolding table_inv_def by blast
    with h none show False by blast
  qed
  moreover have "map_of (km_held k) key = None \<and> map_of (km_count k) key = None"
    if "\<nexists>t. uses_key key (pcs t)" for key
    using inv(1) that by (auto simp: table_inv_def users_def)
  ultimately show ?thesis using one(2) by blast
qed

theorem keyed_mutual_exclusion_witness:
  "\<exists>k pcs locked. km_run k pcs locked \<and> pcs 1 = Holding ''a'' 0 \<and> pcs 2 = Waiting ''a'' 0 \<and>
     (\<forall>m. pcs 2 \<noteq> Holding ''a'' m)"
proof -
  obtain k1 where k1: "km_enter ''a'' newKeyedMutex = (0, k1)" "map_of (km_held k1) ''a'' = Some 0"
    by (simp add: km_enter_def newKeyedMutex_def)
  obtain k2 where k2: "km_enter ''a'' k1 = (0, k2)" using k1(2) by (simp add: km_enter_def)
  let ?p = "((\<lambda>_. Idle)((1::nat) := Waiting ''a'' 0))(2 := Waiting ''a'' 0)"
  have "km_run k1 ((\<lambda>_. Idle)(1 := Waiting ''a'' 0)) {}"
    by (rule km_run.enter [OF km_run.start _ k1(1)]) simp
  then have "km_run k2 ?p {}" by (rule km_run.enter [OF _ _ k2]) simp
  then have r: "km_run k2 (?p(1 := Holding ''a'' 0)) (insert 0 {})"
    by (rule km_run.acquire [where t = 1]) simp_all
  have "(1 :: nat) = 2" if "(?p(1 := Holding ''a'' 0)) 2 = Holding ''a'' m" for m
    by (rule conjunct1 [OF keyed_mutual_exclusion [OF r], rule_format, OF _ that]) simp
  then have "(?p(1 := Holding ''a'' 0)) 2 \<noteq> Holding ''a'' m" for m by fastforce
  with r show ?thesis
    by (intro exI [of _ k2] exI [of _ "?p(1 := Holding ''a'' 0)"] exI [of _ "insert 0 {}"] conjI allI) auto
qed

end
