(* ===== verification/Spec2Isabelle.thy ===== *)
theory Spec2Isabelle
  imports Doctor Commands Manual_Clock Conformance Keyed_Mutex
begin

text \<open>
  Verification library of crm-bisync, a program that keeps the records of two customer-relationship
  systems (\<^emph>\<open>peers\<close>) the same in both directions. This theory gathers the library; every other
  theory holds one part of the program.

  \<^bold>\<open>The program.\<close> A change on one peer is a \<^verbatim>\<open>ChangeEvent\<close>, found by polling
  (\<^verbatim>\<open>engine/poll.go\<close>) or delivered to a webhook (\<^verbatim>\<open>engine/webhook.go\<close>). It becomes a
  task of the work queue (\<^verbatim>\<open>engine/queue.go\<close>), which a worker runs and retries
  (\<^verbatim>\<open>engine/run.go\<close>) under a lock per logical record. The pipeline
  (\<^verbatim>\<open>engine/pipeline.go\<close>) asks whether the change is an echo of the engine's own write
  (\<^verbatim>\<open>origin\<close>), finds the record's counterpart (\<^verbatim>\<open>identity\<close>), translates fields
  (\<^verbatim>\<open>mapping\<close>), decides who wins (\<^verbatim>\<open>conflict\<close>), writes through the connector within
  its rate (\<^verbatim>\<open>ratelimit\<close>) under an idempotency key (\<^verbatim>\<open>idem\<close>), and records the result in
  the store (\<^verbatim>\<open>store\<close>). Once the work of a poll is terminal its mark moves (\<^verbatim>\<open>watermark\<close>).
  A dry run does all of it against an overlay of the store and a plan that takes the place of the
  writes. The commands of \<^verbatim>\<open>cmd/crm-bisync\<close> put the parts together from a configuration.

  \<^bold>\<open>Effects and errors.\<close> A Go function that can fail and changes state is a function
  \<open>'s \<Rightarrow> ('e + 'a) \<times> 's\<close> (\<open>Prelude\<close>), and the state is returned on the error branch as well.
  A Go map is an association list with distinct keys where its order can matter. Where the
  source iterates over a Go map the model fixes an order, and says so. Durations and times are
  integers of nanoseconds; where the source can wrap or saturate, \<open>wrap64\<close>, \<open>time_sub\<close> and
  \<open>dur_abs\<close> of \<open>Go_Lib\<close> do. Text functions are exact for ASCII text. A method under a mutex is one
  step.
\<close>

text \<open>
  \<^bold>\<open>Which theory models which file.\<close> Paths are under \<^verbatim>\<open>internal/\<close>.
  \<^item> \<open>Prelude\<close>, \<open>Go_Lib\<close>: no file of the program; the vocabulary, and what is used of Go's library.
  \<^item> \<open>Canonical\<close>: \<^verbatim>\<open>model/record.go\<close>. Values, records, events, \<^verbatim>\<open>canonicalValue\<close> and
    \<^verbatim>\<open>SnapshotHash\<close>, and what a JSON round trip does to values.
  \<^item> \<open>Errors\<close>: \<^verbatim>\<open>connector/errors.go\<close>. Failures as the values of one datatype.
  \<^item> \<open>Transforms\<close>, \<open>Field_Map\<close>: \<^verbatim>\<open>mapping/transform.go\<close>, \<^verbatim>\<open>mapping/mapping.go\<close> and the schema
    of \<^verbatim>\<open>connector/connector.go\<close>.
  \<^item> \<open>Conflict\<close>: \<^verbatim>\<open>conflict/conflict.go\<close>.
  \<^item> \<open>Store_Api\<close>, \<open>Mem_Store\<close>, \<open>Overlay_Store\<close>, \<open>File_Store\<close>, \<open>Typed_Store\<close>: the five files of
    \<^verbatim>\<open>store\<close>. The interface is the record \<open>store_ops\<close> of its calls.
  \<^item> \<open>Origin\<close>, \<open>Idempotency\<close>, \<open>Identity\<close>, \<open>Watermarks\<close>, \<open>Rate_Limit\<close>: \<^verbatim>\<open>origin/origin.go\<close>,
    \<^verbatim>\<open>idem/idem.go\<close>, \<^verbatim>\<open>identity/identity.go\<close>, \<^verbatim>\<open>watermark/watermark.go\<close>,
    \<^verbatim>\<open>ratelimit/ratelimit.go\<close>.
  \<^item> \<open>Pipeline\<close>: \<^verbatim>\<open>engine/pipeline.go\<close>, with \<^verbatim>\<open>planRecorder\<close> of \<^verbatim>\<open>plan.go\<close> and the shapes
    of \<^verbatim>\<open>engine.go\<close>. What never changes of an engine is the record \<open>env\<close>, what does is \<open>eng\<close>; the
    peers are the record \<open>conn_ops\<close> of connector calls over a world of any type. Its properties are
    in \<open>Pipeline_Safety\<close> (what can reach the peers) and \<open>Pipeline_Effects\<close> (what a run leaves in the
    store, and what the next run makes of it).
  \<^item> \<open>Work_Queue\<close>, \<open>Keyed_Mutex\<close>: the two halves of \<^verbatim>\<open>engine/queue.go\<close>.
  \<^item> \<open>Event_Codec\<close>, \<open>Engine_Run\<close>: \<^verbatim>\<open>engine/run.go\<close> and \<^verbatim>\<open>Drain\<close>, with the decoding of a
    dead-lettered event. The record \<open>rt\<close> is the engine with its queue.
  \<^item> \<open>Polling\<close>, \<open>Webhook_Ingest\<close>, \<open>Doctor\<close>: \<^verbatim>\<open>engine/poll.go\<close>, \<^verbatim>\<open>webhook.go\<close>,
    \<^verbatim>\<open>doctor.go\<close>, and \<^verbatim>\<open>Validate\<close> of \<^verbatim>\<open>engine.go\<close>.
  \<^item> \<open>Config\<close>, \<open>Engine_New\<close>: \<^verbatim>\<open>config/config.go\<close>; \<^verbatim>\<open>New\<close> and \<^verbatim>\<open>buildSync\<close> of
    \<^verbatim>\<open>engine.go\<close>, and \<^verbatim>\<open>Plan\<close> of \<^verbatim>\<open>plan.go\<close>.
  \<^item> \<open>Store_Access\<close>, \<open>Dry_Run\<close>, \<open>Plan_Fakes\<close>: no file of their own; what runs of the engine keep
    because they reach store and peers through the two interfaces only.
  \<^item> \<open>Fake_Connector\<close>, \<open>Fake_Contract\<close>, \<open>Fake_Webhooks\<close>, \<open>Connector_Contract\<close>: the three files of
    \<^verbatim>\<open>connector/fake\<close> and the promise of \<^verbatim>\<open>connector.Connector\<close>.
  \<^item> \<open>Conformance\<close>: \<^verbatim>\<open>connector/connectortest/conformance.go\<close>, the suite a connector must pass; a
    subtest is a function on the connector, \<^verbatim>\<open>testing.T\<close> is the way it ends.
  \<^item> \<open>Driver\<close>, \<open>Report\<close>, \<open>Manual_Clock\<close>: \<^verbatim>\<open>driver/driver.go\<close> and \<^verbatim>\<open>driver/fake.go\<close>,
    \<^verbatim>\<open>report/report.go\<close>, \<^verbatim>\<open>clock/clock.go\<close>.
  \<^item> \<open>Commands\<close>: \<^verbatim>\<open>cmd/crm-bisync/main.go\<close>.
\<close>

text \<open>
  \<^bold>\<open>Interfaces.\<close> What one part relies on in another is a locale, and every locale is interpreted on
  the model's own definitions.
  \<^item> \<open>kv_store\<close>, \<open>kv_store_strict\<close>, \<open>doc_store\<close>: what a store promises its clients: a view of the
    entries that are there at a time, and what each call does to it. \<open>mem\<close> and \<open>mem_docs\<close> are the
    memory store, \<open>overlay\<close> the overlay on top of it. The accessors of \<open>Typed_Store\<close> and the
    clients of the store are proved under \<open>doc_store\<close> and hold of the memory store.
  \<^item> \<open>two_stores\<close>: two stores with the same view answer every sequence of calls alike; \<open>dry\<close> is the
    overlay beside its base.
  \<^item> \<open>store_kept\<close>, \<open>engine_kept\<close>, \<open>run_kept\<close>, \<open>peers_read\<close>, \<open>base_read\<close>: a property of the store (of
    the peers) that each call of the interface keeps is kept by accessors, pipeline, polling,
    draining and a whole cycle. The interpretations in \<open>Plan_Fakes\<close> are the invariant of the memory
    store, the untouched base of an overlay over memory and over files, and the untouched fakes.
  \<^item> \<open>crm_connector\<close>: what a connector promises the engine, after what the conformance suite checks;
    \<open>suite_connector\<close> extends it by what the suite needs to be passed. \<open>fakes\<close> and \<open>fake_suite\<close> are the
    fake connector without injected faults.

  \<^bold>\<open>What is shown.\<close>
  \<^item> Digests and translation: the text a digest is taken of determines the fields; mapping a
    canonical record out and back returns it; transforms are total and normalise.
  \<^item> Conflicts: a one-sided change converges, a three-way merge drops no edit, a difference
    within the clock skew does not decide.
  \<^item> Stores: as long as the disk reports no error, the file store answers as the memory store does,
    and after a crash at any moment of a call everything acknowledged is there; the overlay answers as its base would and the base
    is left as it was.
  \<^item> One change: the engine's own write comes back as an echo and is dropped, a create whose
    answer was lost is not sent again, a delete ends after one round trip, a settled pair stays
    quiet, a question is asked once, no write goes against the direction of the sync, a dry run
    writes nothing.
  \<^item> Many changes: the queue accounts for every task through any sequence of its calls, a failed
    task ends as a dead letter that can be replayed, draining and the worker end with nothing left
    to run, marks move only over finished work and never back, no peer is called above its rate, no
    two goroutines hold the lock of one record.
  \<^item> The peers: a poll of the fake misses and repeats nothing, the deliveries it sends are accepted,
    and it passes every subtest of the conformance suite.
  \<^item> The whole: a configuration that loads builds, the engine it builds is ready, the doctor agrees
    with the check made at the start, a plan leaves state directory and fakes as they are, the
    commands end with the exit code their result calls for.
  \<^item> Where the code does not do what it says, a theorem with concrete input shows it, named after
    what happens (\<open>write_after_torn_append_lost\<close>, \<open>stop_lets_mark_pass_unrun_work\<close>,
    \<open>cancelled_task_lets_mark_pass\<close>, \<open>replayed_event_lost\<close> and others).
\<close>

text \<open>
  \<^bold>\<open>Loops and waiting.\<close> No fuel is used. Reading pages ends by the source's own bound \<open>maxPages\<close>.
  \<open>Drain\<close> ends because every run of a task uses up an attempt (\<open>attempts_left\<close>); \<open>worker\<close> ends by
  the attempts left, then the wake-up tokens, then the tasks that are not yet due. A call that waits
  for something nobody is left to do has the result \<^const>\<open>None\<close>: \<open>await\<close>, \<open>Commit_poll\<close>, \<open>Cycle\<close> and
  \<open>Plan\<close>. Interleavings are step relations: \<open>km_run\<close> for the record locks, \<open>queue_run\<close> for the queue,
  \<open>bucket_run\<close> for the calls on a token bucket. Crashes are points of the recorded history of the
  disk.

  \<^bold>\<open>Parameters.\<close> SHA-256 and HMAC with hex encoding, the JSON text of a delivery, draws of the seeded
  random generators (by their number), the connectors of real systems, the system calls' results
  (by their number), the contents of configuration and fixture files as they decode, the text
  forms of numbers and durations given as flags, which of two ready channels a \<^verbatim>\<open>select\<close> takes,
  and, for the daemon, what its workers and handlers do between two passes.

  \<^bold>\<open>What is not modelled.\<close>
  \<^item> Reading files, decoding configuration JSON, printing JSON, the HTTP server and signals: input
    and output of the Go library. Request handling starts with the request.
  \<^item> The wall clock: the system's. \<open>Manual_Clock\<close> is the clock of the program that is its own code.
  \<^item> Goroutines other than in \<open>Keyed_Mutex\<close>: workers run one task at a time here. What one task does
    is protected by the lock of its record, and each queue and store call by its mutex.
  \<^item> \<^verbatim>\<open>float64\<close> rounding in the token bucket: its balance is an exact rational.
\<close>

end
